(* ===== verification/Prelude.thy ===== *)
theory Prelude
  imports Main "HOL-Library.Sublist" "HOL-Library.Monad_Syntax"
begin

text \<open>
  What every component shares. A Rust \<open>str\<close> or \<open>String\<close> is the list of its UTF-8 bytes,
  so \<open>length\<close> is Rust's \<open>len()\<close>; the standard-library operations the code calls on strings
  are defined here at byte level. A Rust \<open>Result\<close> is a sum with the error on the left.
\<close>

named_theorems str_simps \<open>byte-string operations of the standard library\<close>
named_theorems enum_defs \<open>constants and tables of the code\<close>

type_synonym bytes = "char list"

section \<open>Results\<close>

fun and_then :: "'e + 'a \<Rightarrow> ('a \<Rightarrow> 'e + 'b) \<Rightarrow> 'e + 'b" where
  "and_then (Inl e) f = Inl e"
| "and_then (Inr a) f = f a"

lemma and_then_Inr_iff [simp]:
  "and_then r f = Inr b \<longleftrightarrow> (\<exists>a. r = Inr a \<and> f a = Inr b)"
  by (cases r) auto

lemma and_then_Inl_iff:
  "and_then r f = Inl e \<longleftrightarrow> r = Inl e \<or> (\<exists>a. r = Inr a \<and> f a = Inl e)"
  by (cases r) auto

definition ok_or :: "'e \<Rightarrow> 'a option \<Rightarrow> 'e + 'a" where
  "ok_or e x = (case x of None \<Rightarrow> Inl e | Some a \<Rightarrow> Inr a)"

lemma ok_or_simps [simp]: "ok_or e None = Inl e" "ok_or e (Some a) = Inr a"
  by (simp_all add: ok_or_def)

lemma ok_or_Inr_iff [simp]: "ok_or e x = Inr a \<longleftrightarrow> x = Some a"
  by (cases x) simp_all

section \<open>Bytes\<close>

definition is_upper :: "char \<Rightarrow> bool" where
  "is_upper c \<longleftrightarrow> 65 \<le> (of_char c :: nat) \<and> (of_char c :: nat) \<le> 90"

definition is_lower :: "char \<Rightarrow> bool" where
  "is_lower c \<longleftrightarrow> 97 \<le> (of_char c :: nat) \<and> (of_char c :: nat) \<le> 122"

definition is_digit :: "char \<Rightarrow> bool" where
  "is_digit c \<longleftrightarrow> 48 \<le> (of_char c :: nat) \<and> (of_char c :: nat) \<le> 57"

definition is_alnum :: "char \<Rightarrow> bool" where
  "is_alnum c \<longleftrightarrow> is_upper c \<or> is_lower c \<or> is_digit c"

definition is_ascii :: "char \<Rightarrow> bool" where
  "is_ascii c \<longleftrightarrow> (of_char c :: nat) < 128"

definition is_ascii_ws :: "char \<Rightarrow> bool" where
  "is_ascii_ws c \<longleftrightarrow> c \<in> {CHR 0x20, CHR 0x09, CHR 0x0A, CHR 0x0C, CHR 0x0D}"

definition lower1 :: "char \<Rightarrow> char" where
  "lower1 c = (if is_upper c then char_of ((of_char c :: nat) + 32) else c)"

definition upper1 :: "char \<Rightarrow> char" where
  "upper1 c = (if is_lower c then char_of ((of_char c :: nat) - 32) else c)"

definition to_lower :: "bytes \<Rightarrow> bytes" where
  "to_lower s = map lower1 s"

definition to_upper :: "bytes \<Rightarrow> bytes" where
  "to_upper s = map upper1 s"

definition eq_ci :: "bytes \<Rightarrow> bytes \<Rightarrow> bool" where
  "eq_ci s t \<longleftrightarrow> to_lower s = to_lower t"

lemma of_char_lower1:
  "(of_char (lower1 c) :: nat) = (if is_upper c then of_char c + 32 else of_char c)"
  by (auto simp: lower1_def is_upper_def)

lemma not_upper_lower1 [simp]: "\<not> is_upper (lower1 c)"
  by (auto simp: is_upper_def of_char_lower1)

lemma lower1_idem [simp]: "lower1 (lower1 c) = lower1 c"
  by (simp add: lower1_def [of "lower1 c"])

lemma to_lower_idem [simp]: "to_lower (to_lower s) = to_lower s"
  by (simp add: to_lower_def)

lemma length_to_lower [simp]: "length (to_lower s) = length s"
  by (simp add: to_lower_def)

lemma to_lower_simps [simp]:
  "to_lower [] = []" "to_lower (c # s) = lower1 c # to_lower s"
  "to_lower (s @ t) = to_lower s @ to_lower t"
  by (simp_all add: to_lower_def)

lemma take_to_lower [simp]: "take n (to_lower s) = to_lower (take n s)"
  by (simp add: to_lower_def take_map)

lemma drop_to_lower: "drop n (to_lower s) = to_lower (drop n s)"
  by (simp add: to_lower_def drop_map)

lemma to_lower_fixed: "list_all (\<lambda>c. \<not> is_upper c) s \<Longrightarrow> to_lower s = s"
  by (induction s) (auto simp: lower1_def)

lemma no_upper_to_lower [simp]: "c \<in> set (to_lower s) \<Longrightarrow> \<not> is_upper c"
  by (auto simp: to_lower_def)

lemma eq_ci_refl [simp]: "eq_ci s s"
  by (simp add: eq_ci_def)

lemma eq_ci_sym: "eq_ci s t \<Longrightarrow> eq_ci t s"
  by (simp add: eq_ci_def)

lemma eq_ci_trans: "eq_ci s t \<Longrightarrow> eq_ci t u \<Longrightarrow> eq_ci s u"
  by (simp add: eq_ci_def)

lemma eq_ci_to_lower [simp]: "eq_ci (to_lower s) t = eq_ci s t" "eq_ci s (to_lower t) = eq_ci s t"
  by (simp_all add: eq_ci_def)

section \<open>Substrings\<close>

abbreviation starts_with :: "bytes \<Rightarrow> bytes \<Rightarrow> bool" where
  "starts_with s p \<equiv> prefix p s"

abbreviation ends_with :: "bytes \<Rightarrow> bytes \<Rightarrow> bool" where
  "ends_with s p \<equiv> suffix p s"

definition strip_prefix :: "bytes \<Rightarrow> bytes \<Rightarrow> bytes option" where
  "strip_prefix p s = (if prefix p s then Some (drop (length p) s) else None)"

lemma strip_prefix_Some_iff [simp]: "strip_prefix p s = Some r \<longleftrightarrow> s = p @ r"
  by (auto simp: strip_prefix_def prefix_def)

fun find_sub :: "bytes \<Rightarrow> bytes \<Rightarrow> nat option" where
  "find_sub n [] = (if n = [] then Some 0 else None)"
| "find_sub n (c # cs) =
     (if prefix n (c # cs) then Some 0 else map_option Suc (find_sub n cs))"

definition contains :: "bytes \<Rightarrow> bytes \<Rightarrow> bool" where
  "contains s n \<longleftrightarrow> find_sub n s \<noteq> None"

lemma find_sub_Some:
  "find_sub n s = Some i \<Longrightarrow> i + length n \<le> length s \<and> take (length n) (drop i s) = n"
  by (induction n s arbitrary: i rule: find_sub.induct)
    (auto split: if_splits simp: prefix_def dest: arg_cong [where f = length])

lemma contains_iff [str_simps]: "contains s n \<longleftrightarrow> sublist n s"
proof -
  have "find_sub n s \<noteq> None \<longleftrightarrow> sublist n s"
    by (induction n s rule: find_sub.induct) (auto simp: sublist_Cons_right)
  then show ?thesis by (simp add: contains_def)
qed

lemma find_sub_first:
  "find_sub n s = Some i \<Longrightarrow> j < i \<Longrightarrow> \<not> prefix n (drop j s)"
  by (induction n s arbitrary: i j rule: find_sub.induct)
    (auto split: if_splits simp: drop_Cons' less_Suc_eq_0_disj)

text \<open>\<open>str::replace\<close>: left to right, without overlaps. Every needle of the code is non-empty.\<close>

function replace_all :: "bytes \<Rightarrow> bytes \<Rightarrow> bytes \<Rightarrow> bytes" where
  "replace_all f t [] = []"
| "replace_all f t (c # cs) =
     (if f \<noteq> [] \<and> prefix f (c # cs) then t @ replace_all f t (drop (length f) (c # cs))
      else c # replace_all f t cs)"
  by pat_completeness auto
termination
  by (relation "measure (\<lambda>(f, t, s). length s)") auto

lemma replace_all_id: "\<not> contains s f \<Longrightarrow> replace_all f t s = s"
  by (induction f t s rule: replace_all.induct) (auto simp: contains_def)

text \<open>\<open>split\<close> with a byte predicate: never empty, the separators dropped.\<close>

fun split_by :: "(char \<Rightarrow> bool) \<Rightarrow> bytes \<Rightarrow> bytes list" where
  "split_by p [] = [[]]"
| "split_by p (c # cs) =
     (if p c then [] # split_by p cs
      else (case split_by p cs of [] \<Rightarrow> [[c]] | w # ws \<Rightarrow> (c # w) # ws))"

lemma split_by_not_Nil [simp]: "split_by p s \<noteq> []"
  by (induction s) (auto split: list.splits)

lemma split_by_no_sep: "w \<in> set (split_by p s) \<Longrightarrow> c \<in> set w \<Longrightarrow> \<not> p c"
  by (induction s arbitrary: w) (fastforce split: if_splits list.splits)+

lemma split_by_single: "list_all (\<lambda>c. \<not> p c) s \<Longrightarrow> split_by p s = [s]"
  by (induction s) auto

lemma hd_split_by: "hd (split_by p s) = takeWhile (\<lambda>c. \<not> p c) s"
  by (induction s) (auto split: list.splits)

text \<open>\<open>split_once\<close> on one byte.\<close>

definition split_once :: "char \<Rightarrow> bytes \<Rightarrow> (bytes \<times> bytes) option" where
  "split_once c s =
     (case dropWhile (\<lambda>x. x \<noteq> c) s of
        [] \<Rightarrow> None
      | _ # rest \<Rightarrow> Some (takeWhile (\<lambda>x. x \<noteq> c) s, rest))"

section \<open>Trimming\<close>

text \<open>The UTF-8 encodings of Unicode's \<open>White_Space\<close> characters, which \<open>str::trim\<close> removes.\<close>

definition ws_seqs :: "bytes list" where [enum_defs]:
  "ws_seqs =
     [[CHR 0x09], [CHR 0x0A], [CHR 0x0B], [CHR 0x0C], [CHR 0x0D], [CHR 0x20],
      [CHR 0xC2, CHR 0x85], [CHR 0xC2, CHR 0xA0], [CHR 0xE1, CHR 0x9A, CHR 0x80],
      [CHR 0xE2, CHR 0x80, CHR 0x80], [CHR 0xE2, CHR 0x80, CHR 0x81],
      [CHR 0xE2, CHR 0x80, CHR 0x82], [CHR 0xE2, CHR 0x80, CHR 0x83],
      [CHR 0xE2, CHR 0x80, CHR 0x84], [CHR 0xE2, CHR 0x80, CHR 0x85],
      [CHR 0xE2, CHR 0x80, CHR 0x86], [CHR 0xE2, CHR 0x80, CHR 0x87],
      [CHR 0xE2, CHR 0x80, CHR 0x88], [CHR 0xE2, CHR 0x80, CHR 0x89],
      [CHR 0xE2, CHR 0x80, CHR 0x8A], [CHR 0xE2, CHR 0x80, CHR 0xA8],
      [CHR 0xE2, CHR 0x80, CHR 0xA9], [CHR 0xE2, CHR 0x80, CHR 0xAF],
      [CHR 0xE2, CHR 0x81, CHR 0x9F], [CHR 0xE3, CHR 0x80, CHR 0x80]]"

fun trim_with :: "bytes list \<Rightarrow> nat \<Rightarrow> bytes \<Rightarrow> bytes" where
  "trim_with ws 0 s = s"
| "trim_with ws (Suc n) s =
     (case find (\<lambda>w. prefix w s) ws of None \<Rightarrow> s | Some w \<Rightarrow> trim_with ws n (drop (length w) s))"

definition trim_start :: "bytes \<Rightarrow> bytes" where
  "trim_start s = trim_with ws_seqs (length s) s"

definition trim_end :: "bytes \<Rightarrow> bytes" where
  "trim_end s = rev (trim_with (map rev ws_seqs) (length s) (rev s))"

definition trim :: "bytes \<Rightarrow> bytes" where
  "trim s = trim_end (trim_start s)"

text \<open>\<open>trim_matches\<close> with a byte predicate.\<close>

definition trim_matches :: "(char \<Rightarrow> bool) \<Rightarrow> bytes \<Rightarrow> bytes" where
  "trim_matches p s = rev (dropWhile p (rev (dropWhile p s)))"

lemma set_trim_matches: "set (trim_matches p s) \<subseteq> set s"
  by (auto simp: trim_matches_def dest!: set_dropWhileD)

lemma trim_matches_hd: "trim_matches p s \<noteq> [] \<Longrightarrow> \<not> p (hd (trim_matches p s))"
proof -
  assume ne: "trim_matches p s \<noteq> []"
  let ?t = "dropWhile p s"
  have "suffix (dropWhile p (rev ?t)) (rev ?t)" by (rule suffix_dropWhile)
  then have pre: "prefix (trim_matches p s) ?t"
    by (simp add: trim_matches_def suffix_to_prefix)
  with ne have "hd (trim_matches p s) = hd ?t" by (auto simp: prefix_def)
  moreover from pre ne have "?t \<noteq> []" by (metis prefix_Nil)
  ultimately show ?thesis by (metis hd_dropWhile)
qed

lemma trim_matches_last: "trim_matches p s \<noteq> [] \<Longrightarrow> \<not> p (last (trim_matches p s))"
  unfolding trim_matches_def by (metis hd_dropWhile last_rev rev_is_Nil_conv)

text \<open>\<open>chars().take(n)\<close> on UTF-8 bytes: a byte that is not a continuation byte opens a character.\<close>

definition is_cont :: "char \<Rightarrow> bool" where
  "is_cont c \<longleftrightarrow> 128 \<le> (of_char c :: nat) \<and> (of_char c :: nat) < 192"

fun take_chars :: "nat \<Rightarrow> bytes \<Rightarrow> bytes" where
  "take_chars n [] = []"
| "take_chars n (c # cs) =
     (if is_cont c then c # take_chars n cs
      else (case n of 0 \<Rightarrow> [] | Suc m \<Rightarrow> c # take_chars m cs))"

definition count_chars :: "bytes \<Rightarrow> nat" where
  "count_chars s = length (filter (\<lambda>c. \<not> is_cont c) s)"

text \<open>
  \<open>chars()\<close> as code points: a byte that is not a continuation byte and the continuation bytes
  after it are one character.
\<close>

fun code_point :: "char \<Rightarrow> bytes \<Rightarrow> nat" where
  "code_point c cs =
     (let b = (of_char c :: nat);
          lead = (if b < 128 then b else if b < 224 then b mod 32
                  else if b < 240 then b mod 16 else b mod 8)
      in if b < 128 then b else foldl (\<lambda>a x. a * 64 + of_char x mod 64) lead cs)"

declare code_point.simps [simp del]

function chars_of :: "bytes \<Rightarrow> nat list" where
  "chars_of [] = []"
| "chars_of (c # cs) = code_point c (takeWhile is_cont cs) # chars_of (dropWhile is_cont cs)"
  by pat_completeness auto
termination
  by (relation "measure length") (auto simp: le_imp_less_Suc length_dropWhile_le)

lemma code_point_ascii: "is_ascii c \<Longrightarrow> code_point c cs = of_char c"
  by (simp add: code_point.simps is_ascii_def Let_def)

lemma ascii_not_cont: "is_ascii c \<Longrightarrow> \<not> is_cont c"
  by (simp add: is_ascii_def is_cont_def)

lemma set_dropWhile_not: "x \<in> set xs \<Longrightarrow> \<not> P x \<Longrightarrow> x \<in> set (dropWhile P xs)"
  by (induction xs) auto

lemma ascii_in_chars_of: "c \<in> set s \<Longrightarrow> is_ascii c \<Longrightarrow> of_char c \<in> set (chars_of s)"
proof (induction s rule: chars_of.induct)
  case (2 d cs)
  show ?case
  proof (cases "c = d")
    case True
    with 2 show ?thesis by (simp add: code_point_ascii)
  next
    case False
    with 2 have "c \<in> set (dropWhile is_cont cs)"
      by (auto intro: set_dropWhile_not dest: ascii_not_cont)
    with 2 show ?thesis by simp
  qed
qed simp

lemma length_chars_of: "(s = [] \<or> \<not> is_cont (hd s)) \<Longrightarrow> length (chars_of s) = count_chars s"
proof (induction s rule: chars_of.induct)
  case (2 c cs)
  have "filter (\<lambda>c. \<not> is_cont c) cs = filter (\<lambda>c. \<not> is_cont c) (dropWhile is_cont cs)"
    by (induction cs) auto
  moreover have "dropWhile is_cont cs = [] \<or> \<not> is_cont (hd (dropWhile is_cont cs))"
    by (metis hd_dropWhile)
  ultimately show ?case using 2 by (simp add: count_chars_def)
qed (simp add: count_chars_def)

lemma count_take_chars: "count_chars (take_chars n s) = min n (count_chars s)"
  by (induction n s rule: take_chars.induct) (auto simp: count_chars_def split: nat.splits)

lemma prefix_take_chars: "prefix (take_chars n s) s"
  by (induction n s rule: take_chars.induct) (auto split: nat.splits)

section \<open>Binary search\<close>

text \<open>\<open>slice::binary_search\<close>: halve the window, keep the right half when the probe is not greater.\<close>

function bsearch_loop :: "'a::linorder list \<Rightarrow> 'a \<Rightarrow> nat \<Rightarrow> nat \<Rightarrow> nat" where
  "bsearch_loop xs x base n =
     (if n \<le> 1 then base
      else bsearch_loop xs x (if x < xs ! (base + n div 2) then base else base + n div 2)
             (n - n div 2))"
  by pat_completeness auto
termination
  by (relation "measure (\<lambda>(xs, x, base, n). n)") auto

declare bsearch_loop.simps [simp del]

definition binary_search :: "'a::linorder list \<Rightarrow> 'a \<Rightarrow> nat option" where
  "binary_search xs x =
     (if xs = [] then None
      else (let i = bsearch_loop xs x 0 (length xs) in if xs ! i = x then Some i else None))"

lemma bsearch_loop_window:
  assumes "sorted xs" "0 < n" "base + n \<le> length xs"
  shows "bsearch_loop xs x base n < length xs \<and>
    (\<forall>j. base \<le> j \<and> j < base + n \<and> xs ! j = x \<longrightarrow> xs ! bsearch_loop xs x base n = x)"
  using assms
proof (induction xs x base n rule: bsearch_loop.induct)
  case (1 xs x base n)
  show ?case
  proof (cases "n \<le> 1")
    case True
    then have "j = base" if "base \<le> j" "j < base + n" for j using that by linarith
    then have "xs ! base = xs ! j" if "base \<le> j" "j < base + n" for j using that by metis
    then have "\<forall>j. base \<le> j \<and> j < base + n \<and> xs ! j = x \<longrightarrow> xs ! base = x" by metis
    moreover have "base < length xs" using "1.prems" by linarith
    ultimately show ?thesis using True by (simp only: bsearch_loop.simps [of xs x base n] if_True simp_thms)
  next
    case False
    let ?mid = "base + n div 2"
    let ?b = "if x < xs ! ?mid then base else ?mid"
    let ?r = "bsearch_loop xs x ?b (n - n div 2)"
    have "0 < n - n div 2" "?b + (n - n div 2) \<le> length xs"
      using "1.prems" False by auto
    with "1.IH" [OF False "1.prems"(1)] have IH: "?r < length xs"
      "\<And>j. ?b \<le> j \<Longrightarrow> j < ?b + (n - n div 2) \<Longrightarrow> xs ! j = x \<Longrightarrow> xs ! ?r = x"
      by blast+
    have "xs ! ?r = x" if j: "base \<le> j" "j < base + n" "xs ! j = x" for j
    proof (cases "x < xs ! ?mid")
      case True
      with j "1.prems" have "j < ?mid"
        by (metis leD le_less_trans linorder_not_less sorted_nth_mono)
      with True j IH(2) [of j] show ?thesis by simp
    next
      case False': False
      show ?thesis
      proof (cases "?mid \<le> j")
        case True
        with False' j IH(2) [of j] show ?thesis by simp
      next
        case F: False
        with j "1.prems" have "x \<le> xs ! ?mid"
          using sorted_nth_mono [of xs j ?mid] False by simp
        with False' have "xs ! ?mid = x" by simp
        with False False' IH(2) [of ?mid] show ?thesis by simp
      qed
    qed
    with IH(1) False show ?thesis
      by (simp only: bsearch_loop.simps [of xs x base n] if_False) blast
  qed
qed

lemma binary_search_iff:
  "sorted xs \<Longrightarrow> binary_search xs x \<noteq> None \<longleftrightarrow> x \<in> set xs"
  using bsearch_loop_window [of xs "length xs" 0 x]
  by (auto simp: binary_search_def Let_def in_set_conv_nth)

section \<open>Decimal numbers\<close>

definition digit_char :: "nat \<Rightarrow> char" where
  "digit_char d = char_of (48 + d)"

fun show_nat :: "nat \<Rightarrow> bytes" where
  "show_nat n = (if n < 10 then [digit_char n] else show_nat (n div 10) @ [digit_char (n mod 10)])"

declare show_nat.simps [simp del]

lemma of_char_digit_char: "d < 10 \<Longrightarrow> (of_char (digit_char d) :: nat) = 48 + d"
  by (simp add: digit_char_def)

lemma is_digit_digit_char: "d < 10 \<Longrightarrow> is_digit (digit_char d)"
  by (simp add: is_digit_def of_char_digit_char)

lemma digit_char_inj: "a < 10 \<Longrightarrow> b < 10 \<Longrightarrow> digit_char a = digit_char b \<Longrightarrow> a = b"
  by (metis of_char_digit_char add_left_cancel)

lemma show_nat_not_Nil [simp]: "show_nat n \<noteq> []"
  by (subst show_nat.simps) simp

lemma show_nat_digits: "c \<in> set (show_nat n) \<Longrightarrow> is_digit c"
proof (induction n rule: show_nat.induct)
  case (1 n)
  then show ?case
    by (cases "n < 10") (auto simp: show_nat.simps [of n] is_digit_digit_char)
qed

fun read_nat :: "nat \<Rightarrow> bytes \<Rightarrow> nat" where
  "read_nat acc [] = acc"
| "read_nat acc (c # cs) = read_nat (10 * acc + (of_char c - 48)) cs"

lemma read_nat_append: "read_nat a (s @ t) = read_nat (read_nat a s) t"
  by (induction s arbitrary: a) auto

lemma read_show_nat: "read_nat 0 (show_nat n) = n"
proof (induction n rule: show_nat.induct)
  case (1 n)
  then show ?case
    by (cases "n < 10") (auto simp: show_nat.simps [of n] read_nat_append of_char_digit_char)
qed

lemma show_nat_inj [simp]: "show_nat m = show_nat n \<longleftrightarrow> m = n"
  by (metis read_show_nat)

text \<open>\<open>str::parse::<usize>\<close>: an optional plus sign and digits, below \<open>2 ^ 64\<close>.\<close>

definition parse_usize :: "bytes \<Rightarrow> nat option" where
  "parse_usize s =
     (let ds = (if starts_with s ''+'' then tl s else s) in
      if ds \<noteq> [] \<and> list_all is_digit ds \<and> read_nat 0 ds < 2 ^ 64 then Some (read_nat 0 ds) else None)"

lemma parse_show_nat:
  assumes "n < 2 ^ 64"
  shows "parse_usize (show_nat n) = Some n"
proof -
  obtain c cs where c: "show_nat n = c # cs" by (cases "show_nat n") auto
  have d: "list_all is_digit (show_nat n)" by (auto simp: list_all_iff show_nat_digits)
  with c have "\<not> starts_with (show_nat n) ''+''" by (auto simp: is_digit_def)
  with d assms show ?thesis by (simp add: parse_usize_def read_show_nat)
qed

end
