(* ===== verification/Ip_Addr.thy ===== *)
theory Ip_Addr
  imports Prelude "HOL-Library.Word"
begin

unbundle bit_operations_syntax

text \<open>
  Internet addresses as \<open>std::net\<close> has them: four octets or eight 16-bit segments, with the
  standard library's predicates the code calls, and CIDR membership as a comparison of the
  leading bits of the address read as a number.
\<close>

named_theorems ip_defs \<open>address predicates and tables\<close>

datatype ipv4 = IPv4 "8 word" "8 word" "8 word" "8 word"

datatype ipv6 =
  IPv6 "16 word" "16 word" "16 word" "16 word" "16 word" "16 word" "16 word" "16 word"

datatype ip = V4 ipv4 | V6 ipv6

section \<open>Standard predicates\<close>

fun v4_loopback :: "ipv4 \<Rightarrow> bool" where
  "v4_loopback (IPv4 a b c d) \<longleftrightarrow> a = 127"

fun v4_private :: "ipv4 \<Rightarrow> bool" where
  "v4_private (IPv4 a b c d) \<longleftrightarrow>
     a = 10 \<or> a = 172 \<and> 16 \<le> b \<and> b \<le> 31 \<or> a = 192 \<and> b = 168"

fun v4_link_local :: "ipv4 \<Rightarrow> bool" where
  "v4_link_local (IPv4 a b c d) \<longleftrightarrow> a = 169 \<and> b = 254"

fun v4_multicast :: "ipv4 \<Rightarrow> bool" where
  "v4_multicast (IPv4 a b c d) \<longleftrightarrow> 224 \<le> a \<and> a \<le> 239"

definition v4_broadcast :: "ipv4 \<Rightarrow> bool" where
  "v4_broadcast v \<longleftrightarrow> v = IPv4 255 255 255 255"

definition v4_unspecified :: "ipv4 \<Rightarrow> bool" where
  "v4_unspecified v \<longleftrightarrow> v = IPv4 0 0 0 0"

definition v6_loopback :: "ipv6 \<Rightarrow> bool" where
  "v6_loopback v \<longleftrightarrow> v = IPv6 0 0 0 0 0 0 0 1"

definition v6_unspecified :: "ipv6 \<Rightarrow> bool" where
  "v6_unspecified v \<longleftrightarrow> v = IPv6 0 0 0 0 0 0 0 0"

fun v6_multicast :: "ipv6 \<Rightarrow> bool" where
  "v6_multicast (IPv6 a b c d e f g h) \<longleftrightarrow> a AND 0xff00 = 0xff00"

fun v6_unique_local :: "ipv6 \<Rightarrow> bool" where
  "v6_unique_local (IPv6 a b c d e f g h) \<longleftrightarrow> a AND 0xfe00 = 0xfc00"

text \<open>The octets of the last two segments as an IPv4 address.\<close>

definition hi8 :: "16 word \<Rightarrow> 8 word" where "hi8 s = ucast (drop_bit 8 s)"
definition lo8 :: "16 word \<Rightarrow> 8 word" where "lo8 s = ucast (s AND 0xff)"

definition v4_of_segs :: "16 word \<Rightarrow> 16 word \<Rightarrow> ipv4" where
  "v4_of_segs g h = IPv4 (hi8 g) (lo8 g) (hi8 h) (lo8 h)"

fun to_ipv4_mapped :: "ipv6 \<Rightarrow> ipv4 option" where
  "to_ipv4_mapped (IPv6 a b c d e f g h) =
     (if a = 0 \<and> b = 0 \<and> c = 0 \<and> d = 0 \<and> e = 0 \<and> f = 0xffff then Some (v4_of_segs g h) else None)"

text \<open>The segment that holds two octets, the inverse of \<open>hi8\<close> and \<open>lo8\<close>.\<close>

definition seg :: "8 word \<Rightarrow> 8 word \<Rightarrow> 16 word" where
  "seg a b = push_bit 8 (ucast a) OR ucast b"

lemma hi8_seg [simp]: "hi8 (seg a b) = a"
  unfolding hi8_def seg_def
  by (rule bit_word_eqI) (auto simp: bit_simps dest: bit_imp_le_length)

lemma lo8_seg [simp]: "lo8 (seg a b) = b"
proof -
  have m: "(0xff :: 16 word) = mask 8" by (simp add: mask_eq_exp_minus_1)
  show ?thesis
    unfolding lo8_def seg_def m by (rule bit_word_eqI) (auto simp: bit_simps)
qed

lemma v4_of_segs_seg [simp]: "v4_of_segs (seg a b) (seg c d) = IPv4 a b c d"
  by (simp add: v4_of_segs_def)

section \<open>CIDR blocks\<close>

fun nat_of_v4 :: "ipv4 \<Rightarrow> nat" where
  "nat_of_v4 (IPv4 a b c d) = ((unat a * 256 + unat b) * 256 + unat c) * 256 + unat d"

fun nat_of_v6 :: "ipv6 \<Rightarrow> nat" where
  "nat_of_v6 (IPv6 a b c d e f g h) =
     unat a * 2 ^ 112 + unat b * 2 ^ 96 + unat c * 2 ^ 80 + unat d * 2 ^ 64
     + unat e * 2 ^ 48 + unat f * 2 ^ 32 + unat g * 2 ^ 16 + unat h"

definition in_cidr4 :: "ipv4 \<times> nat \<Rightarrow> ipv4 \<Rightarrow> bool" where
  "in_cidr4 net v \<longleftrightarrow>
     nat_of_v4 v div 2 ^ (32 - snd net) = nat_of_v4 (fst net) div 2 ^ (32 - snd net)"

definition in_cidr6 :: "ipv6 \<times> nat \<Rightarrow> ipv6 \<Rightarrow> bool" where
  "in_cidr6 net v \<longleftrightarrow>
     nat_of_v6 v div 2 ^ (128 - snd net) = nat_of_v6 (fst net) div 2 ^ (128 - snd net)"

lemma unat8 [simp]: "unat (a :: 8 word) < 256"
  by (rule order_less_le_trans, rule unsigned_less) simp

lemma unat16 [simp]: "unat (a :: 16 word) < 65536"
  by (rule order_less_le_trans, rule unsigned_less) simp

text \<open>The leading octet, two octets and three octets of an address; the first segment.\<close>

lemma nat_of_v4_div:
  "nat_of_v4 (IPv4 a b c d) div 2 ^ 24 = unat a"
  "nat_of_v4 (IPv4 a b c d) div 2 ^ 16 = unat a * 256 + unat b"
  "nat_of_v4 (IPv4 a b c d) div 2 ^ 8 = (unat a * 256 + unat b) * 256 + unat c"
proof -
  have div: "(m * 256 + unat x) div 256 = m" for m and x :: "8 word"
    by (simp add: unat8)
  have e: "(2::nat) ^ 8 = 256" "(2::nat) ^ 16 = 256 * 256" "(2::nat) ^ 24 = 256 * (256 * 256)"
    by simp_all
  show "nat_of_v4 (IPv4 a b c d) div 2 ^ 24 = unat a"
    "nat_of_v4 (IPv4 a b c d) div 2 ^ 16 = unat a * 256 + unat b"
    "nat_of_v4 (IPv4 a b c d) div 2 ^ 8 = (unat a * 256 + unat b) * 256 + unat c"
    by (simp_all only: nat_of_v4.simps e div_mult2_eq div)
qed

text \<open>A number read as a leading digit and a remainder below the base.\<close>

lemma lead_div: "r < b \<Longrightarrow> (a * b + r) div b = (a :: nat)"
  by (metis add.right_neutral div_less div_mult_self3 less_nat_zero_code)

lemma lead_eq:
  fixes a a' r r' b :: nat
  assumes "a * b + r = a' * b + r'" "r < b" "r' < b"
  shows "a = a' \<and> r = r'"
proof -
  have "a = a'" using lead_div [OF assms(2)] lead_div [OF assms(3)] assms(1) by metis
  with assms(1) show ?thesis by simp
qed

lemma lead_less: "x < 65536 \<Longrightarrow> r < 2 ^ k \<Longrightarrow> x * 2 ^ k + r < (2::nat) ^ (k + 16)"
proof -
  assume "x < 65536" "r < 2 ^ k"
  then have "x * 2 ^ k + r < (x + 1) * 2 ^ k" by simp
  also have "\<dots> \<le> 65536 * 2 ^ k" using \<open>x < 65536\<close> by (intro mult_right_mono) auto
  also have "\<dots> = 2 ^ (k + 16)" by (simp add: power_add)
  finally show ?thesis .
qed

text \<open>The same number with its segments nested, from the last to the first.\<close>

fun segs_val :: "16 word list \<Rightarrow> nat" where
  "segs_val [] = 0"
| "segs_val (x # xs) = unat x * 2 ^ (16 * length xs) + segs_val xs"

lemma segs_val_less: "segs_val xs < 2 ^ (16 * length xs)"
proof (induction xs)
  case (Cons x xs)
  have "unat x * 2 ^ (16 * length xs) + segs_val xs < 2 ^ (16 * length xs + 16)"
    by (rule lead_less [OF unat16 Cons.IH])
  then show ?case by (simp add: add.commute)
qed simp

lemma segs_val_inj: "length xs = length ys \<Longrightarrow> segs_val xs = segs_val ys \<Longrightarrow> xs = ys"
proof (induction xs ys rule: list_induct2)
  case (Cons x xs y ys)
  have "unat x = unat y \<and> segs_val xs = segs_val ys"
    using Cons.prems Cons.hyps segs_val_less [of xs] segs_val_less [of ys]
    by (intro lead_eq [of _ "2 ^ (16 * length xs)"]) simp_all
  with Cons.IH show ?case by (simp add: word_unat_eq_iff)
qed simp

lemma nat_of_v6_segs: "nat_of_v6 (IPv6 a b c d e f g h) = segs_val [a, b, c, d, e, f, g, h]"
  by simp

lemma nat_of_v6_div:
  assumes "n \<le> 16"
  shows "nat_of_v6 (IPv6 a b c d e f g h) div 2 ^ (128 - n) = unat a div 2 ^ (16 - n)"
proof -
  have "segs_val [b, c, d, e, f, g, h] < 2 ^ 112"
    using segs_val_less [of "[b, c, d, e, f, g, h]"] by simp
  then have "(unat a * 2 ^ 112 + segs_val [b, c, d, e, f, g, h]) div 2 ^ 112 = unat a"
    by (rule lead_div)
  then have d: "nat_of_v6 (IPv6 a b c d e f g h) div 2 ^ 112 = unat a"
    unfolding nat_of_v6_segs by simp
  have "(2::nat) ^ (128 - n) = 2 ^ 112 * 2 ^ (16 - n)"
    unfolding power_add [symmetric] using assms by simp
  then show ?thesis by (simp only: div_mult2_eq d)
qed

lemma nat_of_v6_eq_iff: "nat_of_v6 v = nat_of_v6 w \<longleftrightarrow> v = w"
proof (cases v; cases w)
  fix a b c d e f g h a' b' c' d' e' f' g' h'
  assume v: "v = IPv6 a b c d e f g h" and w: "w = IPv6 a' b' c' d' e' f' g' h'"
  show ?thesis
    unfolding v w nat_of_v6_segs
    using segs_val_inj [of "[a, b, c, d, e, f, g, h]" "[a', b', c', d', e', f', g', h']"]
    by auto
qed

text \<open>Masking the high bits of a segment is dividing it.\<close>

lemma seg_mask_div:
  "(a :: 16 word) AND 0xff00 = 0xff00 \<longleftrightarrow> unat a div 2 ^ 8 = 255"
  "a AND 0xfe00 = 0xfc00 \<longleftrightarrow> unat a div 2 ^ 9 = 126"
  "a AND 0xffc0 = 0xfe80 \<longleftrightarrow> unat a div 2 ^ 6 = 1018"
proof -
  have key: "a AND NOT (mask n) = push_bit n k \<longleftrightarrow> unat a div 2 ^ n = unat k"
    if "k = drop_bit n (push_bit n k)" for n and k :: "16 word"
  proof -
    have "a AND NOT (mask n) = push_bit n (drop_bit n a)"
      by (rule bit_word_eqI) (auto simp: bit_simps)
    moreover have "push_bit n (drop_bit n a) = push_bit n k \<longleftrightarrow> drop_bit n a = k"
    proof
      assume "push_bit n (drop_bit n a) = push_bit n k"
      then have "drop_bit n (push_bit n (drop_bit n a)) = k" using that by simp
      moreover have "drop_bit n (push_bit n (drop_bit n a)) = drop_bit n a"
        by (rule bit_word_eqI) (auto simp: bit_simps dest: bit_imp_le_length)
      ultimately show "drop_bit n a = k" by simp
    qed simp
    moreover have "drop_bit n a = k \<longleftrightarrow> unat a div 2 ^ n = unat k"
      by (simp only: word_unat_eq_iff unat_drop_bit_eq) (simp add: drop_bit_eq_div)
    ultimately show ?thesis by simp
  qed
  have m: "NOT (mask 8) = (0xff00 :: 16 word)" "NOT (mask 9) = (0xfe00 :: 16 word)"
    "NOT (mask 6) = (0xffc0 :: 16 word)"
    by (simp_all add: mask_eq_exp_minus_1 word_eq_iff_unsigned)
  show "a AND 0xff00 = 0xff00 \<longleftrightarrow> unat a div 2 ^ 8 = 255"
    using key [of 255 8] by (simp add: m)
  show "a AND 0xfe00 = 0xfc00 \<longleftrightarrow> unat a div 2 ^ 9 = 126"
    using key [of 126 9] by (simp add: m)
  show "a AND 0xffc0 = 0xfe80 \<longleftrightarrow> unat a div 2 ^ 6 = 1018"
    using key [of 1018 6] by (simp add: m)
qed

end
