(* ===== verification/Ip_Text.thy ===== *)
theory Ip_Text
  imports Ip_Addr
begin

text \<open>
  The textual form of addresses, as \<open>std::net\<close> prints and parses them, and the parsed URL the
  outbound code looks at. The parser reads like the library's: each reader returns what it read
  and the rest of the input, and an address is accepted when nothing is left.
\<close>

section \<open>Printing\<close>

fun show_ipv4 :: "ipv4 \<Rightarrow> bytes" where
  "show_ipv4 (IPv4 a b c d) =
     show_nat (unat a) @ ''.'' @ show_nat (unat b) @ ''.'' @ show_nat (unat c) @ ''.''
     @ show_nat (unat d)"

definition hex_char :: "nat \<Rightarrow> char" where
  "hex_char n = (''0123456789abcdef'' ! n)"

fun show_hex :: "nat \<Rightarrow> bytes" where
  "show_hex n = (if n < 16 then [hex_char n] else show_hex (n div 16) @ [hex_char (n mod 16)])"

declare show_hex.simps [simp del]

text \<open>The segments joined by colons, and the longest run of zero segments.\<close>

fun show_segs :: "16 word list \<Rightarrow> bytes" where
  "show_segs [] = []"
| "show_segs [s] = show_hex (unat s)"
| "show_segs (s # t) = show_hex (unat s) @ '':'' @ show_segs t"

fun longest_zero :: "nat \<Rightarrow> 16 word list \<Rightarrow> nat \<times> nat \<Rightarrow> nat \<times> nat \<Rightarrow> nat \<times> nat" where
  "longest_zero i [] longest current = longest"
| "longest_zero i (s # t) longest current =
     (if s = 0
      then let cur = (if snd current = 0 then i else fst current, snd current + 1);
               best = (if snd cur > snd longest then cur else longest)
           in longest_zero (i + 1) t best cur
      else longest_zero (i + 1) t longest (0, 0))"

fun segments :: "ipv6 \<Rightarrow> 16 word list" where
  "segments (IPv6 a b c d e f g h) = [a, b, c, d, e, f, g, h]"

definition show_ipv6 :: "ipv6 \<Rightarrow> bytes" where
  "show_ipv6 v =
     (case to_ipv4_mapped v of
        Some v4 \<Rightarrow> ''::ffff:'' @ show_ipv4 v4
      | None \<Rightarrow>
          (let (start, len) = longest_zero 0 (segments v) (0, 0) (0, 0)
           in if len > 1
              then show_segs (take start (segments v)) @ ''::''
                   @ show_segs (drop (start + len) (segments v))
              else show_segs (segments v)))"

section \<open>Parsing\<close>

definition digit_val :: "nat \<Rightarrow> char \<Rightarrow> nat option" where
  "digit_val radix c =
     (let v = (if is_digit c then Some (of_char c - 48)
               else if 97 \<le> (of_char c :: nat) \<and> (of_char c :: nat) \<le> 102 then Some (of_char c - 87)
               else if 65 \<le> (of_char c :: nat) \<and> (of_char c :: nat) \<le> 70 then Some (of_char c - 55)
               else None)
      in case v of Some d \<Rightarrow> if d < radix then Some d else None | None \<Rightarrow> None)"

text \<open>Up to \<open>max_digits\<close> digits, the value bounded, a leading zero refused where asked.\<close>

fun read_digits :: "nat \<Rightarrow> nat \<Rightarrow> nat \<Rightarrow> nat \<Rightarrow> nat \<Rightarrow> bytes \<Rightarrow> (nat \<times> nat \<times> bytes) option" where
  "read_digits radix max_digits bound cnt acc [] = Some (cnt, acc, [])"
| "read_digits radix max_digits bound cnt acc (c # s) =
     (case digit_val radix c of
        None \<Rightarrow> Some (cnt, acc, c # s)
      | Some d \<Rightarrow>
          if acc * radix + d > bound then None
          else if cnt + 1 > max_digits then None
          else read_digits radix max_digits bound (cnt + 1) (acc * radix + d) s)"

definition read_number :: "nat \<Rightarrow> nat \<Rightarrow> nat \<Rightarrow> bool \<Rightarrow> bytes \<Rightarrow> (nat \<times> bytes) option" where
  "read_number radix max_digits bound allow_zero_prefix s =
     (case read_digits radix max_digits bound 0 0 s of
        None \<Rightarrow> None
      | Some (cnt, v, rest) \<Rightarrow>
          if cnt = 0 then None
          else if \<not> allow_zero_prefix \<and> starts_with s ''0'' \<and> cnt > 1 then None
          else Some (v, rest))"

definition read_octet :: "bytes \<Rightarrow> (8 word \<times> bytes) option" where
  "read_octet s = map_option (\<lambda>(v, r). (word_of_nat v, r)) (read_number 10 3 255 False s)"

definition read_char :: "char \<Rightarrow> bytes \<Rightarrow> bytes option" where
  "read_char c s = (case s of [] \<Rightarrow> None | x # r \<Rightarrow> if x = c then Some r else None)"

definition read_ipv4 :: "bytes \<Rightarrow> (ipv4 \<times> bytes) option" where
  "read_ipv4 s =
     Option.bind (read_octet s) (\<lambda>(a, s).
     Option.bind (read_char CHR ''.'' s) (\<lambda>s.
     Option.bind (read_octet s) (\<lambda>(b, s).
     Option.bind (read_char CHR ''.'' s) (\<lambda>s.
     Option.bind (read_octet s) (\<lambda>(c, s).
     Option.bind (read_char CHR ''.'' s) (\<lambda>s.
     Option.bind (read_octet s) (\<lambda>(d, s). Some (IPv4 a b c d, s))))))))"

text \<open>
  The groups of an IPv6 address: at each position an IPv4 tail (two groups) or a hexadecimal
  group, each after the first behind a colon; the result is the groups read, whether the last
  two came from an IPv4 tail, and the rest.
\<close>

definition after_sep :: "nat \<Rightarrow> bytes \<Rightarrow> bytes option" where
  "after_sep i s = (if i = 0 then Some s else read_char CHR '':'' s)"

fun read_groups :: "nat \<Rightarrow> nat \<Rightarrow> bytes \<Rightarrow> 16 word list \<times> bool \<times> bytes" where
  "read_groups 0 i s = ([], False, s)"
| "read_groups (Suc left) i s =
     (case (if left > 0 then Option.bind (after_sep i s) read_ipv4 else None) of
        Some (IPv4 a b c d, rest) \<Rightarrow> ([seg a b, seg c d], True, rest)
      | None \<Rightarrow>
          (case Option.bind (after_sep i s) (read_number 16 4 65535 True) of
             Some (g, rest) \<Rightarrow>
               (let (gs, v4, rest') = read_groups left (i + 1) rest
                in (word_of_nat g # gs, v4, rest'))
           | None \<Rightarrow> ([], False, s)))"

definition ipv6_of :: "16 word list \<Rightarrow> ipv6" where
  "ipv6_of gs = IPv6 (gs ! 0) (gs ! 1) (gs ! 2) (gs ! 3) (gs ! 4) (gs ! 5) (gs ! 6) (gs ! 7)"

definition parse_ipv6 :: "bytes \<Rightarrow> ipv6 option" where
  "parse_ipv6 s =
     (let (head, head_v4, rest) = read_groups 8 0 s in
      if length head = 8 then (if rest = [] then Some (ipv6_of head) else None)
      else if head_v4 then None
      else case Option.bind (read_char CHR '':'' rest) (read_char CHR '':'') of
        None \<Rightarrow> None
      | Some rest \<Rightarrow>
          (let (tail, _, rest) = read_groups (8 - (length head + 1)) 0 rest in
           if rest \<noteq> [] then None
           else Some (ipv6_of (head @ replicate (8 - length head - length tail) 0 @ tail))))"

text \<open>\<open>str::parse::<IpAddr>\<close>: an IPv4 reading commits, otherwise IPv6.\<close>

definition parse_ip :: "bytes \<Rightarrow> ip option" where
  "parse_ip s =
     (case read_ipv4 s of
        Some (v, rest) \<Rightarrow> if rest = [] then Some (V4 v) else None
      | None \<Rightarrow> map_option V6 (parse_ipv6 s))"

fun show_ip :: "ip \<Rightarrow> bytes" where
  "show_ip (V4 v) = show_ipv4 v"
| "show_ip (V6 v) = show_ipv6 v"

section \<open>Printed IPv4 addresses are read back\<close>

lemma digit_val_decimal: "is_digit c \<Longrightarrow> digit_val 10 c = Some (of_char c - 48)"
  by (auto simp: digit_val_def is_digit_def)

lemma digit_val_other: "\<not> is_digit c \<Longrightarrow> digit_val 10 c = None"
  by (auto simp: digit_val_def)

definition ends_digits :: "bytes \<Rightarrow> bool" where
  "ends_digits r \<longleftrightarrow> (case r of [] \<Rightarrow> True | c # _ \<Rightarrow> \<not> is_digit c)"

lemma ends_digits_simps [simp]: "ends_digits []" "ends_digits (c # r) \<longleftrightarrow> \<not> is_digit c"
  by (simp_all add: ends_digits_def)

lemma read_nat_mono: "acc \<le> read_nat acc ds"
proof (induction ds arbitrary: acc)
  case (Cons c ds)
  have "acc \<le> 10 * acc + (of_char c - 48)" by simp
  also have "\<dots> \<le> read_nat (10 * acc + (of_char c - 48)) ds" by (rule Cons.IH)
  finally show ?case by simp
qed simp

lemma read_digits_run:
  "\<lbrakk>\<forall>c \<in> set ds. is_digit c; ends_digits r; read_nat acc ds \<le> bound; cnt + length ds \<le> m\<rbrakk>
   \<Longrightarrow> read_digits 10 m bound cnt acc (ds @ r) = Some (cnt + length ds, read_nat acc ds, r)"
proof (induction ds arbitrary: cnt acc)
  case Nil
  then show ?case by (cases r) (auto simp: digit_val_other)
next
  case (Cons c ds)
  have "acc * 10 + (of_char c - 48) \<le> bound"
    using Cons.prems(3) read_nat_mono [of "10 * acc + (of_char c - 48)" ds]
    by (simp add: mult.commute)
  with Cons show ?case by (simp add: digit_val_decimal mult.commute)
qed

lemma show_nat_short: "n < 1000 \<Longrightarrow> length (show_nat n) \<le> 3"
  by (auto simp: show_nat.simps [of n] show_nat.simps [of "n div 10"]
      show_nat.simps [of "n div 10 div 10"])

lemma show_nat_lead: "starts_with (show_nat n) ''0'' \<Longrightarrow> n = 0"
proof (induction n rule: show_nat.induct)
  case (1 n)
  have z: "digit_char d = CHR ''0'' \<Longrightarrow> d < 10 \<Longrightarrow> d = 0" for d
    by (drule arg_cong [of _ _ "of_char :: char \<Rightarrow> nat"]) (simp add: of_char_digit_char)
  show ?case
  proof (cases "n < 10")
    case True
    with 1(2) z show ?thesis by (simp add: show_nat.simps [of n])
  next
    case False
    then have "starts_with (show_nat (n div 10)) ''0''"
      using 1(2) by (cases "show_nat (n div 10)") (simp_all add: show_nat.simps [of n])
    with 1(1) False show ?thesis by simp
  qed
qed

lemma read_octet_show:
  "ends_digits r \<Longrightarrow> read_octet (show_nat (unat a) @ r) = Some (a, r)" for a :: "8 word"
proof -
  assume r: "ends_digits r"
  have lt: "unat a < 256" by (rule unat8)
  then have u: "unat a \<le> 255" by linarith
  from lt have "length (show_nat (unat a)) \<le> 3" by (intro show_nat_short) linarith
  note u = u this
  have d: "read_digits 10 3 255 0 0 (show_nat (unat a) @ r)
      = Some (0 + length (show_nat (unat a)), read_nat 0 (show_nat (unat a)), r)"
    using u by (intro read_digits_run [OF _ r])
      (auto intro: show_nat_digits simp: read_show_nat)
  have "starts_with (show_nat (unat a) @ r) ''0'' \<Longrightarrow> length (show_nat (unat a)) = 1"
  proof -
    assume "starts_with (show_nat (unat a) @ r) ''0''"
    then have "starts_with (show_nat (unat a)) ''0''"
      by (cases "show_nat (unat a)") simp_all
    then have "unat a = 0" by (rule show_nat_lead)
    then show ?thesis by (simp add: show_nat.simps)
  qed
  with d show ?thesis
    by (auto simp: read_octet_def read_number_def read_show_nat)
qed

lemma not_digit_dot [simp]: "\<not> is_digit CHR ''.''"
  by (simp add: is_digit_def)

lemma read_ipv4_show_rest: "ends_digits r \<Longrightarrow> read_ipv4 (show_ipv4 v @ r) = Some (v, r)"
  by (cases v) (simp add: read_ipv4_def read_octet_show read_char_def)

lemma read_ipv4_show: "read_ipv4 (show_ipv4 v) = Some (v, [])"
  using read_ipv4_show_rest [of "[]" v] by simp

lemma parse_ip_show_ipv4 [simp]: "parse_ip (show_ipv4 v) = Some (V4 v)"
  by (simp add: parse_ip_def read_ipv4_show)

text \<open>A name whose first character is neither a hexadecimal digit nor a colon is no literal.\<close>

lemma digit_val_mono: "digit_val 16 c = None \<Longrightarrow> digit_val 10 c = None"
  by (auto simp: digit_val_def Let_def is_digit_def split: option.splits if_splits)

lemma read_number_none: "digit_val r c = None \<Longrightarrow> read_number r m b z (c # s) = None"
  by (simp add: read_number_def)

lemma parse_ip_name:
  assumes "digit_val 16 c = None" "c \<noteq> CHR '':''"
  shows "parse_ip (c # s) = None"
proof -
  have r4: "read_ipv4 (c # s) = None"
    by (simp add: read_ipv4_def read_octet_def read_number_none [OF digit_val_mono [OF assms(1)]])
  have eight: "(8 :: nat) = Suc 7" by simp
  have "read_groups 8 0 (c # s) = ([], False, c # s)"
    unfolding eight read_groups.simps by (simp add: after_sep_def r4 read_number_none [OF assms(1)])
  then show ?thesis
    using assms(2) by (simp add: parse_ip_def r4 parse_ipv6_def read_char_def)
qed

section \<open>The parsed URL\<close>

text \<open>
  The parts of a \<open>url::Url\<close> the code reads; \<open>url_port\<close> is \<open>Url::port()\<close>, absent when it is the
  scheme's default. Parsing and joining are the crate's and stay parameters.
\<close>

datatype host = Domain bytes | Host_V4 ipv4 | Host_V6 ipv6

record url =
  url_scheme :: bytes
  url_username :: bytes
  url_password :: "bytes option"
  url_host :: "host option"
  url_port :: "16 word option"
  url_path :: bytes
  url_query :: "bytes option"
  url_fragment :: "bytes option"

fun show_host :: "host \<Rightarrow> bytes" where
  "show_host (Domain d) = d"
| "show_host (Host_V4 v) = show_ipv4 v"
| "show_host (Host_V6 v) = ''['' @ show_ipv6 v @ '']''"

text \<open>\<open>Url::host_str()\<close>, and \<open>Url::port_or_known_default()\<close>.\<close>

definition host_str :: "url \<Rightarrow> bytes option" where
  "host_str u = map_option show_host (url_host u)"

definition known_default :: "bytes \<Rightarrow> 16 word option" where
  "known_default s =
     (if s = ''http'' \<or> s = ''ws'' then Some 80
      else if s = ''https'' \<or> s = ''wss'' then Some 443
      else if s = ''ftp'' then Some 21 else None)"

definition port_or_default :: "url \<Rightarrow> 16 word option" where
  "port_or_default u =
     (case url_port u of Some p \<Rightarrow> Some p | None \<Rightarrow> known_default (url_scheme u))"

section \<open>Checking a DNS answer\<close>

text \<open>
  What every check of a list of answers promises: an answer is accepted when none of its
  addresses is blocked, decided one address at a time.
\<close>

locale answer_gate =
  fixes blocked :: "ip \<Rightarrow> bool"
    and accepts :: "ip list \<Rightarrow> bool"
  assumes accepts_Nil: "accepts []"
    and accepts_Cons: "accepts (a # addrs) \<longleftrightarrow> \<not> blocked a \<and> accepts addrs"
begin

lemma accepts_iff: "accepts addrs \<longleftrightarrow> (\<forall>a \<in> set addrs. \<not> blocked a)"
  by (induction addrs) (simp_all add: accepts_Nil accepts_Cons)

lemma accepts_cong: "set addrs = set addrs' \<Longrightarrow> accepts addrs = accepts addrs'"
  by (simp add: accepts_iff)

lemma one_blocked_refuses: "blocked a \<Longrightarrow> a \<in> set addrs \<Longrightarrow> \<not> accepts addrs"
  by (auto simp: accepts_iff)

lemma accepts_append: "accepts (addrs @ addrs') \<longleftrightarrow> accepts addrs \<and> accepts addrs'"
  by (auto simp: accepts_iff)

end

end
