(* ===== verification/Ssrf.thy ===== *)
theory Ssrf
  imports Ip_Text
begin

text \<open>
  The execute path's address policy (\<open>mcp-gateway-proxy/src/ssrf\<close>): the deny tables, the
  policy flags, the unwrapping of IPv4 embeddings, the hostname rules and \<open>pin_url\<close>, which
  turns a URL into the one socket address the dialer may use. The \<open>self-host\<close> Cargo feature is
  the argument \<open>sh\<close>; the resolver and the IDNA functions are arguments.
\<close>

section \<open>Deny tables (cidrs.rs)\<close>

definition IPV4_DENY_ROWS :: "(ipv4 \<times> nat) list" where
  [enum_defs]: "IPV4_DENY_ROWS =
    [(IPv4 0 0 0 0, 8), (IPv4 0 0 0 0, 32), (IPv4 10 0 0 0, 8), (IPv4 100 64 0 0, 10),
     (IPv4 127 0 0 0, 8), (IPv4 169 254 0 0, 16), (IPv4 172 16 0 0, 12), (IPv4 192 0 0 0, 24),
     (IPv4 192 0 2 0, 24), (IPv4 192 88 99 0, 24), (IPv4 192 168 0 0, 16), (IPv4 198 18 0 0, 15),
     (IPv4 198 51 100 0, 24), (IPv4 203 0 113 0, 24), (IPv4 224 0 0 0, 4), (IPv4 240 0 0 0, 4),
     (IPv4 255 255 255 255, 32), (IPv4 168 63 129 16, 32), (IPv4 100 100 100 200, 32)]"

definition IPV6_DENY_ROWS :: "(ipv6 \<times> nat) list" where
  [enum_defs]: "IPV6_DENY_ROWS =
    [(IPv6 0 0 0 0 0 0 0 1, 128), (IPv6 0 0 0 0 0 0 0 0, 128), (IPv6 0 0 0 0 0 0xffff 0 0, 96),
     (IPv6 0x64 0xff9b 0 0 0 0 0 0, 96), (IPv6 0x64 0xff9b 1 0 0 0 0 0, 48),
     (IPv6 0x100 0 0 0 0 0 0 0, 64), (IPv6 0x100 0 0 1 0 0 0 0, 64),
     (IPv6 0x2001 0 0 0 0 0 0 0, 23), (IPv6 0x2001 0 0 0 0 0 0 0, 32),
     (IPv6 0x2001 2 0 0 0 0 0 0, 48), (IPv6 0x2001 0xdb8 0 0 0 0 0 0, 32),
     (IPv6 0x2002 0 0 0 0 0 0 0, 16), (IPv6 0x3fff 0 0 0 0 0 0 0, 20),
     (IPv6 0x5f00 0 0 0 0 0 0 0, 16), (IPv6 0xfc00 0 0 0 0 0 0 0, 7),
     (IPv6 0xfe80 0 0 0 0 0 0 0, 10), (IPv6 0xff00 0 0 0 0 0 0 0, 8),
     (IPv6 0xfec0 0 0 0 0 0 0 0, 10), (IPv6 0xfd00 0xec2 0 0 0 0 0 0x254, 128)]"

definition ipv4_denied :: "ipv4 \<Rightarrow> bool" where
  "ipv4_denied v \<longleftrightarrow> list_ex (\<lambda>net. in_cidr4 net v) IPV4_DENY_ROWS"

definition ipv6_denied :: "ipv6 \<Rightarrow> bool" where
  "ipv6_denied v \<longleftrightarrow> list_ex (\<lambda>net. in_cidr6 net v) IPV6_DENY_ROWS"

fun is_metadata_v4 :: "ipv4 \<Rightarrow> bool" where
  "is_metadata_v4 (IPv4 a b c d) \<longleftrightarrow>
     a = 169 \<and> b = 254 \<and> c = 169 \<and> d = 254
     \<or> IPv4 a b c d = IPv4 168 63 129 16 \<or> IPv4 a b c d = IPv4 100 100 100 200"

definition is_metadata_v6 :: "ipv6 \<Rightarrow> bool" where
  "is_metadata_v6 v \<longleftrightarrow> v = IPv6 0xfd00 0xec2 0 0 0 0 0 0x254"

fun is_self_host_private_v4 :: "ipv4 \<Rightarrow> bool" where
  "is_self_host_private_v4 (IPv4 a b c d) \<longleftrightarrow>
     v4_private (IPv4 a b c d) \<or> a = 100 \<and> 64 \<le> b \<and> b \<le> 127"

fun is_self_host_private_v6 :: "ipv6 \<Rightarrow> bool" where
  "is_self_host_private_v6 (IPv6 a b c d e f g h) \<longleftrightarrow> a AND 0xfe00 = 0xfc00"

section \<open>Policy and errors (classify.rs)\<close>

definition ALLOWED_PORTS :: "16 word list" where
  [enum_defs]: "ALLOWED_PORTS = [80, 443, 8443]"

definition MAX_HOST_LEN :: nat where
  "MAX_HOST_LEN = 253"

definition HOST_EXACT_DENY :: "bytes list" where
  [enum_defs]: "HOST_EXACT_DENY =
    [''localhost'', ''localhost.localdomain'', ''ip6-localhost'', ''ip6-loopback'',
     ''metadata.google.internal'', ''metadata.goog'', ''instance-data'',
     ''instance-data.ec2.internal'', ''kubernetes'', ''kubernetes.default'',
     ''kubernetes.default.svc'', ''kubernetes.default.svc.cluster.local'', ''internal'',
     ''intranet'', ''corp'', ''private'']"

definition HOST_SUFFIX_DENY :: "bytes list" where
  [enum_defs]: "HOST_SUFFIX_DENY =
    [''.localhost'', ''.local'', ''.internal'', ''.corp'', ''.home'', ''.lan'', ''.invalid'']"

definition METADATA_HOSTS :: "bytes list" where
  [enum_defs]: "METADATA_HOSTS =
    [''metadata.google.internal'', ''metadata.goog'', ''instance-data'',
     ''instance-data.ec2.internal'']"

record pinned =
  pin_hostname :: bytes
  pin_scheme :: bytes
  pin_port :: "16 word"
  pin_ip :: ip

record policy =
  p_allow_insecure_http :: bool
  p_max_hops :: "8 word"
  p_allow_loopback :: bool
  p_allow_private_networks :: bool
  p_allow_metadata :: bool

definition policy_default :: policy where
  "policy_default =
     \<lparr> p_allow_insecure_http = False, p_max_hops = 3, p_allow_loopback = False,
       p_allow_private_networks = False, p_allow_metadata = False \<rparr>"

definition allow_private_networks :: "bool \<Rightarrow> policy \<Rightarrow> bool" where
  "allow_private_networks sh p \<longleftrightarrow> (if sh then p_allow_private_networks p else False)"

definition allow_metadata :: "bool \<Rightarrow> policy \<Rightarrow> bool" where
  "allow_metadata sh p \<longleftrightarrow> (if sh then p_allow_metadata p else False)"

definition with_allow_insecure_http :: "policy \<Rightarrow> bool \<Rightarrow> policy" where
  "with_allow_insecure_http p enabled = p\<lparr>p_allow_insecure_http := enabled\<rparr>"

definition with_max_hops :: "policy \<Rightarrow> 8 word \<Rightarrow> policy" where
  "with_max_hops p hops = p\<lparr>p_max_hops := hops\<rparr>"

definition with_allow_loopback :: "policy \<Rightarrow> bool \<Rightarrow> policy" where
  "with_allow_loopback p enabled = p\<lparr>p_allow_loopback := enabled\<rparr>"

definition with_private_networks :: "bool \<Rightarrow> policy \<Rightarrow> bool \<Rightarrow> policy" where
  "with_private_networks sh p enabled =
     p\<lparr>p_allow_private_networks := (if sh then enabled else False)\<rparr>"

definition with_metadata :: "bool \<Rightarrow> policy \<Rightarrow> bool \<Rightarrow> policy" where
  "with_metadata sh p enabled = p\<lparr>p_allow_metadata := (if sh then enabled else False)\<rparr>"

datatype ssrf_error =
    TooManyRedirects
  | InvalidUrl bytes
  | SchemeForbidden bytes
  | UserinfoForbidden
  | PortForbidden "16 word"
  | HostnameDenied bytes
  | DnsFailed bytes
  | ResolvedBlocked
  | AddressBlocked

fun error_code :: "ssrf_error \<Rightarrow> bytes" where
  "error_code TooManyRedirects = ''too_many_redirects''"
| "error_code (InvalidUrl _) = ''invalid_url''"
| "error_code (SchemeForbidden _) = ''scheme_forbidden''"
| "error_code UserinfoForbidden = ''userinfo_forbidden''"
| "error_code (PortForbidden _) = ''port_forbidden''"
| "error_code (HostnameDenied _) = ''hostname_denied''"
| "error_code (DnsFailed _) = ''dns_failed''"
| "error_code ResolvedBlocked = ''resolved_blocked''"
| "error_code AddressBlocked = ''address_blocked''"

section \<open>Addresses\<close>

fun unwrap_v6 :: "ipv6 \<Rightarrow> ip" where
  "unwrap_v6 (IPv6 a b c d e f g h) =
     (case to_ipv4_mapped (IPv6 a b c d e f g h) of
        Some v4 \<Rightarrow> V4 v4
      | None \<Rightarrow>
          if a = 0 \<and> b = 0 \<and> c = 0 \<and> d = 0 \<and> e = 0 \<and> f = 0
             \<and> \<not> v6_unspecified (IPv6 a b c d e f g h) \<and> \<not> v6_loopback (IPv6 a b c d e f g h)
          then V4 (v4_of_segs g h)
          else if a = 0x64 \<and> b = 0xff9b \<and> c = 0 \<and> d = 0 \<and> e = 0 \<and> f = 0
          then V4 (v4_of_segs g h)
          else if a = 0x2002 then V4 (v4_of_segs b c)
          else V6 (IPv6 a b c d e f g h))"

fun unwrap_ip :: "ip \<Rightarrow> ip" where
  "unwrap_ip (V4 v) = V4 v"
| "unwrap_ip (V6 v) = unwrap_v6 v"

definition is_blocked_ip_with_policy :: "bool \<Rightarrow> policy \<Rightarrow> ip \<Rightarrow> bool" where
  "is_blocked_ip_with_policy sh p i =
     (case unwrap_ip i of
        V4 v \<Rightarrow>
          if p_allow_loopback p \<and> v4_loopback v then False
          else if is_metadata_v4 v \<and> \<not> allow_metadata sh p then True
          else if allow_private_networks sh p \<and> is_self_host_private_v4 v then False
          else ipv4_denied v
      | V6 v \<Rightarrow>
          if p_allow_loopback p \<and> v6_loopback v then False
          else if is_metadata_v6 v \<and> \<not> allow_metadata sh p then True
          else if allow_private_networks sh p \<and> is_self_host_private_v6 v then False
          else ipv6_denied v)"

definition is_blocked_ip :: "bool \<Rightarrow> ip \<Rightarrow> bool" where
  "is_blocked_ip sh i = is_blocked_ip_with_policy sh policy_default i"

text \<open>The first IPv6 address, else the first; the list is not empty where it is called.\<close>

definition pick_addr :: "ip list \<Rightarrow> ip" where
  "pick_addr addrs =
     (case find (\<lambda>i. case i of V6 _ \<Rightarrow> True | V4 _ \<Rightarrow> False) addrs of
        Some i \<Rightarrow> i | None \<Rightarrow> addrs ! 0)"

section \<open>Host names\<close>

definition hostname_denied :: "bool \<Rightarrow> policy \<Rightarrow> bytes \<Rightarrow> bool" where
  "hostname_denied sh p h =
     (if h \<in> set METADATA_HOSTS \<and> \<not> allow_metadata sh p then True
      else if allow_private_networks sh p
      then (if h = ''localhost'' \<or> h = ''localhost.localdomain'' \<or> h = ''ip6-localhost''
               \<or> h = ''ip6-loopback''
            then \<not> p_allow_loopback p else False)
      else if h \<in> set HOST_EXACT_DENY then True
      else list_ex (\<lambda>sfx. ends_with h sfx) HOST_SUFFIX_DENY)"

record idna =
  to_ascii :: "bytes \<Rightarrow> bytes + bytes"
  to_unicode :: "bytes \<Rightarrow> bytes"

definition normalize_domain :: "idna \<Rightarrow> bytes \<Rightarrow> ssrf_error + bytes" where
  "normalize_domain idn domain =
     (case to_ascii idn domain of
        Inl e \<Rightarrow> Inl (InvalidUrl (''idna: '' @ e))
      | Inr ascii \<Rightarrow>
          (case to_ascii idn (to_unicode idn ascii) of
             Inl e \<Rightarrow> Inl (InvalidUrl (''idna round-trip: '' @ e))
           | Inr round_ascii \<Rightarrow>
               if round_ascii \<noteq> ascii \<and> to_lower domain \<noteq> ascii
               then Inl (InvalidUrl ''idna round-trip mismatch'')
               else
                 (let host = to_lower ascii;
                      dot = ends_with host ''.'';
                      stripped = (if dot then butlast host else host)
                  in if dot \<and> ends_with stripped ''.''
                     then Inl (InvalidUrl ''double trailing dot'')
                     else if stripped = [] then Inl (InvalidUrl ''empty host'')
                     else if length stripped > MAX_HOST_LEN then Inl (InvalidUrl ''host too long'')
                     else Inr stripped)))"

definition normalize_hostname :: "idna \<Rightarrow> url \<Rightarrow> ssrf_error + bytes" where
  "normalize_hostname idn u =
     (case url_host u of
        None \<Rightarrow> Inl (InvalidUrl ''missing host'')
      | Some (Host_V4 v) \<Rightarrow> Inr (show_ipv4 v)
      | Some (Host_V6 v) \<Rightarrow> Inr (show_ipv6 v)
      | Some (Domain d) \<Rightarrow> normalize_domain idn d)"

section \<open>Pinning\<close>

type_synonym resolver = "bytes \<Rightarrow> bytes + ip list"

definition check_scheme :: "policy \<Rightarrow> bytes \<Rightarrow> ssrf_error + unit" where
  "check_scheme p s =
     (if s = ''https'' then Inr ()
      else if s = ''http'' \<and> p_allow_insecure_http p then Inr ()
      else Inl (SchemeForbidden s))"

definition pin_port_of :: "url \<Rightarrow> 16 word" where
  "pin_port_of u =
     (case url_port u of Some q \<Rightarrow> q | None \<Rightarrow> if url_scheme u = ''https'' then 443 else 80)"

definition host_addrs :: "resolver \<Rightarrow> bytes \<Rightarrow> ssrf_error + ip list" where
  "host_addrs resolve h =
     (case parse_ip h of
        Some i \<Rightarrow> Inr [i]
      | None \<Rightarrow>
          (case resolve h of
             Inl e \<Rightarrow> Inl (DnsFailed (h @ '': '' @ e))
           | Inr addrs \<Rightarrow> if addrs = [] then Inl (DnsFailed h) else Inr addrs))"

fun check_addrs :: "bool \<Rightarrow> policy \<Rightarrow> ip list \<Rightarrow> ip list \<Rightarrow> ssrf_error + ip list" where
  "check_addrs sh p [] allowed = Inr allowed"
| "check_addrs sh p (a # addrs) allowed =
     (if is_blocked_ip_with_policy sh p a then Inl ResolvedBlocked
      else check_addrs sh p addrs (allowed @ [a]))"

definition pin_url :: "bool \<Rightarrow> idna \<Rightarrow> resolver \<Rightarrow> policy \<Rightarrow> 8 word \<Rightarrow> url \<Rightarrow> ssrf_error + pinned" where
  "pin_url sh idn resolve p hop u =
     (if hop > p_max_hops p then Inl TooManyRedirects
      else and_then (check_scheme p (url_scheme u)) (\<lambda>_.
        if url_username u \<noteq> [] \<or> url_password u \<noteq> None then Inl UserinfoForbidden
        else if pin_port_of u \<notin> set ALLOWED_PORTS \<and> \<not> p_allow_loopback p
        then Inl (PortForbidden (pin_port_of u))
        else and_then (normalize_hostname idn u) (\<lambda>hostname.
          if hostname_denied sh p hostname then Inl (HostnameDenied hostname)
          else and_then (host_addrs resolve hostname) (\<lambda>addrs.
            and_then (check_addrs sh p addrs []) (\<lambda>allowed.
              if allowed = [] then Inl ResolvedBlocked
              else Inr \<lparr> pin_hostname = hostname, pin_scheme = url_scheme u,
                         pin_port = pin_port_of u, pin_ip = pick_addr allowed \<rparr>)))))"

text \<open>The fixture resolver: the records, or an error.\<close>

definition map_resolver :: "(bytes \<times> ip list) list \<Rightarrow> resolver" where
  "map_resolver records h =
     (case map_of records h of
        Some ips \<Rightarrow> Inr ips
      | None \<Rightarrow> Inl (''no fixture records for '' @ h))"

section \<open>The tables, octet by octet\<close>

lemma v4_div:
  "nat_of_v4 (IPv4 a b c d) div 16777216 = unat a"
  "nat_of_v4 (IPv4 a b c d) div 65536 = unat a * 256 + unat b"
  "nat_of_v4 (IPv4 a b c d) div 256 = (unat a * 256 + unat b) * 256 + unat c"
  using nat_of_v4_div [of a b c d] by (simp_all del: nat_of_v4.simps)

lemma in_cidr4_8: "in_cidr4 (IPv4 a' b' c' d', 8) (IPv4 a b c d) \<longleftrightarrow> a = a'"
  by (simp add: in_cidr4_def v4_div word_unat_eq_iff del: nat_of_v4.simps)

lemma in_cidr4_16: "in_cidr4 (IPv4 a' b' c' d', 16) (IPv4 a b c d) \<longleftrightarrow> a = a' \<and> b = b'"
  using lead_eq [of "unat a" 256 "unat b" "unat a'" "unat b'"]
  by (auto simp: in_cidr4_def v4_div word_unat_eq_iff simp del: nat_of_v4.simps)

lemma in_cidr4_24:
  "in_cidr4 (IPv4 a' b' c' d', 24) (IPv4 a b c d) \<longleftrightarrow> a = a' \<and> b = b' \<and> c = c'"
  using lead_eq [of "unat a" 256 "unat b" "unat a'" "unat b'"]
    lead_eq [of "unat a * 256 + unat b" 256 "unat c" "unat a' * 256 + unat b'" "unat c'"]
  by (auto simp: in_cidr4_def v4_div word_unat_eq_iff simp del: nat_of_v4.simps)

lemma nat_of_v4_eq_iff: "nat_of_v4 v = nat_of_v4 w \<longleftrightarrow> v = w"
proof (cases v; cases w)
  fix a b c d a' b' c' d'
  assume vw: "v = IPv4 a b c d" "w = IPv4 a' b' c' d'"
  show ?thesis
    using lead_eq [of "unat a" 256 "unat b" "unat a'" "unat b'"]
      lead_eq [of "unat a * 256 + unat b" 256 "unat c" "unat a' * 256 + unat b'" "unat c'"]
      lead_eq [of "(unat a * 256 + unat b) * 256 + unat c" 256 "unat d"
        "(unat a' * 256 + unat b') * 256 + unat c'" "unat d'"]
    by (auto simp: vw word_unat_eq_iff)
qed

lemma in_cidr4_32: "in_cidr4 (w, 32) v \<longleftrightarrow> v = w"
  by (simp add: in_cidr4_def nat_of_v4_eq_iff)

lemma in_cidr4_upto_8:
  "n \<le> 8 \<Longrightarrow> in_cidr4 (IPv4 a' b' c' d', n) (IPv4 a b c d)
     \<longleftrightarrow> unat a div 2 ^ (8 - n) = unat a' div 2 ^ (8 - n)"
proof -
  assume "n \<le> 8"
  then have e: "(2::nat) ^ (32 - n) = 2 ^ 24 * 2 ^ (8 - n)"
    unfolding power_add [symmetric] by simp
  show ?thesis by (simp only: in_cidr4_def fst_conv snd_conv e div_mult2_eq nat_of_v4_div)
qed

lemma in_cidr4_9_to_16:
  assumes "8 \<le> n" "n \<le> 16"
  shows "in_cidr4 (IPv4 a' b' c' d', n) (IPv4 a b c d)
     \<longleftrightarrow> a = a' \<and> unat b div 2 ^ (16 - n) = unat b' div 2 ^ (16 - n)"
proof -
  have e: "(2::nat) ^ (32 - n) = 2 ^ 16 * 2 ^ (16 - n)"
    unfolding power_add [symmetric] using assms by simp
  let ?k = "(2::nat) ^ (16 - n)"
  have f: "256 = 2 ^ (n - 8) * ?k"
    unfolding power_add [symmetric] using assms by simp
  have q: "(x * 256 + unat y) div ?k = x * 2 ^ (n - 8) + unat y div ?k" for x and y :: "8 word"
    by (simp add: f mult.assoc [symmetric])
  have l: "unat y div ?k < 2 ^ (n - 8)" for y :: "8 word"
    using unat8 [of y] unfolding f by (simp only: less_mult_imp_div_less)
  show ?thesis
    using lead_eq [of "unat a" "2 ^ (n - 8)" "unat b div ?k" "unat a'" "unat b' div ?k", OF _ l l]
    by (auto simp: in_cidr4_def e div_mult2_eq v4_div q word_unat_eq_iff
        simp del: nat_of_v4.simps)
qed

lemma oct_range:
  "unat (b :: 8 word) div 64 = 1 \<longleftrightarrow> 64 \<le> b \<and> b \<le> 127"
  "unat b div 16 = 1 \<longleftrightarrow> 16 \<le> b \<and> b \<le> 31"
  "unat b div 2 = 9 \<longleftrightarrow> b = 18 \<or> b = 19"
  "unat b div 16 = 14 \<longleftrightarrow> 224 \<le> b \<and> b \<le> 239"
  "unat b div 16 = 15 \<longleftrightarrow> 240 \<le> b"
proof -
  have top: "n < 256 \<Longrightarrow> n div 16 = 15 \<longleftrightarrow> 240 \<le> n" for n :: nat by auto
  show
    "unat b div 64 = 1 \<longleftrightarrow> 64 \<le> b \<and> b \<le> 127" "unat b div 16 = 1 \<longleftrightarrow> 16 \<le> b \<and> b \<le> 31"
    "unat b div 2 = 9 \<longleftrightarrow> b = 18 \<or> b = 19" "unat b div 16 = 14 \<longleftrightarrow> 224 \<le> b \<and> b \<le> 239"
    "unat b div 16 = 15 \<longleftrightarrow> 240 \<le> b"
    by (auto simp: top [OF unat8] word_le_nat_alt word_unat_eq_iff)
qed

lemma ipv4_denied_octets:
  "ipv4_denied (IPv4 a b c d) \<longleftrightarrow>
     a = 0 \<or> a = 10 \<or> a = 127 \<or> 224 \<le> a
     \<or> a = 100 \<and> 64 \<le> b \<and> b \<le> 127 \<or> a = 169 \<and> b = 254
     \<or> a = 172 \<and> 16 \<le> b \<and> b \<le> 31 \<or> a = 192 \<and> b = 168
     \<or> a = 198 \<and> (b = 18 \<or> b = 19)
     \<or> a = 192 \<and> b = 0 \<and> (c = 0 \<or> c = 2) \<or> a = 192 \<and> b = 88 \<and> c = 99
     \<or> a = 198 \<and> b = 51 \<and> c = 100 \<or> a = 203 \<and> b = 0 \<and> c = 113
     \<or> a = 168 \<and> b = 63 \<and> c = 129 \<and> d = 16"
proof -
  have top: "224 \<le> a \<longleftrightarrow> 224 \<le> a \<and> a \<le> 239 \<or> 240 \<le> a"
    by (auto simp: word_le_nat_alt)
  have rows: "ipv4_denied (IPv4 a b c d) \<longleftrightarrow>
     a = 0 \<or> a = 0 \<and> b = 0 \<and> c = 0 \<and> d = 0 \<or> a = 10 \<or> a = 100 \<and> 64 \<le> b \<and> b \<le> 127
     \<or> a = 127 \<or> a = 169 \<and> b = 254 \<or> a = 172 \<and> 16 \<le> b \<and> b \<le> 31
     \<or> a = 192 \<and> b = 0 \<and> c = 0 \<or> a = 192 \<and> b = 0 \<and> c = 2 \<or> a = 192 \<and> b = 88 \<and> c = 99
     \<or> a = 192 \<and> b = 168 \<or> a = 198 \<and> (b = 18 \<or> b = 19) \<or> a = 198 \<and> b = 51 \<and> c = 100
     \<or> a = 203 \<and> b = 0 \<and> c = 113 \<or> 224 \<le> a \<and> a \<le> 239 \<or> 240 \<le> a
     \<or> a = 255 \<and> b = 255 \<and> c = 255 \<and> d = 255 \<or> a = 168 \<and> b = 63 \<and> c = 129 \<and> d = 16
     \<or> a = 100 \<and> b = 100 \<and> c = 100 \<and> d = 200"
    by (simp add: ipv4_denied_def IPV4_DENY_ROWS_def in_cidr4_8 in_cidr4_16 in_cidr4_24
        in_cidr4_32 in_cidr4_upto_8 in_cidr4_9_to_16 oct_range
        oct_range [unfolded One_nat_def])
  have in_range: "a = 255 \<Longrightarrow> 240 \<le> a" "b = 100 \<Longrightarrow> 64 \<le> b \<and> b \<le> 127" by simp_all
  show ?thesis unfolding rows using top in_range by argo
qed

section \<open>Embedded IPv4 addresses\<close>

fun v4_mapped :: "ipv4 \<Rightarrow> ipv6" where
  "v4_mapped (IPv4 a b c d) = IPv6 0 0 0 0 0 0xffff (seg a b) (seg c d)"

fun v4_compatible :: "ipv4 \<Rightarrow> ipv6" where
  "v4_compatible (IPv4 a b c d) = IPv6 0 0 0 0 0 0 (seg a b) (seg c d)"

fun nat64 :: "ipv4 \<Rightarrow> ipv6" where
  "nat64 (IPv4 a b c d) = IPv6 0x64 0xff9b 0 0 0 0 (seg a b) (seg c d)"

fun six_to_four :: "ipv4 \<Rightarrow> 16 word list \<Rightarrow> ipv6" where
  "six_to_four (IPv4 a b c d) t =
     IPv6 0x2002 (seg a b) (seg c d) (t ! 0) (t ! 1) (t ! 2) (t ! 3) (t ! 4)"

lemma seg_zero: "seg a b = 0 \<longleftrightarrow> a = 0 \<and> b = 0"
proof
  assume z: "seg a b = 0"
  have "hi8 (seg a b) = 0" "lo8 (seg a b) = 0" unfolding z by (simp_all add: hi8_def lo8_def)
  then show "a = 0 \<and> b = 0" by simp
qed (simp add: seg_def)

lemma seg_one: "seg a b = 1 \<longleftrightarrow> a = 0 \<and> b = 1"
proof
  assume z: "seg a b = 1"
  have "hi8 (seg a b) = 0" "lo8 (seg a b) = 1" unfolding z by (simp_all add: hi8_def lo8_def)
  then show "a = 0 \<and> b = 1" by simp
qed (simp add: seg_def)

text \<open>The two addresses whose compatible form is \<open>::\<close> or \<open>::1\<close>.\<close>

definition compat_reserved :: "ipv4 \<Rightarrow> bool" where
  "compat_reserved v \<longleftrightarrow> v = IPv4 0 0 0 0 \<or> v = IPv4 0 0 0 1"

lemma unwrap_mapped [simp]: "unwrap_v6 (v4_mapped v) = V4 v"
  by (cases v) simp

lemma unwrap_nat64 [simp]: "unwrap_v6 (nat64 v) = V4 v"
  by (cases v) simp

lemma unwrap_six_to_four [simp]: "unwrap_v6 (six_to_four v t) = V4 v"
  by (cases v) simp

lemma unwrap_compatible [simp]: "\<not> compat_reserved v \<Longrightarrow> unwrap_v6 (v4_compatible v) = V4 v"
  by (cases v)
     (auto simp: compat_reserved_def v6_unspecified_def v6_loopback_def seg_zero seg_one)

lemma unwrap_cases: "unwrap_ip i = i \<or> (\<exists>v. unwrap_ip i = V4 v)"
  by (cases i; cases "case i of V6 v \<Rightarrow> v | V4 _ \<Rightarrow> IPv6 0 0 0 0 0 0 0 0")
     (simp_all add: Let_def)

lemma unwrap_idem: "unwrap_ip (unwrap_ip i) = unwrap_ip i"
  using unwrap_cases [of i] by auto

lemma blocked_unwrap:
  "is_blocked_ip_with_policy sh p (unwrap_ip i) = is_blocked_ip_with_policy sh p i"
  by (simp add: is_blocked_ip_with_policy_def unwrap_idem)

lemma blocked_V4:
  "is_blocked_ip_with_policy sh p (V4 v) \<longleftrightarrow>
     \<not> (p_allow_loopback p \<and> v4_loopback v)
     \<and> (is_metadata_v4 v \<and> \<not> allow_metadata sh p
        \<or> \<not> (allow_private_networks sh p \<and> is_self_host_private_v4 v) \<and> ipv4_denied v)"
  by (auto simp: is_blocked_ip_with_policy_def)

lemma blocked_embedded:
  "unwrap_v6 w = V4 v \<Longrightarrow>
     is_blocked_ip_with_policy sh p (V6 w) = is_blocked_ip_with_policy sh p (V4 v)"
  by (simp add: is_blocked_ip_with_policy_def)

lemma metadata_octets:
  "is_metadata_v4 v \<longleftrightarrow>
     v = IPv4 169 254 169 254 \<or> v = IPv4 168 63 129 16 \<or> v = IPv4 100 100 100 200"
  by (cases v) simp

lemma metadata_not_loopback: "is_metadata_v4 v \<Longrightarrow> \<not> v4_loopback v"
  by (auto simp: metadata_octets)

lemma metadata_blocked_V4:
  "is_metadata_v4 v \<Longrightarrow> \<not> allow_metadata sh p \<Longrightarrow> is_blocked_ip_with_policy sh p (V4 v)"
  by (simp add: blocked_V4 metadata_not_loopback)

lemma metadata_not_reserved: "is_metadata_v4 v \<Longrightarrow> \<not> compat_reserved v"
  by (auto simp: metadata_octets compat_reserved_def)

lemma in_cidr6_upto_16:
  "n \<le> 16 \<Longrightarrow> in_cidr6 (IPv6 a' b' c' d' e' f' g' h', n) (IPv6 a b c d e f g h)
     \<longleftrightarrow> unat a div 2 ^ (16 - n) = unat a' div 2 ^ (16 - n)"
  by (simp only: in_cidr6_def fst_conv snd_conv nat_of_v6_div)

lemma in_cidr6_128: "in_cidr6 (w, 128) v \<longleftrightarrow> v = w"
  by (simp add: in_cidr6_def nat_of_v6_eq_iff)

lemma ipv6_denied_row: "net \<in> set IPV6_DENY_ROWS \<Longrightarrow> in_cidr6 net v \<Longrightarrow> ipv6_denied v"
  unfolding ipv6_denied_def list_ex_iff by blast

lemma ipv6_denied_ranges:
  "(w, 128) \<in> set IPV6_DENY_ROWS \<Longrightarrow> ipv6_denied w"
  "v6_multicast v \<Longrightarrow> ipv6_denied v"
  "v6_unique_local v \<Longrightarrow> ipv6_denied v"
proof -
  show "(w, 128) \<in> set IPV6_DENY_ROWS \<Longrightarrow> ipv6_denied w"
    unfolding ipv6_denied_def list_ex_iff by (rule bexI [of _ "(w, 128)"]) (simp add: in_cidr6_128)
  obtain a b c d e f g h where v: "v = IPv6 a b c d e f g h" by (cases v)
  show "v6_multicast v \<Longrightarrow> ipv6_denied v"
    by (rule ipv6_denied_row [of "(IPv6 0xff00 0 0 0 0 0 0 0, 8)"])
       (simp_all add: IPV6_DENY_ROWS_def v in_cidr6_upto_16 seg_mask_div [unfolded power_numeral])
  show "v6_unique_local v \<Longrightarrow> ipv6_denied v"
    by (rule ipv6_denied_row [of "(IPv6 0xfc00 0 0 0 0 0 0 0, 7)"])
       (simp_all add: IPV6_DENY_ROWS_def v in_cidr6_upto_16 seg_mask_div [unfolded power_numeral])
qed

section \<open>What pinning runs through\<close>

lemma check_addrs_Inr:
  "check_addrs sh p addrs acc = Inr r \<longleftrightarrow>
     r = acc @ addrs \<and> (\<forall>a \<in> set addrs. \<not> is_blocked_ip_with_policy sh p a)"
  by (induction addrs arbitrary: acc) auto

interpretation proxy_gate:
  answer_gate "is_blocked_ip_with_policy sh p" "\<lambda>addrs. check_addrs sh p addrs [] = Inr addrs"
  for sh p
  by unfold_locales (auto simp: check_addrs_Inr)

lemma pick_addr_in: "addrs \<noteq> [] \<Longrightarrow> pick_addr addrs \<in> set addrs"
  by (auto simp: pick_addr_def find_Some_iff split: option.split)

lemma host_addrs_Inr:
  "host_addrs resolve h = Inr addrs \<longleftrightarrow>
     (\<exists>i. parse_ip h = Some i \<and> addrs = [i])
     \<or> parse_ip h = None \<and> resolve h = Inr addrs \<and> addrs \<noteq> []"
  by (auto simp: host_addrs_def split: option.split sum.split)

lemma check_scheme_Inr:
  "check_scheme p s = Inr () \<longleftrightarrow> s = ''https'' \<or> s = ''http'' \<and> p_allow_insecure_http p"
  by (auto simp: check_scheme_def)

lemma pin_url_Inr:
  "pin_url sh idn resolve p hop u = Inr r \<longleftrightarrow>
     hop \<le> p_max_hops p \<and> check_scheme p (url_scheme u) = Inr ()
     \<and> url_username u = [] \<and> url_password u = None
     \<and> (pin_port_of u \<in> set ALLOWED_PORTS \<or> p_allow_loopback p)
     \<and> (\<exists>h addrs. normalize_hostname idn u = Inr h \<and> \<not> hostname_denied sh p h
          \<and> host_addrs resolve h = Inr addrs \<and> addrs \<noteq> []
          \<and> (\<forall>a \<in> set addrs. \<not> is_blocked_ip_with_policy sh p a)
          \<and> r = \<lparr> pin_hostname = h, pin_scheme = url_scheme u, pin_port = pin_port_of u,
                  pin_ip = pick_addr addrs \<rparr>)"
  by (auto simp: pin_url_def check_addrs_Inr split: if_splits)

section \<open>Properties\<close>

definition plain_idna :: idna where
  "plain_idna = \<lparr> to_ascii = Inr, to_unicode = id \<rparr>"

definition https_url :: "host \<Rightarrow> url" where
  "https_url h =
     \<lparr> url_scheme = ''https'', url_username = [], url_password = None, url_host = Some h,
       url_port = None, url_path = ''/'', url_query = None, url_fragment = None \<rparr>"

definition example_pin :: "ssrf_error + pinned" where
  "example_pin =
     pin_url False plain_idna (map_resolver [(''www.example.com'', [V4 (IPv4 93 184 216 34)])])
       policy_default 0 (https_url (Domain ''www.example.com''))"

lemma example_host:
  "normalize_domain plain_idna ''www.example.com'' = Inr ''www.example.com''"
  "parse_ip ''www.example.com'' = None"
proof -
  show "normalize_domain plain_idna ''www.example.com'' = Inr ''www.example.com''"
    by (simp add: normalize_domain_def plain_idna_def to_lower_def lower1_def is_upper_def
        MAX_HOST_LEN_def suffix_to_prefix)
  show "parse_ip ''www.example.com'' = None"
    by (rule parse_ip_name) (simp_all add: digit_val_def is_digit_def)
qed

lemma example_open:
  "\<not> hostname_denied sh p ''www.example.com''"
  "\<not> is_blocked_ip_with_policy sh p (V4 (IPv4 93 184 216 34))"
  by (simp_all add: hostname_denied_def METADATA_HOSTS_def HOST_EXACT_DENY_def
      HOST_SUFFIX_DENY_def suffix_to_prefix blocked_V4 ipv4_denied_octets)

lemma example_pin_eq:
  "example_pin = Inr \<lparr> pin_hostname = ''www.example.com'', pin_scheme = ''https'',
     pin_port = 443, pin_ip = V4 (IPv4 93 184 216 34) \<rparr>"
  by (simp add: example_pin_def pin_url_def check_scheme_def https_url_def pin_port_of_def
      ALLOWED_PORTS_def normalize_hostname_def example_host example_open host_addrs_def
      map_resolver_def pick_addr_def)

text \<open>C1: what \<open>pin_url\<close> returns is dialable: the hop is within the policy's limit, the scheme is
  \<open>https\<close> (or \<open>http\<close> with the opt-in), there is no userinfo, the port is 80, 443 or 8443 unless
  loopback is allowed, the normalised host name is not denied, and the pinned address is not
  blocked under the policy.\<close>

theorem pin_url_safe:
  assumes "pin_url sh idn resolve p hop u = Inr r"
  shows "hop \<le> p_max_hops p
    \<and> (pin_scheme r = ''https'' \<or> pin_scheme r = ''http'' \<and> p_allow_insecure_http p)
    \<and> url_username u = [] \<and> url_password u = None
    \<and> (pin_port r \<in> {80, 443, 8443} \<or> p_allow_loopback p)
    \<and> \<not> hostname_denied sh p (pin_hostname r)
    \<and> \<not> is_blocked_ip_with_policy sh p (pin_ip r)"
  using assms pick_addr_in
  by (auto simp: pin_url_Inr check_scheme_Inr ALLOWED_PORTS_def)

theorem pin_url_safe_witness:
  "\<exists>r. example_pin = Inr r \<and> \<not> is_blocked_ip_with_policy False policy_default (pin_ip r)"
  using pin_url_safe [OF example_pin_eq [unfolded example_pin_def]] example_pin_eq by auto

text \<open>For a name host every address of the DNS answer was checked: the pinned address is one
  of the answers, and no answer is blocked, so an answer that mixes a public and a private
  address is refused whatever its order.\<close>

theorem pin_url_checks_all_answers:
  assumes "pin_url sh idn resolve p hop u = Inr r" and "parse_ip (pin_hostname r) = None"
  shows "\<exists>addrs. resolve (pin_hostname r) = Inr addrs \<and> pin_ip r \<in> set addrs
    \<and> (\<forall>a \<in> set addrs. \<not> is_blocked_ip_with_policy sh p a)"
  using assms pick_addr_in by (auto simp: pin_url_Inr host_addrs_Inr)

theorem pin_url_checks_all_answers_witness:
  "\<exists>addrs. map_resolver [(''www.example.com'', [V4 (IPv4 93 184 216 34)])] ''www.example.com''
     = Inr addrs \<and> V4 (IPv4 93 184 216 34) \<in> set addrs"
proof -
  show ?thesis
    using pin_url_checks_all_answers [OF example_pin_eq [unfolded example_pin_def]] example_host(2)
    by auto
qed

text \<open>The order of a DNS answer does not matter to whether a URL is pinned: two resolvers
  whose answers hold the same addresses, repeated or permuted, are accepted alike.\<close>

theorem pin_verdict_ignores_order:
  assumes "\<forall>h. (\<exists>e. resolve h = Inl e \<and> resolve' h = Inl e)
    \<or> (\<exists>as bs. resolve h = Inr as \<and> resolve' h = Inr bs \<and> set as = set bs)"
  shows "(\<exists>r. pin_url sh idn resolve p hop u = Inr r)
    \<longleftrightarrow> (\<exists>r. pin_url sh idn resolve' p hop u = Inr r)"
proof -
  have same: "(\<exists>addrs. host_addrs resolve h = Inr addrs \<and> addrs \<noteq> []
        \<and> check_addrs sh p addrs [] = Inr addrs)
      \<longleftrightarrow> (\<exists>addrs. host_addrs resolve' h = Inr addrs \<and> addrs \<noteq> []
        \<and> check_addrs sh p addrs [] = Inr addrs)" for h
    using spec [OF assms, of h]
    by (cases "parse_ip h")
      (auto simp: host_addrs_def proxy_gate.accepts_iff split: if_splits)
  have "(\<exists>r. pin_url sh idn res p hop u = Inr r) \<longleftrightarrow>
      hop \<le> p_max_hops p \<and> check_scheme p (url_scheme u) = Inr ()
      \<and> url_username u = [] \<and> url_password u = None
      \<and> (pin_port_of u \<in> set ALLOWED_PORTS \<or> p_allow_loopback p)
      \<and> (\<exists>h. normalize_hostname idn u = Inr h \<and> \<not> hostname_denied sh p h
           \<and> (\<exists>addrs. host_addrs res h = Inr addrs \<and> addrs \<noteq> []
                \<and> check_addrs sh p addrs [] = Inr addrs))" for res
    unfolding pin_url_Inr proxy_gate.accepts_iff by blast
  with same show ?thesis by simp
qed

definition two_answers :: "ip list \<Rightarrow> resolver" where
  "two_answers addrs h = Inr addrs"

theorem pin_verdict_ignores_order_witness:
  "(\<exists>r. pin_url False plain_idna (two_answers [V4 (IPv4 10 0 0 1), V4 (IPv4 9 9 9 9)])
       policy_default 0 (https_url (Domain ''www.example.com'')) = Inr r)
   \<longleftrightarrow> (\<exists>r. pin_url False plain_idna (two_answers [V4 (IPv4 9 9 9 9), V4 (IPv4 10 0 0 1)])
       policy_default 0 (https_url (Domain ''www.example.com'')) = Inr r)"
  by (rule pin_verdict_ignores_order) (auto simp: two_answers_def)



text \<open>C7: an embedded address gets the verdict of the address it embeds: an IPv4-mapped, NAT64 or
  6to4 address for every IPv4 address, an IPv4-compatible one for every address but \<open>0.0.0.0\<close>
  and \<open>0.0.0.1\<close>, whose forms are \<open>::\<close> and \<open>::1\<close>; and the verdict depends on the unwrapped
  address alone.\<close>

theorem embedded_same_verdict:
  "is_blocked_ip_with_policy sh p (V6 (v4_mapped v)) = is_blocked_ip_with_policy sh p (V4 v)
   \<and> is_blocked_ip_with_policy sh p (V6 (nat64 v)) = is_blocked_ip_with_policy sh p (V4 v)
   \<and> is_blocked_ip_with_policy sh p (V6 (six_to_four v t)) = is_blocked_ip_with_policy sh p (V4 v)
   \<and> is_blocked_ip_with_policy sh p
       (V6 (if compat_reserved v then v4_mapped v else v4_compatible v))
     = is_blocked_ip_with_policy sh p (V4 v)
   \<and> is_blocked_ip_with_policy sh p (unwrap_ip i) = is_blocked_ip_with_policy sh p i"
  by (simp add: blocked_embedded blocked_unwrap)

text \<open>The private-network opt-in opens private addresses and nothing else: an address the
  default policy blocks and a policy with only that opt-in admits is, unwrapped, RFC 1918, CGNAT
  or unique-local, and it is not a metadata address.\<close>

theorem private_opt_in_is_narrow:
  assumes "is_blocked_ip_with_policy sh policy_default i"
    and "\<not> is_blocked_ip_with_policy sh (with_private_networks sh policy_default True) i"
  shows "case unwrap_ip i of
      V4 v \<Rightarrow> is_self_host_private_v4 v \<and> \<not> is_metadata_v4 v
    | V6 v \<Rightarrow> is_self_host_private_v6 v \<and> \<not> is_metadata_v6 v"
  using assms
  by (auto simp: is_blocked_ip_with_policy_def with_private_networks_def policy_default_def
      allow_metadata_def allow_private_networks_def split: ip.splits if_splits)

theorem private_opt_in_is_narrow_witness:
  "is_self_host_private_v4 (IPv4 10 0 0 1) \<and> \<not> is_metadata_v4 (IPv4 10 0 0 1)"
proof -
  have "is_blocked_ip_with_policy True policy_default (V4 (IPv4 10 0 0 1))"
    "\<not> is_blocked_ip_with_policy True (with_private_networks True policy_default True)
       (V4 (IPv4 10 0 0 1))"
    by (simp_all add: blocked_V4 ipv4_denied_octets with_private_networks_def
        allow_private_networks_def policy_default_def)
  from private_opt_in_is_narrow [OF this] show ?thesis by simp
qed

text \<open>Without the \<open>self-host\<close> feature the stored private-network and metadata flags have no
  effect at all: pinning decides every URL as if they were unset.\<close>

theorem flags_need_the_feature:
  "pin_url False idn resolve p hop u =
     pin_url False idn resolve
       (p\<lparr>p_allow_private_networks := False, p_allow_metadata := False\<rparr>) hop u"
proof -
  let ?q = "p\<lparr>p_allow_private_networks := False, p_allow_metadata := False\<rparr>"
  have b: "is_blocked_ip_with_policy False p = is_blocked_ip_with_policy False ?q"
    by (rule ext)
       (simp add: is_blocked_ip_with_policy_def allow_metadata_def allow_private_networks_def
         split: ip.split)
  have h: "hostname_denied False p = hostname_denied False ?q"
    by (rule ext) (simp add: hostname_denied_def allow_metadata_def allow_private_networks_def)
  have c: "check_addrs False p = check_addrs False ?q"
  proof (intro ext)
    show "check_addrs False p addrs acc = check_addrs False ?q addrs acc" for addrs acc
      by (induction addrs arbitrary: acc) (simp_all add: b)
  qed
  have s: "check_scheme p = check_scheme ?q"
    by (rule ext) (simp add: check_scheme_def)
  show ?thesis unfolding pin_url_def h c s by simp
qed

text \<open>A URL whose host is an IPv4 literal is never resolved: the answer of the resolver does
  not matter, and what is pinned is the literal's own address.\<close>

theorem ipv4_literal_not_resolved:
  assumes "url_host u = Some (Host_V4 v)"
  shows "pin_url sh idn resolve p hop u = pin_url sh idn resolve' p hop u
    \<and> (\<forall>r. pin_url sh idn resolve p hop u = Inr r \<longrightarrow> pin_ip r = V4 v)"
proof -
  have n: "normalize_hostname idn u = Inr (show_ipv4 v)"
    using assms by (simp add: normalize_hostname_def)
  have a: "host_addrs res (show_ipv4 v) = Inr [V4 v]" for res
    by (simp add: host_addrs_def)
  show ?thesis by (auto simp: pin_url_def n a pick_addr_def split: if_splits)
qed

theorem ipv4_literal_not_resolved_witness:
  "\<exists>r. pin_url False plain_idna (\<lambda>_. Inl ''down'') policy_default 0
         (https_url (Host_V4 (IPv4 93 184 216 34))) = Inr r
       \<and> pin_ip r = V4 (IPv4 93 184 216 34)"
proof -
  let ?u = "https_url (Host_V4 (IPv4 93 184 216 34))"
  have n: "show_ipv4 (IPv4 93 184 216 34) = ''93.184.216.34''" by code_simp
  have o: "\<not> hostname_denied False p (show_ipv4 (IPv4 93 184 216 34))" for p
    unfolding n
    by (simp add: hostname_denied_def METADATA_HOSTS_def HOST_EXACT_DENY_def HOST_SUFFIX_DENY_def
        suffix_to_prefix)
  have "pin_url False plain_idna (\<lambda>_. Inl ''down'') policy_default 0 ?u
      = Inr \<lparr> pin_hostname = show_ipv4 (IPv4 93 184 216 34), pin_scheme = ''https'', pin_port = 443,
              pin_ip = V4 (IPv4 93 184 216 34) \<rparr>"
    by (simp add: pin_url_def check_scheme_def https_url_def pin_port_of_def policy_default_def
        ALLOWED_PORTS_def normalize_hostname_def host_addrs_def pick_addr_def example_open o
        del: show_ipv4.simps)
  then show ?thesis
    using ipv4_literal_not_resolved [of ?u "IPv4 93 184 216 34"] by (simp add: https_url_def)
qed

end
