(* ===== verification/Spec_Safety.thy ===== *)
theory Spec_Safety
  imports Ssrf
begin

text \<open>
  The compiler's outbound check for spec documents and remote \<open>$ref\<close>s
  (\<open>mcp-gateway-compile/src/safety.rs\<close>), and how it compares with the execute path's policy.
  \<open>Url::parse\<close> and the system's name lookup are arguments.
\<close>

record safety_opts =
  so_allow_private :: bool
  so_allow_insecure_http :: bool

definition safety_default :: safety_opts where
  "safety_default = \<lparr> so_allow_private = False, so_allow_insecure_http = False \<rparr>"

datatype safety_error =
    NotHttps bytes
  | Localhost
  | BlockedAddress bytes
  | Dns bytes bytes
  | SafetyInvalidUrl bytes

definition exit_code :: "safety_error \<Rightarrow> int" where
  "exit_code e = 3"

section \<open>Addresses\<close>

fun is_ipv6_link_local :: "ipv6 \<Rightarrow> bool" where
  "is_ipv6_link_local (IPv6 a b c d e f g h) \<longleftrightarrow> a AND 0xffc0 = 0xfe80"

definition is_ipv6_metadata :: "ipv6 \<Rightarrow> bool" where
  "is_ipv6_metadata v \<longleftrightarrow> v = IPv6 0xfd00 0xec2 0 0 0 0 0 0x254"

fun embedded_ipv4 :: "ipv6 \<Rightarrow> ipv4 option" where
  "embedded_ipv4 (IPv6 a b c d e f g h) =
     (case to_ipv4_mapped (IPv6 a b c d e f g h) of
        Some v4 \<Rightarrow> Some v4
      | None \<Rightarrow>
          if v6_unspecified (IPv6 a b c d e f g h) \<or> v6_loopback (IPv6 a b c d e f g h) then None
          else if a = 0 \<and> b = 0 \<and> c = 0 \<and> d = 0 \<and> e = 0 \<and> f = 0 then Some (v4_of_segs g h)
          else None)"

fun is_blocked_v4 :: "safety_opts \<Rightarrow> ipv4 \<Rightarrow> bool" where
  "is_blocked_v4 opts (IPv4 a b c d) =
     (let v = IPv4 a b c d in
      if v4_link_local v \<or> v4_multicast v \<or> v4_broadcast v \<or> v4_unspecified v
         \<or> v = IPv4 169 254 169 254 \<or> a = 0
      then True
      else if v4_loopback v then \<not> so_allow_private opts
      else if so_allow_private opts then False
      else v4_private v)"

definition is_blocked_v6 :: "safety_opts \<Rightarrow> ipv6 \<Rightarrow> bool" where
  "is_blocked_v6 opts v =
     (case embedded_ipv4 v of
        Some v4 \<Rightarrow> is_blocked_v4 opts v4
      | None \<Rightarrow>
          if v6_multicast v \<or> v6_unspecified v \<or> is_ipv6_link_local v \<or> is_ipv6_metadata v
          then True
          else if v6_loopback v then \<not> so_allow_private opts
          else if so_allow_private opts then False
          else v6_unique_local v)"

fun is_blocked_ip_with :: "safety_opts \<Rightarrow> ip \<Rightarrow> bool" where
  "is_blocked_ip_with opts (V4 v) = is_blocked_v4 opts v"
| "is_blocked_ip_with opts (V6 v) = is_blocked_v6 opts v"

definition is_http_private_or_loopback :: "ip \<Rightarrow> bool" where
  "is_http_private_or_loopback i \<longleftrightarrow>
     is_blocked_ip_with (safety_default\<lparr>so_allow_private := False\<rparr>) i
     \<and> \<not> is_blocked_ip_with (safety_default\<lparr>so_allow_private := True\<rparr>) i"

section \<open>Hosts\<close>

definition check_host_with :: "safety_opts \<Rightarrow> bytes \<Rightarrow> safety_error + unit" where
  "check_host_with opts h =
     (let lower = to_lower h in
      if lower = ''localhost'' \<or> ends_with lower ''.localhost''
      then (if so_allow_private opts then Inr () else Inl Localhost)
      else case parse_ip h of
        Some i \<Rightarrow> if is_blocked_ip_with opts i then Inl (BlockedAddress h) else Inr ()
      | None \<Rightarrow> Inr ())"

definition check_host :: "bytes \<Rightarrow> safety_error + unit" where
  "check_host h = check_host_with safety_default h"

type_synonym lookup = "bytes \<Rightarrow> bytes + ip list"

fun first_blocked :: "safety_opts \<Rightarrow> ip list \<Rightarrow> ip option" where
  "first_blocked opts [] = None"
| "first_blocked opts (a # addrs) =
     (if is_blocked_ip_with opts a then Some a else first_blocked opts addrs)"

definition resolve_and_check_with :: "lookup \<Rightarrow> safety_opts \<Rightarrow> bytes \<Rightarrow> safety_error + unit" where
  "resolve_and_check_with lookup opts h =
     and_then (check_host_with opts h) (\<lambda>_.
       if parse_ip h \<noteq> None then Inr ()
       else case lookup h of
         Inl e \<Rightarrow> Inl (Dns h e)
       | Inr addrs \<Rightarrow>
           (case first_blocked opts addrs of
              Some a \<Rightarrow> Inl (BlockedAddress (show_ip a))
            | None \<Rightarrow> if addrs = [] then Inl (Dns h ''no addresses'') else Inr ()))"

definition resolve_and_check :: "lookup \<Rightarrow> bytes \<Rightarrow> safety_error + unit" where
  "resolve_and_check lookup h = resolve_and_check_with lookup safety_default h"

section \<open>URLs\<close>

text \<open>Every answer must be private; one that is not decides before the empty answer is looked at.\<close>

definition http_target_is_private :: "lookup \<Rightarrow> url \<Rightarrow> safety_error + bool" where
  "http_target_is_private lookup u =
     (case url_host u of
        Some (Host_V4 v) \<Rightarrow> Inr (is_http_private_or_loopback (V4 v))
      | Some (Host_V6 v) \<Rightarrow> Inr (is_http_private_or_loopback (V6 v))
      | Some (Domain h) \<Rightarrow>
          (case parse_ip h of
             Some i \<Rightarrow> Inr (is_http_private_or_loopback i)
           | None \<Rightarrow>
               (case lookup h of
                  Inl e \<Rightarrow> Inl (Dns h e)
                | Inr addrs \<Rightarrow>
                    if list_ex (\<lambda>a. \<not> is_http_private_or_loopback a) addrs then Inr False
                    else if addrs = [] then Inl (Dns h ''no addresses'')
                    else Inr True))
      | None \<Rightarrow> Inl (SafetyInvalidUrl ''missing host''))"

fun missing_http_opt_in :: "safety_opts \<Rightarrow> bytes option" where
  "missing_http_opt_in opts =
     (case (so_allow_insecure_http opts, so_allow_private opts) of
        (True, True) \<Rightarrow> None
      | (False, False) \<Rightarrow> Some ''missing --insecure-http and --allow-private-networks''
      | (False, True) \<Rightarrow> Some ''missing --insecure-http''
      | (True, False) \<Rightarrow> Some ''missing --allow-private-networks'')"

definition assert_private_http :: "lookup \<Rightarrow> safety_opts \<Rightarrow> url \<Rightarrow> safety_error + unit" where
  "assert_private_http lookup opts u =
     (case missing_http_opt_in opts of
        Some missing \<Rightarrow>
          Inl (NotHttps (''only https URLs are allowed, got http; http needs both --insecure-http and --allow-private-networks and a private or loopback host ('' @ missing @ '')''))
      | None \<Rightarrow>
          and_then (http_target_is_private lookup u) (\<lambda>private.
            if private then Inr ()
            else Inl (NotHttps (''only https URLs are allowed, got http; host ''
                   @ (case host_str u of Some h \<Rightarrow> h | None \<Rightarrow> [])
                   @ '' is not loopback, RFC1918, or IPv6 ULA''))))"

definition assert_scheme :: "lookup \<Rightarrow> safety_opts \<Rightarrow> url \<Rightarrow> safety_error + unit" where
  "assert_scheme lookup opts u =
     (if url_scheme u = ''https'' then Inr ()
      else if url_scheme u = ''http'' then assert_private_http lookup opts u
      else Inl (NotHttps (''only https URLs are allowed, got '' @ url_scheme u)))"

definition check_url_host :: "safety_opts \<Rightarrow> url \<Rightarrow> safety_error + unit" where
  "check_url_host opts u =
     (case url_host u of
        Some (Domain d) \<Rightarrow> check_host_with opts d
      | Some (Host_V4 v) \<Rightarrow>
          if is_blocked_v4 opts v then Inl (BlockedAddress (show_ipv4 v)) else Inr ()
      | Some (Host_V6 v) \<Rightarrow>
          if is_blocked_v6 opts v then Inl (BlockedAddress (show_ipv6 v)) else Inr ()
      | None \<Rightarrow> Inl (SafetyInvalidUrl ''missing host''))"

definition parse_https_url_with ::
    "(bytes \<Rightarrow> bytes + url) \<Rightarrow> lookup \<Rightarrow> bytes \<Rightarrow> safety_opts \<Rightarrow> safety_error + url" where
  "parse_https_url_with parse_url lookup raw opts =
     (case parse_url raw of
        Inl e \<Rightarrow> Inl (SafetyInvalidUrl e)
      | Inr u \<Rightarrow>
          and_then (assert_scheme lookup opts u) (\<lambda>_.
          and_then (check_url_host opts u) (\<lambda>_. Inr u)))"

definition parse_https_url :: "(bytes \<Rightarrow> bytes + url) \<Rightarrow> lookup \<Rightarrow> bytes \<Rightarrow> safety_error + url" where
  "parse_https_url parse_url lookup raw = parse_https_url_with parse_url lookup raw safety_default"

section \<open>Answers\<close>

lemma first_blocked_None:
  "first_blocked opts addrs = None \<longleftrightarrow> (\<forall>a \<in> set addrs. \<not> is_blocked_ip_with opts a)"
  by (induction addrs) auto

interpretation loader_gate:
  answer_gate "is_blocked_ip_with opts" "\<lambda>addrs. first_blocked opts addrs = None" for opts
  by unfold_locales simp_all

interpretation http_gate:
  answer_gate "\<lambda>a. \<not> is_http_private_or_loopback a"
    "\<lambda>addrs. \<not> list_ex (\<lambda>a. \<not> is_http_private_or_loopback a) addrs"
  by unfold_locales simp_all

section \<open>The same addresses on both sides\<close>

lemma ipv6_denied_rows:
  "(w, 128) \<in> set IPV6_DENY_ROWS \<Longrightarrow> ipv6_denied w"
  "v6_multicast v \<Longrightarrow> ipv6_denied v"
  "v6_unique_local v \<Longrightarrow> ipv6_denied v"
  "is_ipv6_link_local v \<Longrightarrow> ipv6_denied v"
proof -
  show "is_ipv6_link_local v \<Longrightarrow> ipv6_denied v"
    by (cases v, rule ipv6_denied_row [of "(IPv6 0xfe80 0 0 0 0 0 0 0, 10)"])
       (simp_all add: IPV6_DENY_ROWS_def in_cidr6_upto_16 seg_mask_div [unfolded power_numeral])
qed (fact ipv6_denied_ranges)+

lemma embedded_unwrap: "embedded_ipv4 v = Some w \<Longrightarrow> unwrap_v6 v = V4 w"
  by (cases v) (auto simp: Let_def split: option.splits if_splits)

text \<open>A blocked address that embeds nothing keeps its form in the execute path.\<close>

lemma native_blocked_unwrap:
  assumes "embedded_ipv4 v = None"
    and "v6_multicast v \<or> v6_unspecified v \<or> is_ipv6_link_local v \<or> is_ipv6_metadata v
         \<or> v6_loopback v \<or> v6_unique_local v"
  shows "unwrap_v6 v = V6 v"
proof (cases v)
  case (IPv6 a b c d e f g h)
  have "a \<noteq> 0x64 \<and> a \<noteq> 0x2002"
    using assms(2)
    by (auto simp: IPv6 v6_unspecified_def is_ipv6_metadata_def v6_loopback_def)
  with assms(1) show ?thesis
    by (auto simp: IPv6 split: option.splits if_splits)
qed

section \<open>The flags of a run (runtime.rs, commands/spec.rs)\<close>

text \<open>
  The fields of the command line and of the configuration file's \<open>ssrf\<close> table that set the
  policy. The debug-build override through an environment variable is left out.
\<close>

record globals =
  g_allow_private_networks :: bool
  g_allow_metadata :: bool

record ssrf_config =
  c_allow_private_networks :: bool
  c_allow_metadata :: bool
  c_allow_insecure_http :: bool

definition ssrf_policy :: "bool \<Rightarrow> globals \<Rightarrow> ssrf_config \<Rightarrow> bool \<Rightarrow> policy" where
  "ssrf_policy sh g cfg allow_insecure =
     (let private = g_allow_private_networks g \<or> c_allow_private_networks cfg;
          p = with_private_networks sh policy_default private;
          p = with_allow_loopback p private;
          p = with_metadata sh p (g_allow_metadata g \<or> c_allow_metadata cfg)
      in with_allow_insecure_http p (allow_insecure \<or> c_allow_insecure_http cfg))"

definition safety_opts_of :: "bool \<Rightarrow> globals \<Rightarrow> ssrf_config \<Rightarrow> bool \<Rightarrow> safety_opts" where
  "safety_opts_of sh g cfg insecure_http =
     (let p = ssrf_policy sh g cfg insecure_http
      in \<lparr> so_allow_private = allow_private_networks sh p,
           so_allow_insecure_http = p_allow_insecure_http p \<rparr>)"

text \<open>\<open>check_spec_url\<close>: the pin check of the document URL, and the loader's own for \<open>http\<close>.\<close>

datatype spec_url_error = Pin_Error ssrf_error | Compile_Error safety_error | Bad_Url bytes

definition check_spec_url ::
    "bool \<Rightarrow> (bytes \<Rightarrow> bytes + url) \<Rightarrow> idna \<Rightarrow> resolver \<Rightarrow> lookup \<Rightarrow> globals \<Rightarrow> ssrf_config
     \<Rightarrow> bool \<Rightarrow> bytes \<Rightarrow> spec_url_error + unit" where
  "check_spec_url sh parse_url idn resolve lookup g cfg insecure_http raw =
     (case parse_url raw of
        Inl e \<Rightarrow> Inl (Bad_Url e)
      | Inr u \<Rightarrow>
          (case pin_url sh idn resolve (ssrf_policy sh g cfg insecure_http) 0 u of
             Inl e \<Rightarrow> Inl (Pin_Error e)
           | Inr _ \<Rightarrow>
               if url_scheme u = ''http''
               then (case parse_https_url_with parse_url lookup raw
                            (safety_opts_of sh g cfg insecure_http) of
                       Inl e \<Rightarrow> Inl (Compile_Error e)
                     | Inr _ \<Rightarrow> Inr ())
               else Inr ()))"

section \<open>Properties\<close>

lemma is_blocked_v4_iff:
  fixes a b c d :: "8 word"
  defines "v \<equiv> IPv4 a b c d"
  shows "is_blocked_v4 opts v \<longleftrightarrow>
     (v4_link_local v \<or> v4_multicast v \<or> v4_broadcast v \<or> v4_unspecified v
      \<or> v = IPv4 169 254 169 254 \<or> a = 0)
     \<or> \<not> so_allow_private opts \<and> (v4_loopback v \<or> v4_private v)"
  unfolding v_def is_blocked_v4.simps Let_def if_bool_eq_conj by blast

lemma loader_v4_denied:
  assumes "is_blocked_v4 opts v"
  shows "\<not> (so_allow_private opts \<and> v4_loopback v)
    \<and> \<not> (so_allow_private opts \<and> is_self_host_private_v4 v) \<and> ipv4_denied v"
proof (cases v)
  case (IPv4 a b c d)
  have high: "224 \<le> a \<Longrightarrow> a \<noteq> 10 \<and> a \<noteq> 127 \<and> a \<noteq> 172 \<and> a \<noteq> 192 \<and> a \<noteq> 100"
    by (intro conjI notI) (hypsubst, simp)+
  let ?good = "\<not> v4_loopback v \<and> \<not> is_self_host_private_v4 v \<and> ipv4_denied v"
  have "v4_link_local v \<Longrightarrow> ?good" "v4_broadcast v \<Longrightarrow> ?good" "v4_unspecified v \<Longrightarrow> ?good"
    "v = IPv4 169 254 169 254 \<Longrightarrow> ?good" "a = 0 \<Longrightarrow> ?good"
    by (simp_all add: IPv4 v4_broadcast_def v4_unspecified_def ipv4_denied_octets)
  moreover have "v4_multicast v \<Longrightarrow> ?good"
    using high by (simp add: IPv4 ipv4_denied_octets)
  moreover have "v4_loopback v \<Longrightarrow> ipv4_denied v" "v4_private v \<Longrightarrow> ipv4_denied v"
    unfolding IPv4 ipv4_denied_octets v4_loopback.simps v4_private.simps
    by (simp, elim disjE conjE) simp_all
  moreover have "v4_link_local v \<or> v4_multicast v \<or> v4_broadcast v \<or> v4_unspecified v
      \<or> v = IPv4 169 254 169 254 \<or> a = 0 \<or> \<not> so_allow_private opts \<and> (v4_loopback v \<or> v4_private v)"
    using assms unfolding IPv4 is_blocked_v4_iff by blast
  ultimately show ?thesis by blast
qed

text \<open>The loader's check is no stricter than the execute path's. Under the flags of one run of
  the command line, without the metadata opt-in, every address the loader blocks is blocked by
  the proxy's policy: the two checks never disagree in that direction.\<close>

theorem loader_block_is_proxy_block:
  assumes "\<not> g_allow_metadata g" and "\<not> c_allow_metadata cfg"
    and "is_blocked_ip_with (safety_opts_of True g cfg ins) i"
  shows "is_blocked_ip_with_policy True (ssrf_policy True g cfg ins) i"
proof -
  let ?p = "ssrf_policy True g cfg ins" and ?o = "safety_opts_of True g cfg ins"
  have flags: "allow_metadata True ?p = False"
    "allow_private_networks True ?p = so_allow_private ?o"
    "p_allow_loopback ?p = so_allow_private ?o"
    using assms(1,2)
    by (simp_all add: ssrf_policy_def safety_opts_of_def allow_metadata_def with_metadata_def
        allow_private_networks_def with_private_networks_def with_allow_loopback_def
        with_allow_insecure_http_def Let_def)
  have v4: "is_blocked_ip_with_policy True ?p (V4 v)" if "is_blocked_v4 ?o v" for v
    using loader_v4_denied [OF that] by (simp add: blocked_V4 flags)
  show ?thesis
  proof (cases i)
    case (V4 v)
    with assms(3) v4 show ?thesis by simp
  next
    case (V6 v)
    show ?thesis
    proof (cases "embedded_ipv4 v")
      case (Some w)
      with assms(3) V6 v4 [of w] show ?thesis
        by (simp add: is_blocked_v6_def blocked_embedded [OF embedded_unwrap])
    next
      case None
      with assms(3) V6
      have how: "v6_multicast v \<or> v6_unspecified v \<or> is_ipv6_link_local v \<or> is_ipv6_metadata v
          \<or> \<not> so_allow_private ?o \<and> (v6_loopback v \<or> v6_unique_local v)"
        by (auto simp: is_blocked_v6_def split: if_splits)
      then have un: "unwrap_v6 v = V6 v"
        using native_blocked_unwrap [OF None] by blast
      have excl: "\<not> v6_loopback v \<and> \<not> is_self_host_private_v6 v"
        if "v6_multicast v \<or> v6_unspecified v \<or> is_ipv6_link_local v"
        using that
        by (cases v) (auto simp: v6_loopback_def v6_unspecified_def seg_mask_div [unfolded power_numeral])
      have meta: "is_ipv6_metadata v = is_metadata_v6 v" "is_ipv6_metadata v \<Longrightarrow> \<not> v6_loopback v"
        by (auto simp: is_ipv6_metadata_def is_metadata_v6_def v6_loopback_def)
      have den: "ipv6_denied v"
        using how ipv6_denied_rows(2-4) ipv6_denied_rows(1) [of v]
        by (auto simp: v6_unspecified_def v6_loopback_def is_ipv6_metadata_def IPV6_DENY_ROWS_def)
      show ?thesis
        using how excl meta den
        by (auto simp: V6 is_blocked_ip_with_policy_def un flags)
    qed
  qed
qed

definition no_globals :: globals where
  "no_globals = \<lparr> g_allow_private_networks = False, g_allow_metadata = False \<rparr>"

definition no_ssrf_config :: ssrf_config where
  "no_ssrf_config =
     \<lparr> c_allow_private_networks = False, c_allow_metadata = False, c_allow_insecure_http = False \<rparr>"

lemma default_run:
  "ssrf_policy sh no_globals no_ssrf_config False = policy_default"
  "safety_opts_of sh no_globals no_ssrf_config False = safety_default"
  by (simp_all add: ssrf_policy_def safety_opts_of_def no_globals_def no_ssrf_config_def
      with_private_networks_def with_allow_loopback_def with_metadata_def
      with_allow_insecure_http_def policy_default_def safety_default_def
      allow_private_networks_def)

theorem loader_block_is_proxy_block_witness:
  "is_blocked_ip_with_policy True policy_default (V4 (IPv4 192 168 1 1))"
proof -
  have "is_blocked_ip_with (safety_opts_of True no_globals no_ssrf_config False)
      (V4 (IPv4 192 168 1 1))"
    by (simp add: default_run safety_default_def v4_broadcast_def v4_unspecified_def)
  with loader_block_is_proxy_block [of no_globals no_ssrf_config False "V4 (IPv4 192 168 1 1)"]
  show ?thesis by (simp add: default_run) (simp add: no_globals_def no_ssrf_config_def)
qed

text \<open>The converse fails. With the default flags the loader's check, which is the only one a
  remote \<open>$ref\<close> passes, admits the carrier-grade NAT range, the Azure and Alibaba metadata
  addresses, and the NAT64 and 6to4 forms of the AWS metadata address and of a private address;
  the execute path blocks all of them. \<open>docs/ssrf.md\<close> states one policy, NAT64 unwrapping
  included, for both.\<close>

theorem loader_admits_what_proxy_blocks:
  "i \<in> set [V4 (IPv4 100 64 0 1), V4 (IPv4 168 63 129 16), V4 (IPv4 100 100 100 200),
           V6 (nat64 (IPv4 169 254 169 254)), V6 (nat64 (IPv4 10 0 0 1)),
           V6 (six_to_four (IPv4 169 254 169 254) [0, 0, 0, 0, 0])]
   \<Longrightarrow> \<not> is_blocked_ip_with safety_default i
     \<and> is_blocked_ip_with_policy True policy_default i"
proof -
  have meta: "is_blocked_ip_with_policy True policy_default (V4 v)"
    if "v \<in> {IPv4 100 64 0 1, IPv4 168 63 129 16, IPv4 100 100 100 200, IPv4 169 254 169 254,
             IPv4 10 0 0 1}" for v
    using that
    by (elim insertE emptyE; simp add: blocked_V4 policy_default_def ipv4_denied_octets
        allow_private_networks_def allow_metadata_def)
  have adm: "\<not> is_blocked_ip_with safety_default (V4 v)"
    if "v \<in> {IPv4 100 64 0 1, IPv4 168 63 129 16, IPv4 100 100 100 200}" for v
    using that
    by (elim insertE emptyE; simp add: safety_default_def v4_broadcast_def v4_unspecified_def)
  have adm6: "\<not> is_blocked_ip_with safety_default (V6 (IPv6 a b c d e f g h))"
    if "a = 0x64 \<or> a = 0x2002" for a b c d e f g h
    using that
    by (elim disjE; simp add: safety_default_def is_blocked_v6_def v6_unspecified_def
        v6_loopback_def is_ipv6_metadata_def)
  assume "i \<in> set [V4 (IPv4 100 64 0 1), V4 (IPv4 168 63 129 16), V4 (IPv4 100 100 100 200),
           V6 (nat64 (IPv4 169 254 169 254)), V6 (nat64 (IPv4 10 0 0 1)),
           V6 (six_to_four (IPv4 169 254 169 254) [0, 0, 0, 0, 0])]"
  then consider v where "i = V4 v" "v \<in> {IPv4 100 64 0 1, IPv4 168 63 129 16, IPv4 100 100 100 200}"
    | v where "i = V6 (nat64 v)" "v \<in> {IPv4 169 254 169 254, IPv4 10 0 0 1}"
    | "i = V6 (six_to_four (IPv4 169 254 169 254) [0, 0, 0, 0, 0])"
    by (auto simp del: nat64.simps six_to_four.simps)
  then show ?thesis
  proof cases
    case 1
    then show ?thesis using meta adm by blast
  next
    case (2 v)
    have "is_blocked_ip_with_policy True policy_default (V6 (nat64 v))"
      using meta [of v] 2(2) by (subst blocked_embedded [of _ v]) auto
    with 2(1) adm6 show ?thesis by (cases v) simp
  next
    case 3
    have "is_blocked_ip_with_policy True policy_default i"
      unfolding 3 by (subst blocked_embedded [OF unwrap_six_to_four]) (rule meta, simp)
    with 3 adm6 show ?thesis by simp
  qed
qed

theorem loader_admits_what_proxy_blocks_witness:
  "\<not> is_blocked_ip_with safety_default (V6 (nat64 (IPv4 169 254 169 254)))"
  using loader_admits_what_proxy_blocks [of "V6 (nat64 (IPv4 169 254 169 254))"]
  by (simp del: nat64.simps)

text \<open>The \<open>http\<close> exception covers loopback, RFC 1918 and unique-local addresses and their
  IPv4-mapped and IPv4-compatible forms, exactly: an address qualifies when it is one of these
  and it is not among the addresses that stay blocked with private networks allowed.\<close>

theorem http_exception_exact:
  "is_http_private_or_loopback i \<longleftrightarrow>
     (case i of
        V4 v \<Rightarrow> v4_loopback v \<or> v4_private v
      | V6 v \<Rightarrow> (case embedded_ipv4 v of
                 Some w \<Rightarrow> v4_loopback w \<or> v4_private w
               | None \<Rightarrow> v6_loopback v \<or> v6_unique_local v \<and> \<not> is_ipv6_metadata v))"
proof -
  have v4: "is_blocked_v4 (safety_default\<lparr>so_allow_private := False\<rparr>) v
      \<and> \<not> is_blocked_v4 (safety_default\<lparr>so_allow_private := True\<rparr>) v
      \<longleftrightarrow> v4_loopback v \<or> v4_private v" for v
  proof (cases v)
    case (IPv4 a b c d)
    have high: "224 \<le> a \<Longrightarrow> a \<noteq> 10 \<and> a \<noteq> 127 \<and> a \<noteq> 172 \<and> a \<noteq> 192"
      by (intro conjI notI) (hypsubst, simp)+
    have "v4_loopback v \<or> v4_private v \<Longrightarrow>
        \<not> (v4_link_local v \<or> v4_multicast v \<or> v4_broadcast v \<or> v4_unspecified v
           \<or> v = IPv4 169 254 169 254 \<or> a = 0)"
      using high by (auto simp: IPv4 v4_broadcast_def v4_unspecified_def)
    then show ?thesis unfolding IPv4 is_blocked_v4_iff by auto
  qed
  show ?thesis
  proof (cases i)
    case (V4 v)
    with v4 show ?thesis by (simp add: is_http_private_or_loopback_def)
  next
    case (V6 v)
    have excl: "v6_loopback v \<or> v6_unique_local v \<Longrightarrow>
        \<not> (v6_multicast v \<or> v6_unspecified v \<or> is_ipv6_link_local v)"
      by (cases v) (auto simp: v6_loopback_def v6_unspecified_def
          seg_mask_div [unfolded power_numeral])
    have lb: "v6_loopback v \<Longrightarrow> \<not> is_ipv6_metadata v"
      by (auto simp: v6_loopback_def is_ipv6_metadata_def)
    show ?thesis
    proof (cases "embedded_ipv4 v")
      case None
      with V6 excl lb show ?thesis
        by (auto simp: is_http_private_or_loopback_def is_blocked_v6_def)
    next
      case (Some w)
      with V6 v4 [of w] show ?thesis
        by (simp add: is_http_private_or_loopback_def is_blocked_v6_def)
    qed
  qed
qed



end
