(* ===== verification/Json.thy ===== *)
theory Json
  imports Prelude "HOL-Library.AList" "HOL-Library.Word" "HOL-Library.Multiset" "HOL-Library.Char_ord" "HOL-Library.List_Lexorder"
begin

text \<open>
  JSON values as the code matches on them (\<open>serde_json::Value\<close>, built with
  \<open>preserve_order\<close>: an object is its entries in insertion order, keys distinct), the accessors
  the code calls, and the interface of a wire codec. The JSON text parser and printer are the
  library's and stay parameters wherever the code calls them.
\<close>

named_theorems codec_simps \<open>decoding what was encoded\<close>

section \<open>Values\<close>

datatype jnum = PosInt nat | NegInt int | Float "64 word"

datatype json =
    JNull
  | JBool bool
  | JNum jnum
  | JStr bytes
  | JArr "json list"
  | JObj "(bytes \<times> json) list"

fun as_str :: "json \<Rightarrow> bytes option" where
  "as_str (JStr s) = Some s"
| "as_str _ = None"

fun as_bool :: "json \<Rightarrow> bool option" where
  "as_bool (JBool b) = Some b"
| "as_bool _ = None"

fun as_array :: "json \<Rightarrow> json list option" where
  "as_array (JArr xs) = Some xs"
| "as_array _ = None"

fun as_object :: "json \<Rightarrow> (bytes \<times> json) list option" where
  "as_object (JObj m) = Some m"
| "as_object _ = None"

fun jget :: "bytes \<Rightarrow> json \<Rightarrow> json option" where
  "jget k (JObj m) = map_of m k"
| "jget k _ = None"

lemma as_str_Some [simp]: "as_str v = Some s \<longleftrightarrow> v = JStr s"
  by (cases v) auto

lemma as_object_Some [simp]: "as_object v = Some m \<longleftrightarrow> v = JObj m"
  by (cases v) auto

lemma as_array_Some [simp]: "as_array v = Some m \<longleftrightarrow> v = JArr m"
  by (cases v) auto

lemma jget_None_not_obj [simp]: "as_object v = None \<Longrightarrow> jget k v = None"
  by (cases v) auto

text \<open>
  Map operations: \<open>insert\<close> keeps the position of a present key, \<open>remove\<close> is \<open>swap_remove\<close>
  (the last entry takes the removed one's place).
\<close>

definition obj_insert :: "bytes \<Rightarrow> json \<Rightarrow> (bytes \<times> json) list \<Rightarrow> (bytes \<times> json) list" where
  "obj_insert = AList.update"

fun obj_remove :: "bytes \<Rightarrow> (bytes \<times> json) list \<Rightarrow> (bytes \<times> json) list" where
  "obj_remove k [] = []"
| "obj_remove k (p # ps) =
     (if fst p = k then (if ps = [] then [] else last ps # butlast ps)
      else p # obj_remove k ps)"

definition has_key :: "bytes \<Rightarrow> (bytes \<times> json) list \<Rightarrow> bool" where
  "has_key k m \<longleftrightarrow> map_of m k \<noteq> None"

lemma map_of_obj_insert [simp]: "map_of (obj_insert k v m) j = (if j = k then Some v else map_of m j)"
  by (simp add: obj_insert_def update_conv)

lemma distinct_obj_insert [simp]:
  "distinct (map fst m) \<Longrightarrow> distinct (map fst (obj_insert k v m))"
  by (simp add: obj_insert_def distinct_update)

lemma dom_obj_insert [simp]: "fst ` set (obj_insert k v m) = insert k (fst ` set m)"
  using dom_update [of k v m] by (simp add: obj_insert_def)

lemma set_obj_remove_subset: "set (obj_remove k m) \<subseteq> set m"
  by (induction k m rule: obj_remove.induct) (auto dest: in_set_butlastD)

lemma mset_last_butlast: "ps \<noteq> [] \<Longrightarrow> mset (last ps # butlast ps) = mset ps"
  using arg_cong [OF append_butlast_last_id, of ps mset] by (simp del: append_butlast_last_id)

lemma distinct_obj_remove [simp]:
  "distinct (map fst m) \<Longrightarrow> distinct (map fst (obj_remove k m))"
proof (induction k m rule: obj_remove.induct)
  case (2 k p ps)
  have "distinct (map fst (last ps # butlast ps))" if "ps \<noteq> []"
    using mset_eq_imp_distinct_iff
      [of "map fst (last ps # butlast ps)" "map fst ps"] mset_last_butlast [OF that] 2(2)
    by (metis distinct.simps(2) list.simps(9) mset_map)
  with 2 show ?case
    using set_obj_remove_subset [of k ps] by (auto simp del: map_butlast)
qed simp

lemma keys_obj_remove:
  "distinct (map fst m) \<Longrightarrow> set (obj_remove k m) = {p \<in> set m. fst p \<noteq> k}"
proof (induction k m rule: obj_remove.induct)
  case (2 k p ps)
  have "set (last ps # butlast ps) = set ps" if "ps \<noteq> []"
    using mset_last_butlast [OF that] by (rule mset_eq_setD)
  moreover have "q \<in> set ps \<Longrightarrow> fst q \<noteq> fst p" for q using "2.prems" by (metis distinct.simps(2) image_eqI list.simps(9) set_map)
  ultimately show ?case using 2 by (cases "fst p = k"; cases "ps = []") auto
qed simp

lemma map_of_obj_remove [simp]:
  "distinct (map fst m) \<Longrightarrow> map_of (obj_remove k m) j = (if j = k then None else map_of m j)"
proof -
  assume d: "distinct (map fst m)"
  have "map_of (obj_remove k m) j = Some v \<longleftrightarrow> (if j = k then None else map_of m j) = Some v" for v
    using d by (auto simp: map_of_eq_Some_iff keys_obj_remove)
  then show ?thesis by (metis not_Some_eq)
qed

section \<open>Codecs\<close>

definition jword :: "'a::len word \<Rightarrow> json" where
  "jword w = JNum (PosInt (unat w))"

fun as_word :: "json \<Rightarrow> 'a::len word option" where
  "as_word (JNum (PosInt n)) = (if n < 2 ^ LENGTH('a) then Some (of_nat n) else None)"
| "as_word _ = None"

lemma as_word_jword [codec_simps, simp]: "as_word (jword w) = Some w"
  by (simp add: jword_def)

fun as_list :: "(json \<Rightarrow> 'a option) \<Rightarrow> json \<Rightarrow> 'a list option" where
  "as_list d (JArr xs) = those (map d xs)"
| "as_list d _ = None"

fun as_pair :: "(json \<Rightarrow> 'a option) \<Rightarrow> (json \<Rightarrow> 'b option) \<Rightarrow> json \<Rightarrow> ('a \<times> 'b) option" where
  "as_pair da db (JArr [x, y]) = do { a \<leftarrow> da x; b \<leftarrow> db y; Some (a, b) }"
| "as_pair da db _ = None"

text \<open>A required field, an optional field (absent or \<open>null\<close> is \<open>None\<close>), and the key check.\<close>

definition req :: "(bytes \<times> json) list \<Rightarrow> bytes \<Rightarrow> (json \<Rightarrow> 'a option) \<Rightarrow> 'a option" where
  "req m k d = Option.bind (map_of m k) d"

definition opt :: "(bytes \<times> json) list \<Rightarrow> bytes \<Rightarrow> (json \<Rightarrow> 'a option) \<Rightarrow> 'a option option" where
  "opt m k d = (case map_of m k of None \<Rightarrow> Some None | Some JNull \<Rightarrow> Some None
                | Some v \<Rightarrow> map_option Some (d v))"

lemma opt_absent [simp]: "map_of m k = None \<Longrightarrow> opt m k d = Some None"
  by (simp add: opt_def)

lemma opt_present [simp]:
  "map_of m k = Some v \<Longrightarrow> v \<noteq> JNull \<Longrightarrow> opt m k d = map_option Some (d v)"
  by (simp add: opt_def split: json.splits)

definition only_keys :: "bytes list \<Rightarrow> (bytes \<times> json) list \<Rightarrow> bool" where
  "only_keys ks m \<longleftrightarrow> list_all (\<lambda>(k, _). k \<in> set ks) m"

definition opt_field :: "bytes \<Rightarrow> ('a \<Rightarrow> json) \<Rightarrow> 'a option \<Rightarrow> (bytes \<times> json) list" where
  "opt_field k e x = (case x of None \<Rightarrow> [] | Some a \<Rightarrow> [(k, e a)])"

lemma opt_field_simps [simp]: "opt_field k e None = []" "opt_field k e (Some a) = [(k, e a)]"
  by (simp_all add: opt_field_def)

lemma those_map_Some [simp]: "those (map (\<lambda>x. Some (f x)) xs) = Some (map f xs)"
  by (induction xs) auto

locale wire =
  fixes enc :: "'a \<Rightarrow> json" and dec :: "json \<Rightarrow> 'a option"
  assumes dec_enc: "dec (enc x) = Some x"
begin

lemma enc_inj: "enc x = enc y \<longleftrightarrow> x = y"
  by (metis dec_enc option.inject)

lemma as_list_enc: "as_list dec (JArr (map enc xs)) = Some xs"
  by (induction xs) (auto simp: dec_enc)

lemma req_enc: "map_of m k = Some (enc x) \<Longrightarrow> req m k dec = Some x"
  by (simp add: req_def dec_enc)

end

text \<open>A codec whose values never encode as \<open>null\<close> can stand in an optional field.\<close>

locale field_wire = wire +
  assumes enc_not_null: "enc x \<noteq> JNull"
begin

lemma opt_enc:
  "map_of m k = map_option enc x \<Longrightarrow> opt m k dec = Some x"
  using enc_not_null [of "the x"] dec_enc [of "the x"]
  by (cases x) (auto simp: opt_def split: json.splits)

end

interpretation str_wire: field_wire JStr as_str
  by unfold_locales simp_all

interpretation word_wire: field_wire "jword :: 'a::len word \<Rightarrow> json" as_word
  by unfold_locales (simp_all add: jword_def)

lemmas [codec_simps, simp] = str_wire.as_list_enc

end
