(* ===== verification/Ref_Store.thy ===== *)
theory Ref_Store
  imports Spec_Safety Json
begin

text \<open>
  Remote references (\<open>crates/mcp-gateway-compile/src/http.rs\<close> and \<open>refs.rs\<close>): the capped
  download, the retriever with its cache and budgets, JSON pointers, and the resolution of an
  OpenAPI object's \<open>$ref\<close>. The HTTP client, the file system, the URL parser and the JSON and YAML
  parsers are parameters; the retriever's state also records every request it makes.
\<close>

section \<open>The capped download (http.rs)\<close>

datatype download_error = Failed bytes | Too_Large

text \<open>
  What the client reports of one request: whether it was sent and answered, whether the status is
  a success, the announced length, the pieces of the body, and whether the body ended without an
  error.
\<close>

record http_reply =
  hr_sent :: bool
  hr_success :: bool
  hr_content_length :: "nat option"
  hr_chunks :: "bytes list"
  hr_complete :: bool

definition capped_write :: "nat \<Rightarrow> bytes \<Rightarrow> bytes \<Rightarrow> bytes option" where
  "capped_write cap buf data = (if cap < length buf + length data then None else Some (buf @ data))"

fun copy_to :: "nat \<Rightarrow> bytes \<Rightarrow> bytes list \<Rightarrow> bytes option" where
  "copy_to cap buf [] = Some buf"
| "copy_to cap buf (data # rest) =
     (case capped_write cap buf data of None \<Rightarrow> None | Some buf' \<Rightarrow> copy_to cap buf' rest)"

text \<open>The client gets \<open>https_only\<close>; redirects and proxies are off, so one call is one request.\<close>

definition download_capped ::
    "(bool \<Rightarrow> bytes \<Rightarrow> http_reply) \<Rightarrow> bytes \<Rightarrow> nat \<Rightarrow> bool \<Rightarrow> download_error + bytes" where
  "download_capped send url max_bytes allow_http =
     (let r = send (\<not> allow_http) url in
      if \<not> hr_sent r then Inl (Failed ''request'')
      else if \<not> hr_success r then Inl (Failed ''HTTP status'')
      else if (case hr_content_length r of Some len \<Rightarrow> max_bytes < len | None \<Rightarrow> False) then Inl Too_Large
      else case copy_to max_bytes [] (hr_chunks r) of
             None \<Rightarrow> Inl (Failed ''response exceeds size cap'')
           | Some buf \<Rightarrow> if hr_complete r then Inr buf else Inl (Failed ''body''))"

definition download_https_capped ::
    "(bool \<Rightarrow> bytes \<Rightarrow> http_reply) \<Rightarrow> bytes \<Rightarrow> nat \<Rightarrow> download_error + bytes" where
  "download_https_capped send url max_bytes = download_capped send url max_bytes False"

lemma copy_to_length: "copy_to cap buf cs = Some r \<Longrightarrow> length buf \<le> cap \<Longrightarrow> length r \<le> cap"
  by (induction cap buf cs rule: copy_to.induct) (auto simp: capped_write_def split: if_splits option.splits)

lemma download_capped_length: "download_capped send url cap h = Inr b \<Longrightarrow> length b \<le> cap"
  by (auto simp: download_capped_def Let_def split: if_splits option.splits dest: copy_to_length)

section \<open>The retriever (refs.rs)\<close>

definition REMOTE_FETCH_BUDGET :: "32 word" where [enum_defs]: "REMOTE_FETCH_BUDGET = 32"
definition REMOTE_BYTE_BUDGET :: nat where [enum_defs]: "REMOTE_BYTE_BUDGET = 8 * 1024 * 1024"
definition REF_CHAIN_DEPTH :: nat where [enum_defs]: "REF_CHAIN_DEPTH = 32"

datatype ref_error = Unresolved bytes | Budget | Ref_Safety safety_error

text \<open>
  The outside world: the answer to the \<open>n\<close>-th request, the reads of a file in order (a failed
  open is \<open>None\<close>, the flag tells whether the reads ended without an error), and the parsers.
\<close>

record ref_env =
  re_send :: "nat \<Rightarrow> bool \<Rightarrow> bytes \<Rightarrow> http_reply"
  re_open :: "bytes \<Rightarrow> (bytes list \<times> bool) option"
  re_file_path :: "bytes \<Rightarrow> bytes option"
  re_parse_url :: "bytes \<Rightarrow> bytes + url"
  re_lookup :: lookup
  re_safety :: safety_opts
  re_json :: "bytes \<Rightarrow> json option"
  re_yaml :: "bytes \<Rightarrow> json option"

record retriever =
  rt_cache :: "bytes \<rightharpoonup> json"
  rt_fetches :: "32 word"
  rt_bytes :: nat
  rt_log :: "bytes list"

definition retriever_new :: retriever where
  "retriever_new = \<lparr>rt_cache = Map.empty, rt_fetches = 0, rt_bytes = 0, rt_log = []\<rparr>"

definition split_url_frag :: "bytes \<Rightarrow> bytes \<times> bytes option" where
  "split_url_frag r = (case split_once (CHR ''#'') r of Some (u, f) \<Rightarrow> (u, Some f) | None \<Rightarrow> (r, None))"

definition parse_schema_bytes :: "ref_env \<Rightarrow> bytes \<Rightarrow> ref_error + json" where
  "parse_schema_bytes env b =
     (let parsed =
        (case dropWhile is_ascii_ws b of
           c # _ \<Rightarrow> if c = CHR ''{'' \<or> c = CHR ''['' then re_json env b else re_yaml env b
         | [] \<Rightarrow> re_yaml env b)
      in case parsed of
           None \<Rightarrow> Inl (Unresolved ''parse'')
         | Some v \<Rightarrow>
             if as_object v = None \<and> as_array v = None
             then Inl (Unresolved ''remote $ref did not parse as a JSON object or array'')
             else Inr v)"

text \<open>\<open>read_capped_file\<close>: an empty read ends the file.\<close>

fun read_chunks :: "nat \<Rightarrow> bytes \<Rightarrow> bytes list \<Rightarrow> bool \<Rightarrow> ref_error + bytes" where
  "read_chunks cap buf [] ok = (if ok then Inr buf else Inl (Unresolved ''read''))"
| "read_chunks cap buf (data # rest) ok =
     (if data = [] then Inr buf
      else if cap < length buf + length data then Inl Budget
      else read_chunks cap (buf @ data) rest ok)"

definition read_capped_file :: "ref_env \<Rightarrow> bytes \<Rightarrow> nat \<Rightarrow> ref_error + bytes" where
  "read_capped_file env path cap =
     (case re_open env path of
        None \<Rightarrow> Inl (Unresolved ''open'')
      | Some (chunks, ok) \<Rightarrow> read_chunks cap [] chunks ok)"

text \<open>The end of \<open>get\<close>: the bytes are charged, parsed and cached.\<close>

definition store :: "ref_env \<Rightarrow> bytes \<Rightarrow> bytes \<Rightarrow> retriever \<Rightarrow> (ref_error + json) \<times> retriever" where
  "store env url b rt =
     (let rt1 = rt\<lparr>rt_fetches := rt_fetches rt + 1, rt_bytes := rt_bytes rt + length b\<rparr> in
      if REMOTE_FETCH_BUDGET < rt_fetches rt1 \<or> REMOTE_BYTE_BUDGET < rt_bytes rt1 then (Inl Budget, rt1)
      else case parse_schema_bytes env b of
             Inl e \<Rightarrow> (Inl e, rt1)
           | Inr v \<Rightarrow> (Inr v, rt1\<lparr>rt_cache := (rt_cache rt1)(url \<mapsto> v)\<rparr>))"

definition get :: "ref_env \<Rightarrow> bytes \<Rightarrow> retriever \<Rightarrow> (ref_error + json) \<times> retriever" where
  "get env full rt =
     (let url = fst (split_url_frag full) in
      case rt_cache rt url of
        Some v \<Rightarrow> (Inr v, rt)
      | None \<Rightarrow>
          if REMOTE_FETCH_BUDGET \<le> rt_fetches rt \<or> REMOTE_BYTE_BUDGET \<le> rt_bytes rt then (Inl Budget, rt)
          else
            (let remaining = REMOTE_BYTE_BUDGET - rt_bytes rt;
                 rt1 = rt\<lparr>rt_log := rt_log rt @ [url]\<rparr>
             in if remaining = 0 then (Inl Budget, rt)
                else if starts_with url ''https://'' then
                  (case parse_https_url_with (re_parse_url env) (re_lookup env) url (re_safety env) of
                     Inl e \<Rightarrow> (Inl (Ref_Safety e), rt)
                   | Inr parsed \<Rightarrow>
                       (case resolve_and_check_with (re_lookup env) (re_safety env)
                               (case host_str parsed of Some h \<Rightarrow> h | None \<Rightarrow> []) of
                          Inl e \<Rightarrow> (Inl (Ref_Safety e), rt)
                        | Inr _ \<Rightarrow>
                            (case download_https_capped (re_send env (length (rt_log rt))) url remaining of
                               Inl Too_Large \<Rightarrow> (Inl Budget, rt1)
                             | Inl (Failed m) \<Rightarrow> (Inl (Unresolved m), rt1)
                             | Inr b \<Rightarrow> store env url b rt1)))
                else if starts_with url ''file:'' then
                  (case re_file_path env url of
                     None \<Rightarrow> (Inl (Unresolved url), rt)
                   | Some path \<Rightarrow>
                       (case read_capped_file env path remaining of
                          Inl e \<Rightarrow> (Inl e, rt1)
                        | Inr b \<Rightarrow> store env url b rt1))
                else (Inl (Unresolved url), rt)))"

section \<open>Pointers and references\<close>

definition unescape_token :: "bytes \<Rightarrow> bytes" where
  "unescape_token raw = replace_all ''~0'' ''~'' (replace_all ''~1'' ''/'' raw)"

definition pointer_step :: "bytes \<Rightarrow> json \<Rightarrow> json option" where
  "pointer_step key cur =
     (case cur of
        JObj m \<Rightarrow> map_of m key
      | JArr xs \<Rightarrow>
          (case parse_usize key of
             Some i \<Rightarrow> if i < length xs then Some (xs ! i) else None
           | None \<Rightarrow> None)
      | _ \<Rightarrow> None)"

fun pointer_walk :: "bytes list \<Rightarrow> json \<Rightarrow> json option" where
  "pointer_walk [] cur = Some cur"
| "pointer_walk (raw # rest) cur =
     (case pointer_step (unescape_token raw) cur of None \<Rightarrow> None | Some v \<Rightarrow> pointer_walk rest v)"

definition pointer :: "json \<Rightarrow> bytes \<Rightarrow> json option" where
  "pointer doc p =
     (if p = [] \<or> p = ''/'' then Some doc
      else pointer_walk (split_by (\<lambda>c. c = CHR ''/'') (dropWhile (\<lambda>c. c = CHR ''/'') p)) doc)"

definition ref_of :: "json \<Rightarrow> bytes option" where
  "ref_of v = Option.bind (jget ''$ref'' v) as_str"

text \<open>The target of a reference and the document its own references are relative to.\<close>

definition load_ref ::
    "ref_env \<Rightarrow> json \<Rightarrow> bytes \<Rightarrow> retriever \<Rightarrow> (ref_error + json \<times> json) \<times> retriever" where
  "load_ref env root r rt =
     (case strip_prefix ''#'' r of
        Some rest \<Rightarrow> (and_then (ok_or (Unresolved r) (pointer root rest)) (\<lambda>v. Inr (v, root)), rt)
      | None \<Rightarrow>
          if starts_with r ''https://'' \<or> starts_with r ''file:'' then
            (let (url, frag) = split_url_frag r; (res, rt') = get env url rt
             in (and_then res (\<lambda>remote.
                   case frag of
                     Some f \<Rightarrow> and_then (ok_or (Unresolved r) (pointer remote f)) (\<lambda>v. Inr (v, remote))
                   | None \<Rightarrow> Inr (remote, remote)), rt'))
          else (Inl (Unresolved r), rt))"

text \<open>The siblings of a \<open>$ref\<close> go over the object it names.\<close>

definition overlay :: "json \<Rightarrow> json \<Rightarrow> json" where
  "overlay value resolved =
     (case as_object value of
        None \<Rightarrow> resolved
      | Some obj \<Rightarrow>
          if 1 < length obj then
            (case resolved of
               JObj base \<Rightarrow> JObj (fold (\<lambda>(k, v) b. if k \<noteq> ''$ref'' then obj_insert k v b else b) obj base)
             | other \<Rightarrow> other)
          else resolved)"

function resolve_inner ::
    "ref_env \<Rightarrow> json \<Rightarrow> json \<Rightarrow> nat \<Rightarrow> bytes list \<Rightarrow> retriever \<Rightarrow> (ref_error + json) \<times> retriever" where
  "resolve_inner env root value depth visiting rt =
     (if REF_CHAIN_DEPTH < depth then (Inl (Unresolved ''max $ref depth''), rt)
      else case ref_of value of
        None \<Rightarrow> (Inr value, rt)
      | Some r \<Rightarrow>
          if r \<in> set visiting then (Inl (Unresolved (''cyclic $ref '' @ r)), rt)
          else
            (case load_ref env root r rt of
               (Inl e, rt') \<Rightarrow> (Inl e, rt')
             | (Inr (target, new_root), rt') \<Rightarrow>
                 (case resolve_inner env new_root target (depth + 1) (r # visiting) rt' of
                    (Inl e, rt'') \<Rightarrow> (Inl e, rt'')
                  | (Inr resolved, rt'') \<Rightarrow> (Inr (overlay value resolved), rt''))))"
  by pat_completeness auto
termination
  by (relation "measure (\<lambda>(env, root, value, depth, visiting, rt). Suc REF_CHAIN_DEPTH - depth)") auto

declare resolve_inner.simps [simp del]

definition resolve_openapi_object ::
    "ref_env \<Rightarrow> json \<Rightarrow> json \<Rightarrow> retriever \<Rightarrow> (ref_error + json) \<times> retriever" where
  "resolve_openapi_object env root value rt = resolve_inner env root value 0 [] rt"

section \<open>The budgets\<close>

definition within_budget :: "retriever \<Rightarrow> bool" where
  "within_budget rt \<longleftrightarrow>
     rt_fetches rt \<le> REMOTE_FETCH_BUDGET \<and> rt_bytes rt \<le> REMOTE_BYTE_BUDGET
     \<and> finite (dom (rt_cache rt)) \<and> card (dom (rt_cache rt)) \<le> unat (rt_fetches rt)
     \<and> list_all (\<lambda>u. starts_with u ''https://'' \<or> starts_with u ''file:'') (rt_log rt)"

lemma read_chunks_length: "read_chunks cap buf cs ok = Inr b \<Longrightarrow> length buf \<le> cap \<Longrightarrow> length b \<le> cap"
  by (induction cap buf cs ok rule: read_chunks.induct) (auto split: if_splits)

lemma fetches_succ: "n < REMOTE_FETCH_BUDGET \<Longrightarrow> unat (n + 1) = Suc (unat n) \<and> n + 1 \<le> REMOTE_FETCH_BUDGET"
proof -
  assume "n < REMOTE_FETCH_BUDGET"
  then have n: "unat n < 32" by (simp add: REMOTE_FETCH_BUDGET_def word_less_nat_alt)
  then have "unat (n + 1) = Suc (unat n)" by (simp add: unat_word_ariths)
  with n show ?thesis by (simp add: REMOTE_FETCH_BUDGET_def word_le_nat_alt)
qed

lemma store_budget:
  assumes "within_budget rt" "rt_fetches rt < REMOTE_FETCH_BUDGET"
    "length b \<le> REMOTE_BYTE_BUDGET - rt_bytes rt"
  shows "within_budget (snd (store env url b rt))"
proof -
  have f: "unat (rt_fetches rt + 1) = Suc (unat (rt_fetches rt))" "rt_fetches rt + 1 \<le> REMOTE_FETCH_BUDGET"
    using fetches_succ [OF assms(2)] by simp_all
  have "rt_bytes rt + length b \<le> REMOTE_BYTE_BUDGET" using assms(1,3) by (auto simp: within_budget_def)
  with assms(1) f show ?thesis
    by (auto simp: store_def Let_def within_budget_def card_insert_if split: sum.split)
qed

lemma log_budget:
  "within_budget rt \<Longrightarrow> starts_with u ''https://'' \<or> starts_with u ''file:'' \<Longrightarrow>
     within_budget (rt\<lparr>rt_log := rt_log rt @ [u]\<rparr>)"
  by (simp add: within_budget_def)

lemma get_budget:
  assumes "within_budget rt" shows "within_budget (snd (get env full rt))"
proof -
  let ?u = "fst (split_url_frag full)"
  let ?rt1 = "rt\<lparr>rt_log := rt_log rt @ [?u]\<rparr>"
  have st: "within_budget (snd (store env ?u b ?rt1))"
    if "\<not> REMOTE_FETCH_BUDGET \<le> rt_fetches rt" "length b \<le> REMOTE_BYTE_BUDGET - rt_bytes rt"
      "starts_with ?u ''https://'' \<or> starts_with ?u ''file:''" for b
    using store_budget [OF log_budget [OF assms that(3)]] that(1,2) by (simp add: linorder_not_le)
  have reads: "length b \<le> c" if "read_capped_file env p c = Inr b" for p c b
    using that by (auto simp: read_capped_file_def split: option.splits dest: read_chunks_length)
  show ?thesis
    using assms log_budget [OF assms, of ?u] st
    by (auto simp: get_def Let_def download_https_capped_def
        split: option.splits if_splits sum.splits download_error.splits
        dest!: download_capped_length reads)
qed

fun gets :: "ref_env \<Rightarrow> bytes list \<Rightarrow> retriever \<Rightarrow> retriever" where
  "gets env [] rt = rt"
| "gets env (u # us) rt = gets env us (snd (get env u rt))"

lemma gets_budget: "within_budget rt \<Longrightarrow> within_budget (gets env us rt)"
  by (induction us arbitrary: rt) (auto intro: get_budget)

lemma new_budget: "within_budget retriever_new"
  by (simp add: within_budget_def retriever_new_def)

lemma load_ref_budget: "within_budget rt \<Longrightarrow> within_budget (snd (load_ref env root r rt))"
proof -
  assume b: "within_budget rt"
  have "within_budget rt'" if "get env u rt = (res, rt')" for u res rt'
    using get_budget [OF b, of env u] that by simp
  with b show ?thesis by (auto simp: load_ref_def Let_def split: option.splits prod.splits)
qed

lemma resolve_budget: "within_budget rt \<Longrightarrow> within_budget (snd (resolve_inner env root value depth visiting rt))"
proof (induction env root "value" depth visiting rt rule: resolve_inner.induct)
  case (1 env root "value" depth visiting rt)
  show ?case
  proof (cases "REF_CHAIN_DEPTH < depth \<or> ref_of value = None \<or> (\<exists>r. ref_of value = Some r \<and> r \<in> set visiting)")
    case True
    with "1.prems" show ?thesis by (subst resolve_inner.simps) auto
  next
    case False
    then obtain r where r: "\<not> REF_CHAIN_DEPTH < depth" "ref_of value = Some r" "r \<notin> set visiting" by auto
    obtain res rt' where l: "load_ref env root r rt = (res, rt')" by fastforce
    with load_ref_budget [OF "1.prems", of env root r] have b: "within_budget rt'" by simp
    show ?thesis
    proof (cases res)
      case (Inl e)
      with r l b show ?thesis by (subst resolve_inner.simps) simp
    next
      case (Inr p)
      obtain target new_root where p: "p = (target, new_root)" by (cases p)
      with "1.IH" [OF r l [symmetric] Inr p [symmetric] b]
      show ?thesis using r l Inr by (subst resolve_inner.simps) (auto split: prod.split sum.split)
    qed
  qed
qed

section \<open>What resolution returns\<close>

lemma ref_of_obj [simp]: "ref_of (JObj m) = Option.bind (map_of m ''$ref'') as_str"
  by (simp add: ref_of_def)

lemma overlay_fold_ref:
  "map_of (fold (\<lambda>(k, v) b. if k \<noteq> ''$ref'' then obj_insert k v b else b) obj base) ''$ref'' = map_of base ''$ref''"
  by (induction obj arbitrary: base) (auto split: prod.split)

lemma overlay_ref: "ref_of (overlay value resolved) = ref_of resolved"
  by (cases resolved) (auto simp: overlay_def overlay_fold_ref split: option.split)

lemma resolve_no_ref:
  "fst (resolve_inner env root value depth visiting rt) = Inr v \<Longrightarrow> ref_of v = None"
proof (induction env root "value" depth visiting rt arbitrary: v rule: resolve_inner.induct)
  case (1 env root "value" depth visiting rt)
  show ?case
  proof (cases "ref_of value")
    case None
    with "1.prems" show ?thesis by (subst (asm) resolve_inner.simps) (auto split: if_splits)
  next
    case (Some r)
    with "1.prems" have d: "\<not> REF_CHAIN_DEPTH < depth" "r \<notin> set visiting"
      by (subst (asm) resolve_inner.simps; auto split: if_splits)+
    obtain res rt' where l: "load_ref env root r rt = (res, rt')" by fastforce
    from "1.prems" Some d l obtain p where Inr: "res = Inr p"
      by (subst (asm) resolve_inner.simps) (cases res; auto)
    obtain target new_root where p: "p = (target, new_root)" by (cases p)
    obtain q rt'' where s: "resolve_inner env new_root target (depth + 1) (r # visiting) rt' = (q, rt'')"
      by fastforce
    from "1.prems" Some d l Inr p s obtain w where w: "q = Inr w" "v = overlay value w"
      by (subst (asm) resolve_inner.simps) (cases q; auto)
    from "1.IH" [OF d(1) Some d(2) l [symmetric] Inr p [symmetric], of w] s w(1) have "ref_of w = None" by simp
    with w(2) show ?thesis by (simp add: overlay_ref)
  qed
qed

section \<open>Properties\<close>


lemma store_caches: "fst (store env url b rt) = Inr v \<Longrightarrow> rt_cache (snd (store env url b rt)) url = Some v"
  by (auto simp: store_def Let_def split: if_splits sum.splits)

text \<open>A document is fetched once: after a successful \<open>get\<close>, asking for the same document again,
  with any fragment, returns the same value and changes nothing: no request is made and no budget
  is charged.\<close>

theorem fetched_once:
  assumes "fst (get env u rt) = Inr v" "fst (split_url_frag u') = fst (split_url_frag u)"
  shows "get env u' (snd (get env u rt)) = (Inr v, snd (get env u rt))"
proof -
  have "rt_cache (snd (get env u rt)) (fst (split_url_frag u)) = Some v"
    using assms(1) by (auto simp: get_def Let_def store_caches
        split: if_splits option.splits sum.splits download_error.splits)
  with assms(2) show ?thesis by (simp add: get_def [of env u'] Let_def)
qed

definition sample_env :: "http_reply \<Rightarrow> ref_env" where
  "sample_env reply =
     \<lparr>re_send = (\<lambda>n s u. reply), re_open = (\<lambda>_. None), re_file_path = (\<lambda>_. None),
      re_parse_url = (\<lambda>_. Inr (https_url (Host_V4 (IPv4 93 184 216 34)))), re_lookup = (\<lambda>_. Inl []),
      re_safety = safety_default, re_json = (\<lambda>_. Some (JObj [(''type'', JStr ''string'')])),
      re_yaml = (\<lambda>_. None)\<rparr>"

definition sample_reply :: http_reply where
  "sample_reply = \<lparr>hr_sent = True, hr_success = True, hr_content_length = None,
     hr_chunks = [''{'', ''}''], hr_complete = True\<rparr>"

lemma sample_url_accepted:
  "parse_https_url_with (re_parse_url (sample_env r)) (re_lookup (sample_env r)) u (re_safety (sample_env r))
     = Inr (https_url (Host_V4 (IPv4 93 184 216 34)))"
  by (simp add: sample_env_def parse_https_url_with_def assert_scheme_def check_url_host_def
      https_url_def safety_default_def v4_broadcast_def v4_unspecified_def)

lemma sample_url_checked:
  "resolve_and_check_with (re_lookup (sample_env r)) (re_safety (sample_env r))
     (case host_str (https_url (Host_V4 (IPv4 93 184 216 34))) of Some h \<Rightarrow> h | None \<Rightarrow> []) = Inr ()"
  unfolding sample_env_def by code_simp

text \<open>A download that fails is never charged: when every request for \<open>https\<close> documents fails,
  whether it is refused or its body breaks the size cap, asking for any number of them makes one
  request each, and both counters and the cache stay as they were. The two budgets bound only the
  fetches that succeed.\<close>

theorem failed_downloads_uncharged:
  assumes failed: "\<forall>n. \<forall>u \<in> set us. \<exists>m. download_https_capped (re_send env n) u
        (REMOTE_BYTE_BUDGET - rt_bytes rt) = Inl (Failed m)"
    and accepted: "\<forall>u \<in> set us. starts_with u ''https://'' \<and> split_url_frag u = (u, None)
        \<and> (\<exists>p. parse_https_url_with (re_parse_url env) (re_lookup env) u (re_safety env) = Inr p
              \<and> resolve_and_check_with (re_lookup env) (re_safety env)
                   (case host_str p of Some h \<Rightarrow> h | None \<Rightarrow> []) = Inr ())"
    and room: "rt_fetches rt < REMOTE_FETCH_BUDGET" "rt_bytes rt < REMOTE_BYTE_BUDGET"
    and fresh: "\<forall>u \<in> set us. rt_cache rt u = None"
  shows "gets env us rt = rt\<lparr>rt_log := rt_log rt @ us\<rparr>"
  using failed accepted room fresh
proof (induction us arbitrary: rt)
  case (Cons u us)
  from Cons.prems(1) obtain m where
    "download_https_capped (re_send env (length (rt_log rt))) u (REMOTE_BYTE_BUDGET - rt_bytes rt)
       = Inl (Failed m)" by (meson list.set_intros(1))
  moreover from Cons.prems(2) obtain p where "starts_with u ''https://''" "split_url_frag u = (u, None)"
    "parse_https_url_with (re_parse_url env) (re_lookup env) u (re_safety env) = Inr p"
    "resolve_and_check_with (re_lookup env) (re_safety env)
       (case host_str p of Some h \<Rightarrow> h | None \<Rightarrow> []) = Inr ()" by auto
  moreover from Cons.prems(5) have "rt_cache rt u = None" by simp
  ultimately have "get env u rt = (Inl (Unresolved m), rt\<lparr>rt_log := rt_log rt @ [u]\<rparr>)"
    using Cons.prems(3,4) by (simp add: get_def Let_def linorder_not_le)
  with Cons.IH [of "rt\<lparr>rt_log := rt_log rt @ [u]\<rparr>"] Cons.prems show ?case by simp
qed simp

theorem failed_downloads_uncharged_witness:
  "let env = sample_env (sample_reply\<lparr>hr_success := False\<rparr>); u = ''https://93.184.216.34/a.json''
   in gets env (replicate 1000 u) retriever_new = retriever_new\<lparr>rt_log := replicate 1000 u\<rparr>"
proof -
  let ?r = "sample_reply\<lparr>hr_success := False\<rparr>"
  let ?u = "''https://93.184.216.34/a.json''"
  have d: "download_https_capped (re_send (sample_env ?r) n) ?u c = Inl (Failed ''HTTP status'')" for n c
    by (simp add: download_https_capped_def download_capped_def sample_env_def sample_reply_def)
  have s: "starts_with ?u ''https://''" "split_url_frag ?u = (?u, None)" by code_simp+
  have "gets (sample_env ?r) (replicate 1000 ?u) retriever_new
     = retriever_new\<lparr>rt_log := rt_log retriever_new @ replicate 1000 ?u\<rparr>"
    by (rule failed_downloads_uncharged)
      (use d s sample_url_accepted sample_url_checked in \<open>auto simp: retriever_new_def
         REMOTE_FETCH_BUDGET_def REMOTE_BYTE_BUDGET_def\<close>)
  then show ?thesis by (simp add: retriever_new_def Let_def)
qed

theorem fetched_once_witness:
  "let env = sample_env sample_reply; rt = snd (get env ''https://93.184.216.34/a#/x'' retriever_new)
   in get env ''https://93.184.216.34/a#/y'' rt = (Inr (JObj [(''type'', JStr ''string'')]), rt)"
proof -
  let ?env = "sample_env sample_reply"
  let ?u = "''https://93.184.216.34/a#/x''" let ?u' = "''https://93.184.216.34/a#/y''"
  have s: "split_url_frag ?u = (''https://93.184.216.34/a'', Some ''/x'')"
     "split_url_frag ?u' = (''https://93.184.216.34/a'', Some ''/y'')"
     "starts_with ''https://93.184.216.34/a'' ''https://''" by code_simp+
  have d: "download_https_capped (re_send ?env n) u REMOTE_BYTE_BUDGET = Inr ''{}''" for n u
    by (simp add: download_https_capped_def download_capped_def sample_env_def sample_reply_def
        capped_write_def REMOTE_BYTE_BUDGET_def)
  have p: "parse_schema_bytes ?env ''{}'' = Inr (JObj [(''type'', JStr ''string'')])"
    unfolding sample_env_def by code_simp
  have "fst (get ?env ?u retriever_new) = Inr (JObj [(''type'', JStr ''string'')])"
    using s d p sample_url_accepted [of sample_reply] sample_url_checked [of sample_reply]
    by (simp add: get_def Let_def retriever_new_def store_def REMOTE_FETCH_BUDGET_def
        REMOTE_BYTE_BUDGET_def)
  from fetched_once [OF this, of ?u'] s show ?thesis by (simp add: Let_def)
qed

text \<open>An object the resolver returns is never a reference itself: whatever chain of documents was
  followed, the result carries no textual \<open>$ref\<close> member, and the budgets still hold.\<close>

theorem resolved_object_has_no_ref:
  assumes "resolve_openapi_object env root value rt = (Inr v, rt')" "within_budget rt"
  shows "ref_of v = None \<and> within_budget rt'"
  using assms resolve_no_ref [of env root "value" 0 "[]" rt v] resolve_budget [of rt env root "value" 0 "[]"]
  by (simp add: resolve_openapi_object_def)

definition sample_doc :: json where
  "sample_doc = JObj [(''components'', JObj [(''a'', JObj [(''$ref'', JStr ''#/components/b'')]),
     (''b'', JObj [(''name'', JStr ''limit'')])])]"

lemma sample_resolution:
  "resolve_inner env sample_doc (JObj [(''$ref'', JStr ''#/components/a''), (''name'', JStr ''page'')]) 0 [] rt
     = (Inr (JObj [(''name'', JStr ''page'')]), rt)"
proof -
  have p: "pointer sample_doc ''/components/a'' = Some (JObj [(''$ref'', JStr ''#/components/b'')])"
    "pointer sample_doc ''/components/b'' = Some (JObj [(''name'', JStr ''limit'')])" by code_simp+
  show ?thesis
    by (subst resolve_inner.simps, simp add: load_ref_def p REF_CHAIN_DEPTH_def strip_prefix_def,
        subst resolve_inner.simps, simp add: load_ref_def p REF_CHAIN_DEPTH_def strip_prefix_def,
        subst resolve_inner.simps, simp add: REF_CHAIN_DEPTH_def overlay_def obj_insert_def)
qed

theorem resolved_object_has_no_ref_witness:
  "ref_of (JObj [(''name'', JStr ''page'')]) = None \<and> within_budget retriever_new"
  by (rule resolved_object_has_no_ref [of "sample_env sample_reply" sample_doc
        "JObj [(''$ref'', JStr ''#/components/a''), (''name'', JStr ''page'')]" retriever_new])
    (simp_all add: resolve_openapi_object_def sample_resolution new_budget)

text \<open>A relative reference is never followed: a \<open>$ref\<close> that is neither a fragment nor an
  \<open>https:\<close> or \<open>file:\<close> URL is unresolved, and no file is opened and no request is made for it.\<close>

theorem relative_reference_unresolved:
  assumes "ref_of value = Some r" "\<not> starts_with r ''#''" "\<not> starts_with r ''https://''"
    "\<not> starts_with r ''file:''"
  shows "resolve_openapi_object env root value rt = (Inl (Unresolved r), rt)"
  using assms by (simp add: resolve_openapi_object_def resolve_inner.simps load_ref_def
      strip_prefix_def REF_CHAIN_DEPTH_def split: option.split)

theorem relative_reference_unresolved_witness:
  "resolve_openapi_object (sample_env sample_reply) JNull (JObj [(''$ref'', JStr ''./pets.yaml#/Pet'')]) retriever_new
     = (Inl (Unresolved ''./pets.yaml#/Pet''), retriever_new)"
  by (rule relative_reference_unresolved) code_simp+

end
