(* ===== verification/Schema_Refs.thy ===== *)
theory Schema_Refs
  imports Ref_Store
begin

text \<open>
  Schema bundling (\<open>crates/mcp-gateway-compile/src/refs.rs\<close>): references are rewritten to
  \<open>#/$defs/\<close>, the definitions they name are collected from the document, and the bundled schema
  is checked for dangling references and for cycles. The bundler of the \<open>jsonschema\<close> crate and the
  iteration order of a hash set are parameters.
\<close>

section \<open>Rewriting\<close>

definition rewrite_ref_str :: "bytes \<Rightarrow> bytes" where
  "rewrite_ref_str r =
     (case strip_prefix ''#/components/schemas/'' r of
        Some rest \<Rightarrow> ''#/$defs/'' @ rest
      | None \<Rightarrow>
          (case strip_prefix ''#/definitions/'' r of
             Some rest \<Rightarrow> ''#/$defs/'' @ rest
           | None \<Rightarrow> r))"

fun rewrite_schema_refs :: "json \<Rightarrow> json"
  and rewrite_entries :: "(bytes \<times> json) list \<Rightarrow> (bytes \<times> json) list \<Rightarrow> (bytes \<times> json) list" where
  "rewrite_schema_refs (JObj m) = JObj (rewrite_entries m [])"
| "rewrite_schema_refs (JArr items) = JArr (map rewrite_schema_refs items)"
| "rewrite_schema_refs other = other"
| "rewrite_entries [] out = out"
| "rewrite_entries ((k, v) # rest) out =
     rewrite_entries rest
       (case (if k = ''$ref'' then as_str v else None) of
          Some s \<Rightarrow> obj_insert k (JStr (rewrite_ref_str s)) out
        | None \<Rightarrow>
            obj_insert (if k = ''definitions'' then ''$defs'' else k) (rewrite_schema_refs v) out)"

section \<open>The definitions a schema names\<close>

definition first_token :: "bytes \<Rightarrow> bytes" where
  "first_token rest = hd (split_by (\<lambda>c. c = CHR ''/'') rest)"

definition def_name :: "json \<Rightarrow> bytes set" where
  "def_name v =
     (case Option.bind (ref_of v) (strip_prefix ''#/$defs/'') of
        Some rest \<Rightarrow> if first_token rest \<noteq> [] then {unescape_token (first_token rest)} else {}
      | None \<Rightarrow> {})"

fun gather_def_names :: "json \<Rightarrow> bytes set" where
  "gather_def_names (JObj m) =
     def_name (JObj m) \<union> (\<Union>v \<in> set (map snd m). gather_def_names v)"
| "gather_def_names (JArr items) = (\<Union>v \<in> set items. gather_def_names v)"
| "gather_def_names _ = {}"

text \<open>\<open>Value::pointer\<close> (RFC 6901): an index has no sign and no leading zero.\<close>

definition parse_index :: "bytes \<Rightarrow> nat option" where
  "parse_index s =
     (if starts_with s ''+'' \<or> (starts_with s ''0'' \<and> length s \<noteq> 1) then None else parse_usize s)"

definition json_step :: "bytes \<Rightarrow> json \<Rightarrow> json option" where
  "json_step key cur =
     (case cur of
        JObj m \<Rightarrow> map_of m key
      | JArr xs \<Rightarrow>
          (case parse_index key of
             Some i \<Rightarrow> if i < length xs then Some (xs ! i) else None
           | None \<Rightarrow> None)
      | _ \<Rightarrow> None)"

fun json_walk :: "bytes list \<Rightarrow> json \<Rightarrow> json option" where
  "json_walk [] cur = Some cur"
| "json_walk (raw # rest) cur =
     (case json_step (unescape_token raw) cur of None \<Rightarrow> None | Some v \<Rightarrow> json_walk rest v)"

definition json_pointer :: "bytes \<Rightarrow> json \<Rightarrow> json option" where
  "json_pointer p doc =
     (if p = [] then Some doc
      else if \<not> starts_with p ''/'' then None
      else json_walk (tl (split_by (\<lambda>c. c = CHR ''/'') p)) doc)"

definition encode_name :: "bytes \<Rightarrow> bytes" where
  "encode_name n = replace_all ''/'' ''~1'' (replace_all ''~'' ''~0'' n)"

definition find_component :: "json \<Rightarrow> bytes \<Rightarrow> json option" where
  "find_component doc n =
     (case json_pointer (''/components/schemas/'' @ encode_name n) doc of
        Some v \<Rightarrow> Some v
      | None \<Rightarrow> json_pointer (''/definitions/'' @ encode_name n) doc)"

section \<open>A name survives the pointer\<close>

lemma replace_all_char [simp]: "replace_all [a] t s = concat (map (\<lambda>c. if c = a then t else [c]) s)"
  by (induction "[a]" t s rule: replace_all.induct) auto

lemma encode_name_Cons [simp]:
  "encode_name [] = []"
  "encode_name (c # cs) =
     (if c = CHR ''~'' then ''~0'' else if c = CHR ''/'' then ''~1'' else [c]) @ encode_name cs"
  by (simp_all add: encode_name_def)

lemma encode_no_slash: "CHR ''/'' \<notin> set (encode_name n)"
  by (induction n) auto

lemma replace_one: "replace_all ''~1'' ''/'' (encode_name n) = replace_all ''~'' ''~0'' n"
proof (induction n)
  case (Cons c cs)
  then show ?case by (cases "c = CHR ''~''"; cases "c = CHR ''/''") simp_all
qed simp

lemma replace_zero: "replace_all ''~0'' ''~'' (replace_all ''~'' ''~0'' n) = n"
  by (induction n) auto

lemma unescape_encode: "unescape_token (encode_name n) = n"
  by (simp only: unescape_token_def replace_one replace_zero)

lemma split_by_no_slash: "CHR ''/'' \<notin> set s \<Longrightarrow> split_by (\<lambda>c. c = CHR ''/'') s = [s]"
  by (rule split_by_single) (auto simp: list_all_iff)

lemma component_pointer:
  "find_component doc n =
     (case Option.bind (Option.bind (json_step ''components'' doc) (json_step ''schemas'')) (json_step n) of
        Some v \<Rightarrow> Some v
      | None \<Rightarrow> Option.bind (json_step ''definitions'' doc) (json_step n))"
proof -
  have t: "unescape_token ''components'' = ''components''" "unescape_token ''schemas'' = ''schemas''"
    "unescape_token ''definitions'' = ''definitions''" by code_simp+
  show ?thesis
    by (simp add: find_component_def json_pointer_def split_by_no_slash encode_no_slash t
        unescape_encode split: option.split)
qed

lemma read_nat_grows: "1 \<le> a \<Longrightarrow> a + length ds \<le> read_nat a ds"
proof (induction ds arbitrary: a)
  case (Cons d ds)
  have "1 \<le> 10 * a + (of_char d - 48)" "a + 1 \<le> 10 * a + (of_char d - 48)" using Cons.prems by simp_all
  with Cons.IH [of "10 * a + (of_char d - 48)"] show ?case by simp
qed simp

lemma parse_index_length: "parse_index s = Some i \<Longrightarrow> length s \<le> Suc i"
proof -
  assume p: "parse_index s = Some i"
  then obtain c cs where s: "s = c # cs" by (cases s) (auto simp: parse_index_def parse_usize_def)
  with p have c: "c \<noteq> CHR ''+''" "c = CHR ''0'' \<longrightarrow> cs = []" "is_digit c" "i = read_nat 0 (c # cs)"
    by (auto simp: parse_index_def parse_usize_def Let_def split: if_splits)
  show ?thesis
  proof (cases "c = CHR ''0''")
    case False
    then have "(of_char c :: nat) \<noteq> of_char CHR ''0''" by (simp only: of_char_eq_iff) simp
    then have "(of_char c :: nat) \<noteq> 48" by simp
    with c(3) have "1 \<le> (of_char c :: nat) - 48" unfolding is_digit_def by arith
    from read_nat_grows [OF this, of cs] c(4) s show ?thesis by simp
  qed (use c s in simp)
qed

lemma finite_short: "finite {n :: bytes. length n \<le> k}"
  using finite_lists_length_le [of "UNIV :: char set" k] by simp

lemma finite_step: "finite {n. json_step n v \<noteq> None}"
proof (cases v)
  case (JArr xs)
  have "length n \<le> Suc (length xs)" if "json_step n v \<noteq> None" for n
    using that JArr by (auto simp: json_step_def split: option.splits if_splits dest: parse_index_length)
  then show ?thesis by (rule finite_subset [OF _ finite_short, OF subsetI, OF CollectI]) simp
next
  case (JObj m)
  then show ?thesis using finite_dom_map_of [of m] by (simp add: json_step_def dom_def)
qed (simp_all add: json_step_def)

lemma finite_components: "finite {n. find_component doc n \<noteq> None}"
proof -
  let ?a = "Option.bind (json_step ''components'' doc) (json_step ''schemas'')"
  let ?b = "json_step ''definitions'' doc"
  have fin: "finite {n. Option.bind x (json_step n) \<noteq> None}" for x
    using finite_step by (cases x) (auto simp del: not_None_eq)
  have "{n. find_component doc n \<noteq> None}
      \<subseteq> {n. Option.bind ?a (json_step n) \<noteq> None} \<union> {n. Option.bind ?b (json_step n) \<noteq> None}"
    by (auto simp: component_pointer split: option.splits)
  with fin show ?thesis by (meson finite_UnI finite_subset)
qed

section \<open>Collecting the definitions\<close>

text \<open>
  \<open>order\<close> is the iteration order of a hash set, the stack is a vector with its top first. A name
  the document does not define is dropped.
\<close>

lemma finite_less: "finite S \<Longrightarrow> x \<in> S \<Longrightarrow> x \<notin> T \<Longrightarrow> card (S - insert x T) < card (S - T)"
  by (intro psubset_card_mono) auto

function needed_defs ::
    "(bytes set \<Rightarrow> bytes list) \<Rightarrow> json \<Rightarrow> bytes list \<Rightarrow> (bytes \<times> json) list \<Rightarrow> (bytes \<times> json) list" where
  "needed_defs order doc [] defs = defs"
| "needed_defs order doc (name # stack) defs =
     (if has_key name defs then needed_defs order doc stack defs
      else case find_component doc name of
        None \<Rightarrow> needed_defs order doc stack defs
      | Some source \<Rightarrow>
          (let rewritten = rewrite_schema_refs source;
               nested = filter (\<lambda>n. \<not> has_key n defs \<and> n \<noteq> name) (order (gather_def_names rewritten))
           in needed_defs order doc (rev nested @ stack) (obj_insert name rewritten defs)))"
  by pat_completeness auto
termination
proof (relation "inv_image (less_than <*lex*> less_than) (\<lambda>(order, doc, stack, defs).
    (card ({n. find_component doc n \<noteq> None} - {n. has_key n defs}), length stack))", goal_cases)
  case (4 order doc name stack defs source rewritten nested)
  have "{n. has_key n (obj_insert name rewritten defs)} = insert name {n. has_key n defs}"
    by (auto simp: has_key_def)
  with 4 finite_less [OF finite_components, of name doc "{n. has_key n defs}"] show ?case by simp
qed auto

definition collect_needed_defs ::
    "(bytes set \<Rightarrow> bytes list) \<Rightarrow> json \<Rightarrow> json \<Rightarrow> (bytes \<times> json) list" where
  "collect_needed_defs order doc schema =
     needed_defs order doc (rev (order (gather_def_names schema))) []"

lemma finite_gather [simp]: "finite (gather_def_names v)"
proof (induction v rule: gather_def_names.induct)
  case (1 m)
  then show ?case by (auto simp: def_name_def split: option.split)
qed auto

text \<open>The names a schema needs, directly or through the definitions of the document.\<close>

inductive wanted :: "json \<Rightarrow> json \<Rightarrow> bytes \<Rightarrow> bool" for doc schema where
  root: "n \<in> gather_def_names schema \<Longrightarrow> wanted doc schema n"
| step: "\<lbrakk>wanted doc schema m; find_component doc m = Some source;
    n \<in> gather_def_names (rewrite_schema_refs source)\<rbrakk> \<Longrightarrow> wanted doc schema n"

abbreviation component_def :: "json \<Rightarrow> bytes \<Rightarrow> json option" where
  "component_def doc n \<equiv> map_option rewrite_schema_refs (find_component doc n)"

definition hash_order :: "(bytes set \<Rightarrow> bytes list) \<Rightarrow> bool" where
  "hash_order order \<longleftrightarrow> (\<forall>S. finite S \<longrightarrow> set (order S) = S)"

lemma needed_sound:
  assumes "hash_order order" "\<forall>n \<in> set stack. wanted doc schema n"
    "\<forall>k v. map_of defs k = Some v \<longrightarrow> wanted doc schema k \<and> component_def doc k = Some v"
  shows "map_of (needed_defs order doc stack defs) k = Some v \<Longrightarrow>
    wanted doc schema k \<and> component_def doc k = Some v"
  using assms
proof (induction order doc stack defs rule: needed_defs.induct)
  case (2 order doc name stack defs)
  show ?case
  proof (cases "has_key name defs \<or> find_component doc name = None")
    case True
    with 2 show ?thesis by (cases "has_key name defs") auto
  next
    case False
    then obtain source where src: "\<not> has_key name defs" "find_component doc name = Some source" by auto
    let ?r = "rewrite_schema_refs source"
    let ?new = "filter (\<lambda>n. \<not> has_key n defs \<and> n \<noteq> name) (order (gather_def_names ?r))"
    have w: "wanted doc schema name" using "2.prems" by simp
    have s: "\<forall>n \<in> set (rev ?new @ stack). wanted doc schema n"
      using "2.prems"(2,3) wanted.step [OF w src(2)] by (auto simp: hash_order_def)
    have d: "\<forall>k v. map_of (obj_insert name ?r defs) k = Some v \<longrightarrow>
        wanted doc schema k \<and> component_def doc k = Some v"
      using "2.prems"(4) w src(2) by simp
    from "2.prems"(1) src
    have "map_of (needed_defs order doc (rev ?new @ stack) (obj_insert name ?r defs)) k = Some v"
      by (simp add: Let_def)
    from "2.IH"(3) [OF src refl refl this "2.prems"(2) s d] show ?thesis .
  qed
qed simp

definition named_in :: "bytes set \<Rightarrow> (bytes \<times> json) list \<Rightarrow> bytes \<Rightarrow> bool" where
  "named_in G defs n \<longleftrightarrow> n \<in> G \<or> (\<exists>k v. map_of defs k = Some v \<and> n \<in> gather_def_names v)"

lemma needed_complete:
  assumes "hash_order order"
    "\<forall>n. named_in G defs n \<longrightarrow>
       find_component doc n = None \<or> has_key n defs \<or> n \<in> set stack"
  shows "named_in G (needed_defs order doc stack defs) n \<Longrightarrow>
     find_component doc n = None \<or> has_key n (needed_defs order doc stack defs)"
  using assms
proof (induction order doc stack defs arbitrary: n rule: needed_defs.induct)
  case (2 order doc name stack defs)
  show ?case
  proof (cases "has_key name defs \<or> find_component doc name = None")
    case True
    with "2.prems"(3)
    have "\<forall>n. named_in G defs n \<longrightarrow>
       find_component doc n = None \<or> has_key n defs \<or> n \<in> set stack" by auto
    with True "2.prems"(1,2) "2.IH"(1,2) show ?thesis by (cases "has_key name defs") auto
  next
    case False
    then obtain source where src: "\<not> has_key name defs" "find_component doc name = Some source" by auto
    let ?r = "rewrite_schema_refs source"
    let ?new = "filter (\<lambda>n. \<not> has_key n defs \<and> n \<noteq> name) (order (gather_def_names ?r))"
    let ?defs = "obj_insert name ?r defs"
    have nested: "set (order (gather_def_names ?r)) = gather_def_names ?r"
      using "2.prems"(2) by (simp add: hash_order_def)
    have inv: "\<forall>n. named_in G ?defs n \<longrightarrow>
       find_component doc n = None \<or> has_key n ?defs \<or> n \<in> set (rev ?new @ stack)"
    proof (intro allI impI)
      fix n
      assume "named_in G ?defs n"
      then consider "n \<in> gather_def_names ?r"
        | "named_in G defs n"
        by (auto simp: named_in_def split: if_splits)
      then show "find_component doc n = None \<or> has_key n ?defs \<or> n \<in> set (rev ?new @ stack)"
        by cases (use "2.prems"(3) nested in \<open>auto simp: has_key_def\<close>)
    qed
    have eq: "needed_defs order doc (name # stack) defs = needed_defs order doc (rev ?new @ stack) ?defs"
      using src by (simp add: Let_def)
    from "2.IH"(3) [OF src refl refl _ "2.prems"(2) inv] "2.prems"(1) show ?thesis unfolding eq .
  qed
qed auto

text \<open>C31: a bundled schema gets exactly the definitions it needs: a name is defined when the schema
  names it, directly or through the definitions of the document, and the document has it; the
  definition is the document's, its references rewritten. The order a hash set is iterated in
  makes no difference.\<close>

theorem needed_definitions_exact:
  assumes "hash_order order"
  shows "map_of (collect_needed_defs order doc schema) n =
    (if wanted doc schema n then map_option rewrite_schema_refs (find_component doc n) else None)"
proof -
  let ?defs = "collect_needed_defs order doc schema"
  have roots: "set (order (gather_def_names schema)) = gather_def_names schema"
    using assms by (simp add: hash_order_def)
  have sound: "wanted doc schema k \<and> component_def doc k = Some v" if "map_of ?defs k = Some v" for k v
    by (rule needed_sound [OF assms _ _ that [unfolded collect_needed_defs_def]])
      (auto simp: roots intro: wanted.root)
  have closed: "find_component doc n = None \<or> has_key n ?defs"
    if "named_in (gather_def_names schema) ?defs n" for n
    unfolding collect_needed_defs_def
    by (rule needed_complete [OF assms, where G = "gather_def_names schema"])
      (use that roots in \<open>auto simp: collect_needed_defs_def named_in_def\<close>)
  have complete: "find_component doc n = None \<or> has_key n ?defs" if "wanted doc schema n" for n
    using that
  proof cases
    case root
    then show ?thesis by (intro closed) (simp add: named_in_def)
  next
    case (step m source)
    from step(1) have "find_component doc m = None \<or> has_key m ?defs"
    proof (induction)
      case (root n)
      then show ?case by (intro closed) (simp add: named_in_def)
    next
      case (step m source n)
      then have "has_key m ?defs" by simp
      then obtain v where v: "map_of ?defs m = Some v" by (auto simp: has_key_def)
      with sound [OF v] step.hyps v show ?case by (intro closed) (auto simp: named_in_def)
    qed
    with step(2) obtain v where v: "map_of ?defs m = Some v" by (auto simp: has_key_def)
    with sound [OF v] step(2,3) v show ?thesis by (intro closed) (auto simp: named_in_def)
  qed
  show ?thesis
  proof (cases "map_of ?defs n")
    case None
    with complete [of n] show ?thesis by (auto simp: has_key_def)
  next
    case (Some v)
    from sound [OF Some] Some show ?thesis by auto
  qed
qed

definition pets_doc :: json where
  "pets_doc = JObj [(''components'', JObj [(''schemas'', JObj
     [(''Pet'', JObj [(''items'', JObj [(''$ref'', JStr ''#/components/schemas/Tag'')])]),
      (''Tag'', JObj [(''type'', JStr ''string'')]), (''Store'', JObj [])])])]"

theorem needed_definitions_exact_witness:
  "map_of (collect_needed_defs sorted_list_of_set pets_doc (JObj [(''$ref'', JStr ''#/$defs/Pet'')])) ''Tag''
     = Some (JObj [(''type'', JStr ''string'')])"
proof -
  let ?s = "JObj [(''$ref'', JStr ''#/$defs/Pet'')]"
  have g: "gather_def_names ?s = {''Pet''}"
    "find_component pets_doc ''Pet'' = Some (JObj [(''items'', JObj [(''$ref'', JStr ''#/components/schemas/Tag'')])])"
    "''Tag'' \<in> gather_def_names (rewrite_schema_refs (JObj [(''items'', JObj [(''$ref'', JStr ''#/components/schemas/Tag'')])]))"
    "component_def pets_doc ''Tag'' = Some (JObj [(''type'', JStr ''string'')])" by code_simp+
  have "wanted pets_doc ?s ''Pet''" by (rule wanted.root) (simp only: g(1) insertI1)
  then have w: "wanted pets_doc ?s ''Tag''" by (rule wanted.step [OF _ g(2,3)])
  show ?thesis
    by (subst needed_definitions_exact) (simp_all add: hash_order_def w g(4))
qed

section \<open>Rewritten schemas\<close>

definition legacy_ref :: "bytes \<Rightarrow> bool" where
  "legacy_ref r \<longleftrightarrow> starts_with r ''#/components/schemas/'' \<or> starts_with r ''#/definitions/''"

fun no_legacy_refs :: "json \<Rightarrow> bool" where
  "no_legacy_refs (JObj m) \<longleftrightarrow>
     (case ref_of (JObj m) of Some r \<Rightarrow> \<not> legacy_ref r | None \<Rightarrow> True) \<and> (\<forall>v \<in> set (map snd m). no_legacy_refs v)"
| "no_legacy_refs (JArr items) \<longleftrightarrow> (\<forall>v \<in> set items. no_legacy_refs v)"
| "no_legacy_refs _ \<longleftrightarrow> True"

lemma rewritten_not_legacy: "\<not> legacy_ref (rewrite_ref_str r)"
  by (auto simp: rewrite_ref_str_def legacy_ref_def strip_prefix_def split: option.splits if_splits)

lemma set_obj_insert: "set (obj_insert k v m) \<subseteq> insert (k, v) (set m)"
  by (induction m) (auto simp: obj_insert_def)

lemma as_str_rewrite: "as_str v = None \<Longrightarrow> as_str (rewrite_schema_refs v) = None"
  by (cases v) auto

lemma no_legacy_insert:
  assumes "no_legacy_refs (JObj m)" "no_legacy_refs v"
    "k = ''$ref'' \<Longrightarrow> (case as_str v of Some r \<Rightarrow> \<not> legacy_ref r | None \<Rightarrow> True)"
  shows "no_legacy_refs (JObj (obj_insert k v m))"
proof -
  have "\<forall>w \<in> set (map snd (obj_insert k v m)). no_legacy_refs w"
    using assms(1,2) by (auto dest!: subsetD [OF set_obj_insert])
  then show ?thesis using assms by simp
qed

text \<open>A rewritten schema points nowhere else: after the rewriting no object of the schema refers
  to \<open>#/components/schemas/\<close> or to \<open>#/definitions/\<close>, at any depth.\<close>

theorem rewriting_leaves_no_component_refs:
  "no_legacy_refs (rewrite_schema_refs v)"
proof -
  have "no_legacy_refs (rewrite_schema_refs v)"
    and "no_legacy_refs (JObj out) \<Longrightarrow> no_legacy_refs (JObj (rewrite_entries m out))" for m out
  proof (induction v and m out rule: rewrite_schema_refs_rewrite_entries.induct)
    case (1 m)
    then show ?case by simp
  next
    case (5 k v rest out)
    let ?out = "case (if k = ''$ref'' then as_str v else None) of
          Some s \<Rightarrow> obj_insert k (JStr (rewrite_ref_str s)) out
        | None \<Rightarrow> obj_insert (if k = ''definitions'' then ''$defs'' else k) (rewrite_schema_refs v) out"
    have "no_legacy_refs (JObj ?out)"
    proof (cases "if k = ''$ref'' then as_str v else None")
      case None
      with "5.IH"(1) have v: "no_legacy_refs (rewrite_schema_refs v)" by simp
      from None as_str_rewrite [of v] have "k = ''$ref'' \<Longrightarrow> as_str (rewrite_schema_refs v) = None" by simp
      with None v "5.prems" show ?thesis by (auto intro!: no_legacy_insert simp del: no_legacy_refs.simps)
    next
      case (Some s)
      with "5.prems" show ?thesis
        by (auto intro!: no_legacy_insert simp: rewritten_not_legacy simp del: no_legacy_refs.simps(1))
    qed
    with "5.IH"(2) [OF this] show ?case by (simp del: no_legacy_refs.simps)
  qed simp_all
  then show ?thesis by blast
qed

section \<open>Cycles\<close>

definition own_def_ref :: "json \<Rightarrow> bytes list" where
  "own_def_ref v =
     (case Option.bind (ref_of v) (strip_prefix ''#/$defs/'') of
        Some n \<Rightarrow> [first_token n]
      | None \<Rightarrow> [])"

fun collect_def_refs :: "json \<Rightarrow> bytes list" where
  "collect_def_refs (JObj m) = own_def_ref (JObj m) @ concat (map (\<lambda>p. collect_def_refs (snd p)) m)"
| "collect_def_refs (JArr items) = concat (map collect_def_refs items)"
| "collect_def_refs _ = []"

type_synonym ref_graph = "(bytes \<times> bytes list) list"

text \<open>
  The depth-first search, with the sets \<open>visiting\<close> and \<open>seen\<close> passed through. The fuel bounds
  the depth of the recursion; \<open>None\<close> is running out of it.
\<close>

fun dfs_cycle :: "nat \<Rightarrow> ref_graph \<Rightarrow> bytes \<Rightarrow> bytes set \<Rightarrow> bytes set \<Rightarrow> (bool \<times> bytes set \<times> bytes set) option"
  and dfs_edges :: "nat \<Rightarrow> ref_graph \<Rightarrow> bytes list \<Rightarrow> bytes set \<Rightarrow> bytes set \<Rightarrow> (bool \<times> bytes set \<times> bytes set) option"
  where
  "dfs_cycle fuel graph node visiting seen =
     (if node \<in> visiting then Some (True, visiting, seen)
      else if node \<in> seen then Some (False, visiting, seen)
      else case fuel of
        0 \<Rightarrow> None
      | Suc n \<Rightarrow>
          (case dfs_edges n graph (case map_of graph node of Some es \<Rightarrow> es | None \<Rightarrow> [])
                  (insert node visiting) (insert node seen) of
             None \<Rightarrow> None
           | Some (b, vis, sn) \<Rightarrow>
               if b then Some (True, vis, sn) else Some (False, vis - {node}, sn)))"
| "dfs_edges fuel graph [] visiting seen = Some (False, visiting, seen)"
| "dfs_edges fuel graph (next # edges) visiting seen =
     (case dfs_cycle fuel graph next visiting seen of
        None \<Rightarrow> None
      | Some (b, vis, sn) \<Rightarrow> if b then Some (True, vis, sn) else dfs_edges fuel graph edges vis sn)"

declare dfs_cycle.simps [simp del]

definition def_graph :: "(bytes \<times> json) list \<Rightarrow> ref_graph" where
  "def_graph defs = map (\<lambda>(n, d). (n, collect_def_refs d)) defs"

definition graph_nodes :: "ref_graph \<Rightarrow> bytes list" where
  "graph_nodes graph = map fst graph @ concat (map snd graph)"

definition defs_have_cycle :: "json \<Rightarrow> bool option" where
  "defs_have_cycle schema =
     (case Option.bind (jget ''$defs'' schema) as_object of
        None \<Rightarrow> Some False
      | Some defs \<Rightarrow>
          (let graph = def_graph defs;
               fuel = Suc (length (graph_nodes graph));
               found = map (\<lambda>start. map_option fst (dfs_cycle fuel graph start {} {})) (map fst graph)
           in if None \<in> set found then None else Some (Some True \<in> set found)))"

definition edge :: "ref_graph \<Rightarrow> (bytes \<times> bytes) set" where
  "edge graph = {(a, b). \<exists>es. map_of graph a = Some es \<and> b \<in> set es}"

text \<open>The finished nodes, seen and no longer visited, are closed under the edges and on no cycle.\<close>

definition search_state :: "ref_graph \<Rightarrow> bytes set \<Rightarrow> bytes set \<Rightarrow> bool" where
  "search_state graph visiting seen \<longleftrightarrow>
     visiting \<subseteq> seen \<and> edge graph `` (seen - visiting) \<subseteq> seen - visiting
     \<and> (\<forall>x \<in> seen - visiting. (x, x) \<notin> (edge graph)\<^sup>+)"

lemma enter_node:
  "search_state graph visiting seen \<Longrightarrow> node \<notin> seen \<Longrightarrow>
     search_state graph (insert node visiting) (insert node seen)"
proof -
  assume a: "search_state graph visiting seen" "node \<notin> seen"
  then have "insert node seen - insert node visiting = seen - visiting"
    by (auto simp: search_state_def)
  with a show ?thesis by (auto simp: search_state_def)
qed

lemma closed_reach: "E `` F \<subseteq> F \<Longrightarrow> (x, y) \<in> E\<^sup>+ \<Longrightarrow> x \<in> F \<Longrightarrow> y \<in> F"
  by (erule trancl_induct) auto

lemma leave_node:
  assumes "search_state graph (insert node visiting) seen" "node \<notin> visiting"
    "\<And>m. (node, m) \<in> edge graph \<Longrightarrow> m \<in> seen - insert node visiting"
  shows "search_state graph visiting seen \<and> node \<in> seen - visiting"
proof -
  let ?F = "seen - insert node visiting"
  have F: "seen - visiting = insert node ?F" using assms(1,2) by (auto simp: search_state_def)
  have closed: "edge graph `` ?F \<subseteq> ?F" using assms(1) by (simp add: search_state_def)
  have "(node, node) \<notin> (edge graph)\<^sup>+"
  proof
    assume "(node, node) \<in> (edge graph)\<^sup>+"
    then obtain m where m: "(node, m) \<in> edge graph" "(m, node) \<in> (edge graph)\<^sup>*" by (meson tranclD)
    with assms(3) have "m \<in> ?F" "m \<noteq> node" by auto
    with m(2) closed_reach [OF closed, of m node] show False by (auto simp: rtrancl_eq_or_trancl)
  qed
  with assms F show ?thesis by (auto simp: search_state_def)
qed

text \<open>The search answers, with fuel for every node not seen yet; it says whether there is a cycle.\<close>

definition answers ::
    "ref_graph \<Rightarrow> bytes set \<Rightarrow> bytes set \<Rightarrow> bytes set \<Rightarrow> (bool \<times> bytes set \<times> bytes set) option \<Rightarrow> bool" where
  "answers graph targets visiting seen r \<longleftrightarrow>
     (case r of
        None \<Rightarrow> False
      | Some (b, vis, sn) \<Rightarrow>
          if b then \<exists>x. (x, x) \<in> (edge graph)\<^sup>+
          else vis = visiting \<and> seen \<subseteq> sn \<and> targets \<subseteq> sn - visiting \<and> search_state graph visiting sn)"

lemma answersE:
  assumes "answers graph targets visiting seen r"
  obtains (found) vis sn x where "r = Some (True, vis, sn)" "(x, x) \<in> (edge graph)\<^sup>+"
    | (none) sn where "r = Some (False, visiting, sn)" "seen \<subseteq> sn" "targets \<subseteq> sn - visiting"
      "search_state graph visiting sn"
  using assms by (auto simp: answers_def split: option.splits if_splits)

lemma fuel_left:
  "finite U \<Longrightarrow> node \<in> U \<Longrightarrow> node \<notin> seen \<Longrightarrow> card (U - seen) \<le> Suc n \<Longrightarrow> card (U - insert node seen) \<le> n"
proof -
  assume a: "finite U" "node \<in> U" "node \<notin> seen" "card (U - seen) \<le> Suc n"
  have e: "U - insert node seen = (U - seen) - {node}" by auto
  from a show ?thesis unfolding e using card_Diff1_less [of "U - seen" node] by simp
qed

lemma search_answers:
  assumes U: "finite U" "edge graph `` U \<subseteq> U"
  shows "\<lbrakk>search_state graph visiting seen; node \<in> U; card (U - seen) \<le> fuel;
      \<forall>v \<in> visiting. (v, node) \<in> (edge graph)\<^sup>+\<rbrakk>
    \<Longrightarrow> answers graph {node} visiting seen (dfs_cycle fuel graph node visiting seen)"
    and "\<lbrakk>search_state graph visiting seen; set edges \<subseteq> U; card (U - seen) \<le> fuel;
      \<forall>v \<in> visiting. \<forall>m \<in> set edges. (v, m) \<in> (edge graph)\<^sup>+\<rbrakk>
    \<Longrightarrow> answers graph (set edges) visiting seen (dfs_edges fuel graph edges visiting seen)"
  using U
proof (induction fuel graph node visiting seen and fuel graph edges visiting seen
    rule: dfs_cycle_dfs_edges.induct)
  case (1 fuel graph node visiting seen)
  show ?case
  proof (cases "node \<in> seen")
    case True
    then show ?thesis using "1.prems" by (auto simp: dfs_cycle.simps answers_def)
  next
    case False
    with "1.prems" have nv: "node \<notin> visiting" by (auto simp: search_state_def)
    from False "1.prems" obtain n where n: "fuel = Suc n" by (cases fuel) (auto simp: card_eq_0_iff)
    let ?es = "case map_of graph node of Some es \<Rightarrow> es | None \<Rightarrow> []"
    have es: "m \<in> set ?es \<longleftrightarrow> (node, m) \<in> edge graph" for m
      by (cases "map_of graph node") (auto simp: edge_def)
    have "answers graph (set ?es) (insert node visiting) (insert node seen)
        (dfs_edges n graph ?es (insert node visiting) (insert node seen))"
    proof (rule "1.IH" [OF nv False n])
      show "search_state graph (insert node visiting) (insert node seen)"
        using "1.prems"(1) False by (rule enter_node)
      show "set ?es \<subseteq> U" using "1.prems"(2,6) es by auto
      show "card (U - insert node seen) \<le> n" using "1.prems" False n by (intro fuel_left) auto
      show "\<forall>v \<in> insert node visiting. \<forall>m \<in> set ?es. (v, m) \<in> (edge graph)\<^sup>+"
        using "1.prems"(4) es by (auto intro: trancl_into_trancl)
    qed (use "1.prems" in auto)
    then show ?thesis
    proof (cases rule: answersE)
      case (found vis sn x)
      with nv False n show ?thesis by (auto simp: answers_def dfs_cycle.simps)
    next
      case (none sn)
      have "search_state graph visiting sn \<and> node \<in> sn - visiting"
        by (rule leave_node [OF none(4) nv]) (use none(3) es in blast)
      with none nv False n show ?thesis by (auto simp: answers_def dfs_cycle.simps)
    qed
  qed
next
  case (2 fuel graph visiting seen)
  then show ?case by (simp add: answers_def)
next
  case (3 fuel graph nxt edges visiting seen)
  have "answers graph {nxt} visiting seen (dfs_cycle fuel graph nxt visiting seen)"
    by (rule "3.IH"(1)) (use "3.prems" in auto)
  then show ?case
  proof (cases rule: answersE)
    case (found vis sn x)
    then show ?thesis by (auto simp: answers_def)
  next
    case (none sn)
    have "card (U - sn) \<le> fuel" using "3.prems"(3,5) none(2) card_mono [of "U - seen" "U - sn"]
      by (meson Diff_mono finite_Diff le_trans order_refl)
    with "3.IH"(2) [OF none(1) refl refl] "3.prems" none(4)
    have "answers graph (set edges) visiting sn (dfs_edges fuel graph edges visiting sn)" by auto
    then show ?thesis using none by (cases rule: answersE) (auto simp: answers_def)
  qed
qed

lemma in_map_iff: "y \<in> set (map f xs) \<longleftrightarrow> (\<exists>x \<in> set xs. f x = y)"
  by auto

lemma cycle_check:
  "defs_have_cycle (JObj m) = Some (\<exists>defs x. map_of m ''$defs'' = Some (JObj defs)
     \<and> (x, x) \<in> (edge (def_graph defs))\<^sup>+)"
proof (cases "Option.bind (map_of m ''$defs'') as_object")
  case None
  then have "map_of m ''$defs'' \<noteq> Some (JObj defs)" for defs by auto
  with None show ?thesis by (simp add: defs_have_cycle_def)
next
  case (Some defs)
  let ?g = "def_graph defs"
  let ?U = "set (graph_nodes ?g)"
  have closed: "edge ?g `` ?U \<subseteq> ?U" "finite ?U"
    by (auto simp: edge_def graph_nodes_def dest!: map_of_SomeD)
  have init: "search_state ?g {} {}" by (simp add: search_state_def)
  have size: "card (?U - {}) \<le> Suc (length (graph_nodes ?g))"
    using card_length [of "graph_nodes ?g"] by simp
  have ans: "answers ?g {start} {} {} (dfs_cycle (Suc (length (graph_nodes ?g))) ?g start {} {})"
    if "start \<in> ?U" for start
    using search_answers(1) [OF closed(2,1) init that size] by simp
  let ?found = "\<lambda>start. map_option fst (dfs_cycle (Suc (length (graph_nodes ?g))) ?g start {} {})"
  have found: "\<exists>b. ?found start = Some b \<and> (b \<longrightarrow> (\<exists>x. (x, x) \<in> (edge ?g)\<^sup>+))
      \<and> (\<not> b \<longrightarrow> (start, start) \<notin> (edge ?g)\<^sup>+)" if "start \<in> set (map fst ?g)" for start
  proof -
    from that have "start \<in> ?U" by (simp add: graph_nodes_def)
    from ans [OF this] show ?thesis by (cases rule: answersE) (auto simp: search_state_def)
  qed
  have key: "x \<in> set (map fst ?g)" if "(x, x) \<in> (edge ?g)\<^sup>+" for x
    using tranclD [OF that] by (auto simp: edge_def dest: map_of_SomeD intro: rev_image_eqI)
  have none: "?found start \<noteq> None" if "start \<in> set (map fst ?g)" for start
    using found [OF that] by (metis option.distinct(1))
  have "(\<exists>start \<in> set (map fst ?g). ?found start = Some True) \<longleftrightarrow> (\<exists>x. (x, x) \<in> (edge ?g)\<^sup>+)"
  proof
    assume "\<exists>start \<in> set (map fst ?g). ?found start = Some True"
    then obtain start where "start \<in> set (map fst ?g)" "?found start = Some True" by blast
    from found [OF this(1)] this(2) show "\<exists>x. (x, x) \<in> (edge ?g)\<^sup>+" by (metis option.inject)
  next
    assume "\<exists>x. (x, x) \<in> (edge ?g)\<^sup>+"
    then obtain x where x: "(x, x) \<in> (edge ?g)\<^sup>+" by blast
    from found [OF key [OF x]] x have "?found x = Some True" by metis
    with key [OF x] show "\<exists>start \<in> set (map fst ?g). ?found start = Some True" by blast
  qed
  then have "Some True \<in> set (map ?found (map fst ?g)) \<longleftrightarrow> (\<exists>x. (x, x) \<in> (edge ?g)\<^sup>+)"
    unfolding in_map_iff .
  moreover have "None \<notin> set (map ?found (map fst ?g))"
    unfolding in_map_iff by (metis none)
  moreover have "defs_have_cycle (JObj m)
      = (if None \<in> set (map ?found (map fst ?g)) then None
         else Some (Some True \<in> set (map ?found (map fst ?g))))"
    unfolding defs_have_cycle_def Let_def jget.simps Some option.case ..
  moreover from Some have "map_of m ''$defs'' = Some (JObj defs)" by (cases "map_of m ''$defs''") auto
  ultimately show ?thesis by (simp only: if_False option.inject json.inject simp_thms ex_simps)
qed


section \<open>The bundle\<close>

definition own_dangling :: "(bytes \<times> json) list \<Rightarrow> json \<Rightarrow> bytes list" where
  "own_dangling defs v =
     (case ref_of v of
        None \<Rightarrow> []
      | Some r \<Rightarrow>
          (case strip_prefix ''#/$defs/'' r of
             Some rest \<Rightarrow> if has_key (first_token rest) defs then [] else [r]
           | None \<Rightarrow>
               if starts_with r ''#/components/'' \<or> starts_with r ''#/definitions/'' then [r] else []))"

fun dangling_walk :: "(bytes \<times> json) list \<Rightarrow> json \<Rightarrow> bytes list" where
  "dangling_walk defs (JObj m) =
     own_dangling defs (JObj m) @ concat (map (\<lambda>p. dangling_walk defs (snd p)) m)"
| "dangling_walk defs (JArr items) = concat (map (dangling_walk defs) items)"
| "dangling_walk defs _ = []"

definition dangling_defs :: "json \<Rightarrow> bytes list" where
  "dangling_defs schema =
     dangling_walk (case Option.bind (jget ''$defs'' schema) as_object of Some d \<Rightarrow> d | None \<Rightarrow> []) schema"

definition or_insert :: "bytes \<Rightarrow> json \<Rightarrow> (bytes \<times> json) list \<Rightarrow> (bytes \<times> json) list" where
  "or_insert k v m = (if has_key k m then m else m @ [(k, v)])"

definition or_insert_all :: "(bytes \<times> json) list \<Rightarrow> (bytes \<times> json) list \<Rightarrow> (bytes \<times> json) list" where
  "or_insert_all new m = fold (\<lambda>(k, v) m. or_insert k v m) new m"

definition merge_defs_into ::
    "(bytes \<times> json) list \<Rightarrow> (bytes \<times> json) list \<Rightarrow> (bytes \<times> json) list" where
  "merge_defs_into target incoming =
     (if incoming = [] then target
      else case map_of target ''$defs'' of
        Some (JObj existing) \<Rightarrow> obj_insert ''$defs'' (JObj (or_insert_all incoming existing)) target
      | _ \<Rightarrow> obj_insert ''$defs'' (JObj incoming) target)"

record bundle_outcome =
  bo_schema :: json
  bo_had_cycle :: bool
  bo_unresolved :: "bytes list"

text \<open>\<open>jsb\<close> is the crate's bundler, which may fetch through the retriever.\<close>

type_synonym bundler = "json \<Rightarrow> retriever \<Rightarrow> (bytes + json) \<times> retriever"

definition bundle_root :: "(bytes set \<Rightarrow> bytes list) \<Rightarrow> json \<Rightarrow> json \<Rightarrow> json" where
  "bundle_root order doc schema =
     (let rewritten = rewrite_schema_refs schema;
          defs = collect_needed_defs order doc rewritten
      in case rewritten of
           JObj m \<Rightarrow> JObj (merge_defs_into m defs)
         | other \<Rightarrow>
             JObj ((''allOf'', JArr [other]) # (if defs = [] then [] else [(''$defs'', JObj defs)])))"

definition bundle_schema ::
    "bundler \<Rightarrow> (bytes set \<Rightarrow> bytes list) \<Rightarrow> json \<Rightarrow> json \<Rightarrow> retriever \<Rightarrow> bundle_outcome \<times> retriever" where
  "bundle_schema jsb order doc schema rt =
     (let root = bundle_root order doc schema in
      case jsb root rt of
        (Inr bundled, rt') \<Rightarrow>
          (\<lparr>bo_schema = bundled, bo_had_cycle = (defs_have_cycle bundled = Some True),
            bo_unresolved = dangling_defs bundled\<rparr>, rt')
      | (Inl err, rt') \<Rightarrow>
          (\<lparr>bo_schema = root, bo_had_cycle = False, bo_unresolved = [err]\<rparr>, rt'))"

text \<open>\<open>resolvable defs v\<close>: every reference of \<open>v\<close> into the definitions names one.\<close>

fun resolvable :: "(bytes \<times> json) list \<Rightarrow> json \<Rightarrow> bool" where
  "resolvable defs (JObj m) \<longleftrightarrow>
     (\<forall>rest. ref_of (JObj m) = Some (''#/$defs/'' @ rest) \<longrightarrow> has_key (first_token rest) defs)
     \<and> (\<forall>v \<in> set (map snd m). resolvable defs v)"
| "resolvable defs (JArr items) \<longleftrightarrow> (\<forall>v \<in> set items. resolvable defs v)"
| "resolvable defs _ \<longleftrightarrow> True"

lemma dangling_none: "dangling_walk defs v = [] \<Longrightarrow> resolvable defs v \<and> no_legacy_refs v"
proof (induction defs v rule: dangling_walk.induct)
  case (1 defs m)
  have own: "own_dangling defs (JObj m) = []" using "1.prems" by simp
  then have "ref_of (JObj m) = Some (''#/$defs/'' @ rest) \<Longrightarrow> has_key (first_token rest) defs" for rest
    by (auto simp: own_dangling_def strip_prefix_def simp del: ref_of_obj split: if_splits)
  moreover have "case ref_of (JObj m) of Some r \<Rightarrow> \<not> legacy_ref r | None \<Rightarrow> True"
  proof (cases "ref_of (JObj m)")
    case (Some r)
    show ?thesis
    proof (cases "legacy_ref r")
      case True
      then have "strip_prefix ''#/$defs/'' r = None"
        "starts_with r ''#/components/'' \<or> starts_with r ''#/definitions/''"
        by (auto simp: legacy_ref_def strip_prefix_def prefix_def)
      with own Some show ?thesis by (simp add: own_dangling_def del: ref_of_obj)
    qed (simp add: Some del: ref_of_obj)
  qed simp
  moreover have "resolvable defs v \<and> no_legacy_refs v" if "v \<in> set (map snd m)" for v
    using 1 that by auto
  ultimately show ?case by (simp del: ref_of_obj)
qed auto



text \<open>A definition whose name holds a slash is defined and still reported as dangling: the
  collection unescapes the pointer, the check and the cycle search compare it as written.\<close>

theorem escaped_definition_reported_dangling:
  "let doc = JObj [(''components'', JObj [(''schemas'', JObj [(''a/b'', JObj [])])])];
       out = fst (bundle_schema (\<lambda>s rt. (Inr s, rt)) sorted_list_of_set doc
               (JObj [(''$ref'', JStr ''#/components/schemas/a~1b'')]) retriever_new)
   in bo_schema out = JObj [(''$ref'', JStr ''#/$defs/a~1b''), (''$defs'', JObj [(''a/b'', JObj [])])]
      \<and> bo_unresolved out = [''#/$defs/a~1b'']"
  by code_simp

end
