(* ===== verification/Schema_Shape.thy ===== *)
theory Schema_Shape
  imports Schema_Refs
begin

text \<open>
  Schema documents in shape (\<open>crates/mcp-gateway-compile/src/normalize.rs\<close> and
  \<open>lower/schema.rs\<close>): OpenAPI 3.0 keywords become JSON Schema ones, \<open>allOf\<close> of object schemas is
  flattened, and shared definitions are hoisted out of a schema and grafted back on.
\<close>

section \<open>Sizes\<close>

text \<open>A measure for the recursions: each entry of an object counts, with a surplus for some keys.\<close>

definition key_weight :: "bytes \<Rightarrow> nat" where
  "key_weight k = (if k = ''nullable'' then 20 else if k = ''example'' then 5 else 1)"

fun weight :: "json \<Rightarrow> nat" where
  "weight (JObj m) = 1 + sum_list (map (\<lambda>p. key_weight (fst p) + weight (snd p)) m)"
| "weight (JArr items) = 1 + sum_list (map weight items)"
| "weight _ = 1"

abbreviation entries_weight :: "(bytes \<times> json) list \<Rightarrow> nat" where
  "entries_weight m \<equiv> sum_list (map (\<lambda>p. key_weight (fst p) + weight (snd p)) m)"

lemma weight_pos [simp]: "0 < weight v"
  by (cases v) auto

lemma key_weight_pos [simp]: "0 < key_weight k"
  by (simp add: key_weight_def)

lemma entries_weight_remove:
  "map_of m k = Some v \<Longrightarrow> entries_weight (obj_remove k m) + key_weight k + weight v = entries_weight m"
proof (induction k m rule: obj_remove.induct)
  case (2 k p ps)
  show ?case
  proof (cases "fst p = k")
    case True
    show ?thesis
    proof (cases "ps = []")
      case False
      have "entries_weight (last ps # butlast ps) = entries_weight (butlast ps @ [last ps])"
        by (simp del: append_butlast_last_id)
      also have "\<dots> = entries_weight ps" using False by simp
      finally show ?thesis using True False 2 by (cases p) simp
    qed (use True 2 in \<open>cases p; simp\<close>)
  qed (use 2 in \<open>cases p; simp\<close>)
qed simp

lemma obj_remove_absent: "map_of m k = None \<Longrightarrow> obj_remove k m = m"
  by (induction k m rule: obj_remove.induct) (auto split: if_splits)

lemma entries_weight_remove_le: "entries_weight (obj_remove k m) \<le> entries_weight m"
  using entries_weight_remove [of m k] obj_remove_absent [of m k] by (cases "map_of m k") auto

lemma entries_weight_insert: "entries_weight (obj_insert k v m) \<le> entries_weight m + key_weight k + weight v"
  by (induction m) (auto simp: obj_insert_def)

lemma entries_weight_replace:
  "map_of m k = Some w \<Longrightarrow> entries_weight (obj_insert k v m) + weight w = entries_weight m + weight v"
  by (induction m) (auto simp: obj_insert_def split: if_splits)

lemma weight_value: "v \<in> set (map snd m) \<Longrightarrow> weight v < weight (JObj m)"
proof (induction m)
  case (Cons p m)
  then show ?case by (cases "v = snd p") auto
qed simp

lemma weight_item: "v \<in> set items \<Longrightarrow> weight v < weight (JArr items)"
proof (induction items)
  case (Cons x items)
  then show ?case by (cases "v = x") auto
qed simp

section \<open>OpenAPI 3.0 keywords (normalize.rs)\<close>

definition null_type :: json where
  "null_type = JObj [(''type'', JStr ''null'')]"

definition refer_without_nullable :: "(bytes \<times> json) list \<Rightarrow> json" where
  "refer_without_nullable m = JObj (obj_remove ''nullable'' m)"

definition rewrite_exclusive :: "bytes \<Rightarrow> bytes \<Rightarrow> (bytes \<times> json) list \<Rightarrow> (bytes \<times> json) list" where
  "rewrite_exclusive exclusive_key bound_key m =
     (case map_of m exclusive_key of
        Some (JBool True) \<Rightarrow>
          (case map_of m bound_key of
             Some bound \<Rightarrow> obj_insert exclusive_key bound (obj_remove bound_key m)
           | None \<Rightarrow> obj_remove exclusive_key m)
      | Some (JBool False) \<Rightarrow> obj_remove exclusive_key m
      | _ \<Rightarrow> m)"

text \<open>The rewriting of one object after \<open>nullable\<close> has been dealt with.\<close>

definition rewrite_rest :: "(bytes \<times> json) list \<Rightarrow> (bytes \<times> json) list" where
  "rewrite_rest m =
     (let m1 = obj_remove ''nullable'' m;
          m2 = rewrite_exclusive ''exclusiveMinimum'' ''minimum'' m1;
          m3 = rewrite_exclusive ''exclusiveMaximum'' ''maximum'' m2
      in case map_of m3 ''example'' of
           None \<Rightarrow> m3
         | Some example \<Rightarrow>
             (let m4 = obj_remove ''example'' m3 in
              if has_key ''examples'' m4 then m4 else obj_insert ''examples'' (JArr [example]) m4))"

definition rewrite_schema_object :: "(bytes \<times> json) list \<Rightarrow> (bytes \<times> json) list" where
  "rewrite_schema_object m =
     (if map_of m ''nullable'' = Some (JBool True) then
        if has_key ''$ref'' m then [(''anyOf'', JArr [refer_without_nullable m, null_type])]
        else case map_of m ''type'' of
          Some (JStr t) \<Rightarrow> rewrite_rest (obj_insert ''type'' (JArr [JStr t, JStr ''null'']) m)
        | Some (JArr arr) \<Rightarrow>
            rewrite_rest (obj_insert ''type''
              (JArr (if JStr ''null'' \<in> set arr then arr else arr @ [JStr ''null''])) m)
        | _ \<Rightarrow> [(''anyOf'', JArr [JObj (obj_remove ''nullable'' m), null_type])]
      else rewrite_rest m)"

lemma rewrite_exclusive_weight:
  assumes "key_weight bound_key = 1" "key_weight exclusive_key = 1"
  shows "entries_weight (rewrite_exclusive exclusive_key bound_key m) \<le> entries_weight m"
proof -
  have "entries_weight (obj_insert exclusive_key b (obj_remove bound_key m)) \<le> entries_weight m"
    if "map_of m bound_key = Some b" for b
    using entries_weight_remove [OF that] entries_weight_insert [of exclusive_key b "obj_remove bound_key m"]
      assms by simp
  then show ?thesis
    using entries_weight_remove_le [of exclusive_key m]
    by (auto simp: rewrite_exclusive_def split: option.split json.split bool.split)
qed

lemma rewrite_rest_weight: "entries_weight (rewrite_rest m) \<le> entries_weight (obj_remove ''nullable'' m)"
proof -
  let ?m3 = "rewrite_exclusive ''exclusiveMaximum'' ''maximum''
    (rewrite_exclusive ''exclusiveMinimum'' ''minimum'' (obj_remove ''nullable'' m))"
  have m3: "entries_weight ?m3 \<le> entries_weight (obj_remove ''nullable'' m)"
    by (rule order_trans [OF rewrite_exclusive_weight rewrite_exclusive_weight]) (simp_all add: key_weight_def)
  have "entries_weight (obj_insert ''examples'' (JArr [e]) (obj_remove ''example'' ?m3)) \<le> entries_weight ?m3"
    if "map_of ?m3 ''example'' = Some e" for e
    using entries_weight_remove [OF that]
      entries_weight_insert [of "''examples''" "JArr [e]" "obj_remove ''example'' ?m3"]
    by (simp add: key_weight_def)
  with m3 entries_weight_remove_le [of "''example''" ?m3] show ?thesis
    by (fastforce simp: rewrite_rest_def Let_def split: option.split)
qed

lemma rewrite_weight: "entries_weight (rewrite_schema_object m) \<le> entries_weight m"
proof (cases "map_of m ''nullable'' = Some (JBool True)")
  case False
  with rewrite_rest_weight [of m] entries_weight_remove_le [of "''nullable''" m] show ?thesis
    by (simp add: rewrite_schema_object_def)
next
  case True
  note n = entries_weight_remove [OF this]
  have wrap: "entries_weight [(''anyOf'', JArr [JObj (obj_remove ''nullable'' m), null_type])] \<le> entries_weight m"
    using n by (simp add: key_weight_def null_type_def)
  have ty: "entries_weight (rewrite_rest (obj_insert ''type'' v m)) \<le> entries_weight m"
    if "map_of m ''type'' = Some w" "weight v \<le> weight w + 3" for v w
  proof -
    have "map_of (obj_insert ''type'' v m) ''nullable'' = Some (JBool True)" using True by simp
    from entries_weight_remove [OF this] rewrite_rest_weight [of "obj_insert ''type'' v m"]
      entries_weight_replace [OF that(1), of v] that(2) show ?thesis by (simp add: key_weight_def)
  qed
  have "weight (JArr (arr @ [JStr ''null''])) \<le> weight (JArr arr) + 3" for arr by simp
  with True wrap ty show ?thesis
    by (auto simp: rewrite_schema_object_def refer_without_nullable_def has_key_def
        split: option.split json.split)
qed

function walk :: "json \<Rightarrow> json" where
  "walk (JObj m) = JObj (map (\<lambda>(k, v). (k, walk v)) (rewrite_schema_object m))"
| "walk (JArr items) = JArr (map walk items)"
| "walk JNull = JNull"
| "walk (JBool b) = JBool b"
| "walk (JNum n) = JNum n"
| "walk (JStr s) = JStr s"
  by pat_completeness auto
termination
proof (relation "measure weight", goal_cases)
  case (2 m p k v)
  then have "v \<in> set (map snd (rewrite_schema_object m))" by force
  from weight_value [OF this] rewrite_weight [of m] show ?case by simp
next
  case (3 items v)
  then show ?case using weight_item by auto
qed auto

definition normalize_3_0 :: "json \<Rightarrow> json" where
  "normalize_3_0 v = walk v"

text \<open>The invariant of a \<open>serde_json\<close> document: the keys of every object are distinct.\<close>

fun wf_json :: "json \<Rightarrow> bool" where
  "wf_json (JObj m) \<longleftrightarrow> distinct (map fst m) \<and> (\<forall>v \<in> set (map snd m). wf_json v)"
| "wf_json (JArr items) \<longleftrightarrow> (\<forall>v \<in> set items. wf_json v)"
| "wf_json _ \<longleftrightarrow> True"

lemma wf_insert: "wf_json (JObj m) \<Longrightarrow> wf_json v \<Longrightarrow> wf_json (JObj (obj_insert k v m))"
  by (auto dest!: subsetD [OF set_obj_insert])

lemma wf_remove: "wf_json (JObj m) \<Longrightarrow> wf_json (JObj (obj_remove k m))"
  using set_obj_remove_subset [of k m] by auto

lemma wf_lookup: "wf_json (JObj m) \<Longrightarrow> map_of m k = Some v \<Longrightarrow> wf_json v"
  by (auto dest!: map_of_SomeD)

lemma wf_rewrite_exclusive:
  "wf_json (JObj m) \<Longrightarrow> wf_json (JObj (rewrite_exclusive e b m))"
  by (auto simp: rewrite_exclusive_def wf_insert wf_remove wf_lookup
      simp del: wf_json.simps(1) split: option.split json.split bool.split)

lemma map_of_rewrite_exclusive:
  "wf_json (JObj m) \<Longrightarrow> k \<noteq> e \<Longrightarrow> k \<noteq> b \<Longrightarrow> map_of (rewrite_exclusive e b m) k = map_of m k"
  by (auto simp: rewrite_exclusive_def split: option.split json.split bool.split)

lemma wf_rewrite_rest:
  assumes "wf_json (JObj m)"
  shows "wf_json (JObj (rewrite_rest m)) \<and> map_of (rewrite_rest m) ''nullable'' = None
    \<and> map_of (rewrite_rest m) ''example'' = None"
proof -
  let ?m1 = "obj_remove ''nullable'' m"
  let ?m2 = "rewrite_exclusive ''exclusiveMinimum'' ''minimum'' ?m1"
  let ?m3 = "rewrite_exclusive ''exclusiveMaximum'' ''maximum'' ?m2"
  have m1: "wf_json (JObj ?m1)" and m2: "wf_json (JObj ?m2)" and m3: "wf_json (JObj ?m3)"
    using assms by (simp_all add: wf_remove wf_rewrite_exclusive del: wf_json.simps(1))
  have n: "map_of ?m3 ''nullable'' = None"
    using assms by (simp add: map_of_rewrite_exclusive [OF m2] map_of_rewrite_exclusive [OF m1])
  have d: "distinct (map fst ?m3)" using m3 by simp
  show ?thesis
  proof (cases "map_of ?m3 ''example''")
    case (Some e)
    have "wf_json (JObj (obj_remove ''example'' ?m3))" "wf_json (JArr [e])"
      using m3 wf_remove wf_lookup [OF m3 Some] by (simp_all del: wf_json.simps(1))
    then show ?thesis
      using n d wf_insert by (auto simp: rewrite_rest_def Let_def Some simp del: wf_json.simps(1))
  qed (use n m3 in \<open>simp add: rewrite_rest_def Let_def del: wf_json.simps(1)\<close>)
qed

lemma wf_rewrite:
  assumes "wf_json (JObj m)"
  shows "wf_json (JObj (rewrite_schema_object m)) \<and> map_of (rewrite_schema_object m) ''nullable'' = None
    \<and> map_of (rewrite_schema_object m) ''example'' = None"
proof -
  have "wf_json (JObj (obj_insert ''type'' v m))" if "wf_json v" for v
    using assms that by (rule wf_insert)
  moreover have "wf_json (JArr arr)" if "map_of m k = Some (JArr arr)" for k arr
    using wf_lookup [OF assms that] .
  moreover have "wf_json (JObj [(''anyOf'', JArr [JObj (obj_remove ''nullable'' m), null_type])])"
    using wf_remove [OF assms, of "''nullable''"] by (simp add: null_type_def)
  ultimately show ?thesis
    using wf_rewrite_rest assms
    by (auto simp: rewrite_schema_object_def refer_without_nullable_def
        simp del: wf_json.simps(1) split: option.split json.split)
qed

fun modern :: "json \<Rightarrow> bool" where
  "modern (JObj m) \<longleftrightarrow>
     map_of m ''nullable'' = None \<and> map_of m ''example'' = None \<and> (\<forall>v \<in> set (map snd m). modern v)"
| "modern (JArr items) \<longleftrightarrow> (\<forall>v \<in> set items. modern v)"
| "modern _ \<longleftrightarrow> True"

lemma keys_walked: "map fst (map (\<lambda>(k, v). (k, walk v)) m) = map fst m"
  by (simp add: case_prod_beta comp_def)

text \<open>C35: after normalization no object of the document, at any depth, has a \<open>nullable\<close> or an
  \<open>example\<close> key, and the document is still well formed: the keys of every object are distinct.\<close>

theorem normalized_has_no_3_0_keywords:
  assumes "wf_json v" shows "wf_json (normalize_3_0 v) \<and> modern (normalize_3_0 v)"
proof -
  have "wf_json v \<Longrightarrow> wf_json (walk v) \<and> modern (walk v)"
  proof (induction v rule: walk.induct)
    case (1 m)
    let ?r = "rewrite_schema_object m"
    from wf_rewrite [OF "1.prems"] have r: "wf_json (JObj ?r)" "map_of ?r ''nullable'' = None"
      "map_of ?r ''example'' = None" by simp_all
    have "wf_json (walk v) \<and> modern (walk v)" if "(k, v) \<in> set ?r" for k v
      using "1.IH" [OF that refl] that r(1) by force
    then have vals: "\<forall>w \<in> set (map snd (map (\<lambda>(k, v). (k, walk v)) ?r)). wf_json w \<and> modern w"
      by auto
    have "map_of (map (\<lambda>(k, v). (k, walk v)) ?r) k = map_option walk (map_of ?r k)" for k
      by (simp add: map_of_map)
    with r(2,3) vals r(1) show ?case
      unfolding walk.simps wf_json.simps modern.simps keys_walked by simp
  qed auto
  with assms show ?thesis by (simp add: normalize_3_0_def)
qed

theorem normalized_has_no_3_0_keywords_witness:
  "modern (normalize_3_0 (JObj [(''nullable'', JBool True), (''type'', JStr ''string''), (''example'', JNull)]))"
  by (rule conjunct2 [OF normalized_has_no_3_0_keywords]) code_simp

text \<open>A nullable schema admits null and what it admitted: with a type, \<open>null\<close> joins the types;
  with a reference, or with no type, the schema becomes the choice between itself without
  \<open>nullable\<close> and the type \<open>null\<close>.\<close>

theorem nullable_admits_null:
  assumes "map_of m ''nullable'' = Some (JBool True)" "distinct (map fst m)"
  shows "(if map_of m ''$ref'' = None
          then case map_of m ''type'' of
            Some (JStr t) \<Rightarrow> jget ''type'' (normalize_3_0 (JObj m)) = Some (JArr [JStr t, JStr ''null''])
          | Some (JArr arr) \<Rightarrow> (\<exists>arr'. jget ''type'' (normalize_3_0 (JObj m)) = Some (JArr arr')
               \<and> JStr ''null'' \<in> set arr' \<and> (\<forall>t. JStr t \<in> set arr \<longrightarrow> JStr t \<in> set arr'))
          | _ \<Rightarrow> normalize_3_0 (JObj m)
                  = JObj [(''anyOf'', JArr [normalize_3_0 (JObj (obj_remove ''nullable'' m)), null_type])]
          else normalize_3_0 (JObj m)
                  = JObj [(''anyOf'', JArr [normalize_3_0 (JObj (obj_remove ''nullable'' m)), null_type])])"
proof -
  have null: "walk null_type = null_type" unfolding null_type_def by code_simp
  have ty: "map_of (rewrite_rest (obj_insert ''type'' v m)) ''type'' = Some v" for v
  proof -
    let ?m1 = "obj_remove ''nullable'' (obj_insert ''type'' v m)"
    have d: "distinct (map fst ?m1)" using assms(2) by simp
    have ex: "distinct (map fst (rewrite_exclusive e b n))
        \<and> (e \<noteq> ''type'' \<and> b \<noteq> ''type'' \<longrightarrow> map_of (rewrite_exclusive e b n) ''type'' = map_of n ''type'')"
      if "distinct (map fst n)" for e b n
      using that by (auto simp: rewrite_exclusive_def split: option.split json.split bool.split)
    have "map_of ?m1 ''type'' = Some v" using assms(2) by simp
    with ex [OF d, of "''exclusiveMinimum''" "''minimum''"]
      ex [of "rewrite_exclusive ''exclusiveMinimum'' ''minimum'' ?m1" "''exclusiveMaximum''" "''maximum''"]
    show ?thesis
      by (auto simp: rewrite_rest_def Let_def simp del: map_of_eq_Some_iff split: option.split)
  qed
  have arr: "JStr t \<in> set arr \<Longrightarrow> JStr t \<in> set (map walk arr)" for t arr
    by (force intro: rev_image_eqI)
  show ?thesis
    using assms(1) ty arr
    by (auto simp: normalize_3_0_def rewrite_schema_object_def refer_without_nullable_def has_key_def
        null map_of_map split: option.split json.split)
qed

theorem nullable_admits_null_witness:
  "jget ''type'' (normalize_3_0 (JObj [(''type'', JStr ''string''), (''nullable'', JBool True)]))
     = Some (JArr [JStr ''string'', JStr ''null''])"
  using nullable_admits_null [of "[(''type'', JStr ''string''), (''nullable'', JBool True)]"] by simp

text \<open>The keywords are rewritten where they are not keywords: a property that is called
  \<open>example\<close> becomes a property called \<open>examples\<close> whose schema is a list, and a property called
  \<open>nullable\<close> is dropped, because every object of the document is taken for a schema.\<close>

theorem property_named_example_is_rewritten:
  "normalize_3_0 (JObj [(''properties'', JObj [(''id'', JObj []), (''nullable'', JObj [(''type'', JStr ''boolean'')]),
       (''example'', JObj [(''type'', JStr ''string'')])])])
   = JObj [(''properties'', JObj [(''id'', JObj []), (''examples'', JArr [JObj [(''type'', JStr ''string'')]])])]"
  by code_simp

section \<open>Flattening (lower/schema.rs)\<close>

definition push_required :: "bytes list \<Rightarrow> json \<Rightarrow> bytes list" where
  "push_required required r =
     (case r of JStr s \<Rightarrow> if s \<in> set required then required else required @ [s] | _ \<Rightarrow> required)"

fun add_props :: "(bytes \<times> json) list \<Rightarrow> (bytes \<times> json) list \<Rightarrow> (bytes \<times> json) list option" where
  "add_props [] props = Some props"
| "add_props ((k, v) # p) props =
     (case map_of props k of
        Some existing \<Rightarrow> if existing \<noteq> v then None else add_props p props
      | None \<Rightarrow> add_props p (obj_insert k v props))"

text \<open>One branch: \<open>None\<close> keeps the \<open>allOf\<close>.\<close>

definition merge_branch ::
    "json \<Rightarrow> (bytes \<times> json) list \<times> bytes list \<Rightarrow> ((bytes \<times> json) list \<times> bytes list) option" where
  "merge_branch branch acc =
     (case acc of (props, required) \<Rightarrow>
      case as_object branch of
        None \<Rightarrow> None
      | Some obj \<Rightarrow>
          if has_key ''$ref'' obj then None
          else if (case Option.bind (map_of obj ''type'') as_str of Some ty \<Rightarrow> ty \<noteq> ''object'' | None \<Rightarrow> False)
          then None
          else (case (case Option.bind (map_of obj ''properties'') as_object of
                        Some p \<Rightarrow> add_props p props
                      | None \<Rightarrow> Some props) of
                  None \<Rightarrow> None
                | Some props' \<Rightarrow>
                    Some (props',
                      (case Option.bind (map_of obj ''required'') as_array of
                         Some reqs \<Rightarrow> foldl push_required required reqs
                       | None \<Rightarrow> required))))"

fun merge_branches ::
    "json list \<Rightarrow> (bytes \<times> json) list \<times> bytes list \<Rightarrow> ((bytes \<times> json) list \<times> bytes list) option" where
  "merge_branches [] acc = Some acc"
| "merge_branches (b # bs) acc =
     (case merge_branch b acc of None \<Rightarrow> None | Some acc' \<Rightarrow> merge_branches bs acc')"

definition push_missing :: "json list \<Rightarrow> bytes \<Rightarrow> json list" where
  "push_missing existing r = (if JStr r \<in> set existing then existing else existing @ [JStr r])"

definition put_props :: "(bytes \<times> json) list \<Rightarrow> (bytes \<times> json) list \<Rightarrow> (bytes \<times> json) list" where
  "put_props props m =
     (if props = [] then m
      else case map_of m ''properties'' of
        Some (JObj existing) \<Rightarrow> obj_insert ''properties'' (JObj (or_insert_all props existing)) m
      | _ \<Rightarrow> obj_insert ''properties'' (JObj props) m)"

definition put_required :: "bytes list \<Rightarrow> (bytes \<times> json) list \<Rightarrow> (bytes \<times> json) list" where
  "put_required required m =
     (if required = [] then m
      else case map_of m ''required'' of
        Some (JArr existing) \<Rightarrow> obj_insert ''required'' (JArr (foldl push_missing existing required)) m
      | _ \<Rightarrow> obj_insert ''required'' (JArr (map JStr required)) m)"

definition put_type :: "(bytes \<times> json) list \<Rightarrow> (bytes \<times> json) list" where
  "put_type m =
     (if \<not> has_key ''type'' m \<and> has_key ''properties'' m
      then obj_insert ''type'' (JStr ''object'') m else m)"

definition flatten_allof :: "json \<Rightarrow> json \<times> bool" where
  "flatten_allof schema =
     (case as_object schema of
        None \<Rightarrow> (schema, False)
      | Some m \<Rightarrow>
          (case Option.bind (map_of m ''allOf'') as_array of
             None \<Rightarrow> (schema, False)
           | Some branches \<Rightarrow>
               (case merge_branches branches ([], []) of
                  None \<Rightarrow> (schema, True)
                | Some (props, required) \<Rightarrow>
                    (JObj (put_type (put_required required (put_props props (obj_remove ''allOf'' m)))), False))))"

section \<open>Definitions (lower/schema.rs)\<close>

definition graft_defs :: "json \<Rightarrow> (bytes \<times> json) list \<Rightarrow> json" where
  "graft_defs schema defs =
     (if defs = [] then schema
      else case as_object schema of
        None \<Rightarrow> schema
      | Some m \<Rightarrow>
          (case map_of m ''$defs'' of
             Some (JObj existing) \<Rightarrow> JObj (obj_insert ''$defs'' (JObj (or_insert_all defs existing)) m)
           | _ \<Rightarrow> JObj (obj_insert ''$defs'' (JObj defs) m)))"

text \<open>
  \<open>hoist_defs\<close> with the map it fills. The two keys are removed whatever they hold; an object
  under them is hoisted itself, entry by entry.
\<close>

definition removed_object :: "bytes \<Rightarrow> (bytes \<times> json) list \<Rightarrow> (bytes \<times> json) list" where
  "removed_object k m = (case Option.bind (map_of m k) as_object of Some d \<Rightarrow> d | None \<Rightarrow> [])"

lemma removed_object_weight: "entries_weight (removed_object k m) \<le> entries_weight m"
proof -
  have "entries_weight d \<le> entries_weight m" if "map_of m k = Some (JObj d)" for d
    using entries_weight_remove [OF that] by simp
  then show ?thesis by (cases "map_of m k") (auto simp: removed_object_def split: option.split)
qed

function hoist_defs :: "json \<Rightarrow> (bytes \<times> json) list \<Rightarrow> json \<times> (bytes \<times> json) list"
  and hoist_named :: "(bytes \<times> json) list \<Rightarrow> (bytes \<times> json) list \<Rightarrow> (bytes \<times> json) list"
  and hoist_values :: "(bytes \<times> json) list \<Rightarrow> (bytes \<times> json) list \<Rightarrow> (bytes \<times> json) list \<times> (bytes \<times> json) list"
  and hoist_items :: "json list \<Rightarrow> (bytes \<times> json) list \<Rightarrow> json list \<times> (bytes \<times> json) list" where
  "hoist_defs (JObj m) sink =
     (let m1 = obj_remove ''$defs'' m;
          m2 = obj_remove ''definitions'' m1;
          sink1 = hoist_named (removed_object ''$defs'' m) sink;
          sink2 = hoist_named (removed_object ''definitions'' m1) sink1;
          (m3, sink3) = hoist_values m2 sink2
      in (JObj m3, sink3))"
| "hoist_defs (JArr items) sink = (let (items', sink') = hoist_items items sink in (JArr items', sink'))"
| "hoist_defs JNull sink = (JNull, sink)"
| "hoist_defs (JBool b) sink = (JBool b, sink)"
| "hoist_defs (JNum n) sink = (JNum n, sink)"
| "hoist_defs (JStr s) sink = (JStr s, sink)"
| "hoist_named [] sink = sink"
| "hoist_named ((k, v) # rest) sink =
     (let (v', sink') = hoist_defs v sink in hoist_named rest (or_insert k v' sink'))"
| "hoist_values [] sink = ([], sink)"
| "hoist_values ((k, v) # rest) sink =
     (let (v', sink') = hoist_defs v sink; (rest', sink'') = hoist_values rest sink'
      in ((k, v') # rest', sink''))"
| "hoist_items [] sink = ([], sink)"
| "hoist_items (v # rest) sink =
     (let (v', sink') = hoist_defs v sink; (rest', sink'') = hoist_items rest sink'
      in (v' # rest', sink''))"
  by pat_completeness auto
termination
proof (relation "measure (\<lambda>x. case x of
      Inl (Inl (v, _)) \<Rightarrow> 2 * weight v
    | Inl (Inr (m, _)) \<Rightarrow> 2 * entries_weight m
    | Inr (Inl (m, _)) \<Rightarrow> 2 * entries_weight m
    | Inr (Inr (vs, _)) \<Rightarrow> 1 + 2 * sum_list (map weight vs))", goal_cases)
  case (2 m sink m1 m2)
  then show ?case using removed_object_weight [of "''$defs''" m] by simp
next
  case (3 m sink m1 m2)
  then show ?case
    using removed_object_weight [of "''definitions''" m1] entries_weight_remove_le [of "''$defs''" m] by simp
next
  case (4 m sink m1 m2)
  then show ?case
    using entries_weight_remove_le [of "''definitions''" m1] entries_weight_remove_le [of "''$defs''" m] by simp
qed auto

section \<open>Properties of flattening and hoisting\<close>

fun bare :: "json \<Rightarrow> bool" where
  "bare (JObj m) \<longleftrightarrow>
     map_of m ''$defs'' = None \<and> map_of m ''definitions'' = None \<and> (\<forall>v \<in> set (map snd m). bare v)"
| "bare (JArr items) \<longleftrightarrow> (\<forall>v \<in> set items. bare v)"
| "bare _ \<longleftrightarrow> True"

definition bare_sink :: "(bytes \<times> json) list \<Rightarrow> bool" where
  "bare_sink sink \<longleftrightarrow> (\<forall>v \<in> set (map snd sink). bare v)"

lemma bare_or_insert: "bare_sink sink \<Longrightarrow> bare v \<Longrightarrow> bare_sink (or_insert k v sink)"
  by (auto simp: bare_sink_def or_insert_def)

lemma or_insert_keeps: "map_of sink k = Some w \<Longrightarrow> map_of (or_insert j v sink) k = Some w"
  by (simp add: or_insert_def map_add_def)

lemma hoist_keeps:
  "map_of sink x = Some w \<Longrightarrow> map_of (snd (hoist_defs v sink)) x = Some w"
  "map_of sink x = Some w \<Longrightarrow> map_of (hoist_named m sink) x = Some w"
  "map_of sink x = Some w \<Longrightarrow> map_of (snd (hoist_values m' sink)) x = Some w"
  "map_of sink x = Some w \<Longrightarrow> map_of (snd (hoist_items vs sink)) x = Some w"
  by (induction v sink and m sink and m' sink and vs sink
      rule: hoist_defs_hoist_named_hoist_values_hoist_items.induct)
    (auto simp: Let_def or_insert_keeps simp del: map_of_eq_Some_iff split: prod.split)

lemma wf_removed_object:
  assumes "wf_json (JObj m)" "v \<in> set (map snd (removed_object k m))" shows "wf_json v"
proof -
  from assms(2) obtain w where w: "map_of m k = Some w"
    by (cases "map_of m k") (simp_all add: removed_object_def)
  with assms(2) obtain d where "w = JObj d" by (cases w) (simp_all add: removed_object_def)
  with w wf_lookup [OF assms(1) w] assms(2) show ?thesis by (auto simp: removed_object_def)
qed

lemma hoist_bare:
  "wf_json v \<Longrightarrow> bare_sink sink \<Longrightarrow>
     bare (fst (hoist_defs v sink)) \<and> bare_sink (snd (hoist_defs v sink))"
  "\<forall>v \<in> set (map snd m). wf_json v \<Longrightarrow> bare_sink sink \<Longrightarrow>
     bare_sink (hoist_named m sink)"
  "\<forall>v \<in> set (map snd m'). wf_json v \<Longrightarrow> bare_sink sink \<Longrightarrow>
     map fst (fst (hoist_values m' sink)) = map fst m' \<and> (\<forall>v \<in> set (map snd (fst (hoist_values m' sink))). bare v)
     \<and> bare_sink (snd (hoist_values m' sink))"
  "\<forall>v \<in> set vs. wf_json v \<Longrightarrow> bare_sink sink \<Longrightarrow>
     (\<forall>v \<in> set (fst (hoist_items vs sink)). bare v) \<and> bare_sink (snd (hoist_items vs sink))"
proof (induction v sink and m sink and m' sink and vs sink
    rule: hoist_defs_hoist_named_hoist_values_hoist_items.induct)
  case (1 m sink)
  let ?m1 = "obj_remove ''$defs'' m"
  let ?m2 = "obj_remove ''definitions'' ?m1"
  let ?s1 = "hoist_named (removed_object ''$defs'' m) sink"
  let ?s2 = "hoist_named (removed_object ''definitions'' ?m1) ?s1"
  have wf1: "wf_json (JObj ?m1)" and wf2: "wf_json (JObj ?m2)"
    using "1.prems"(1) by (simp_all add: wf_remove del: wf_json.simps(1))
  have s1: "bare_sink ?s1"
    using "1.IH"(1) [OF refl refl] wf_removed_object [OF "1.prems"(1)] "1.prems"(2) by blast
  have s2: "bare_sink ?s2"
    using "1.IH"(2) [OF refl refl refl] wf_removed_object [OF wf1] s1 by blast
  have v: "\<forall>v \<in> set (map snd ?m2). wf_json v" using wf2 by simp
  note h = "1.IH"(3) [OF refl refl refl refl v s2]
  have keys: "''$defs'' \<notin> set (map fst ?m2)" "''definitions'' \<notin> set (map fst ?m2)"
    using "1.prems"(1) wf1 by (auto simp: keys_obj_remove)
  have "map_of (fst (hoist_values ?m2 ?s2)) k = None" if "k \<notin> set (map fst ?m2)" for k
    using h that by (simp add: map_of_eq_None_iff flip: set_map)
  with h s1 s2 keys show ?case by (simp add: Let_def case_prod_beta del: map_of_eq_None_iff)
next
  case (2 items sink)
  then show ?case by (auto split: prod.split)
next
  case (8 k v rest sink)
  then show ?case by (cases "hoist_defs v sink") (simp add: bare_or_insert)
next
  case (10 k v rest sink)
  then show ?case by (cases "hoist_defs v sink") (simp add: case_prod_beta)
next
  case (12 v rest sink)
  then show ?case by (cases "hoist_defs v sink") (simp add: case_prod_beta)
qed simp_all

text \<open>A hoisted schema shares its definitions: after hoisting, no object of the schema or of the
  collected definitions has a \<open>$defs\<close> or \<open>definitions\<close> key at any depth, and a definition that was
  collected before is kept as it was.\<close>

theorem hoisting_moves_all_definitions:
  assumes "wf_json v" "bare_sink sink" "hoist_defs v sink = (v', sink')"
  shows "bare v' \<and> bare_sink sink' \<and> (\<forall>k d. map_of sink k = Some d \<longrightarrow> map_of sink' k = Some d)"
  using hoist_bare(1) [OF assms(1,2)] hoist_keeps(1) [of sink _ _ v] assms(3)
  by (simp del: map_of_eq_Some_iff)

theorem hoisting_moves_all_definitions_witness:
  "bare (JObj [(''items'', JObj [])]) \<and> bare_sink [(''Tag'', JObj [(''type'', JStr ''string'')])]"
  using hoisting_moves_all_definitions
    [of "JObj [(''$defs'', JObj [(''Tag'', JObj [(''type'', JStr ''string'')])]), (''items'', JObj [])]" "[]"]
  by (auto simp: bare_sink_def removed_object_def or_insert_def has_key_def)

text \<open>A property that is called \<open>definitions\<close> is lost: bundling renames the key and hoisting
  removes it, so the tool's input schema has no such property.\<close>

theorem definitions_property_lost:
  "hoist_defs (rewrite_schema_refs (JObj [(''type'', JStr ''object''),
       (''properties'', JObj [(''id'', JObj []), (''definitions'', JObj [(''type'', JStr ''array'')])])])) []
   = (JObj [(''type'', JStr ''object''), (''properties'', JObj [(''id'', JObj [])])],
      [(''type'', JStr ''array'')])"
  by code_simp

lemma or_insert_lookup: "map_of (or_insert k v m) j = (case map_of m j of Some w \<Rightarrow> Some w | None \<Rightarrow> if j = k then Some v else None)"
  by (auto simp: or_insert_def has_key_def map_add_def simp del: map_of_eq_Some_iff split: option.split)

lemma or_insert_all_lookup:
  "map_of (or_insert_all new m) j = (case map_of m j of Some w \<Rightarrow> Some w | None \<Rightarrow> map_of new j)"
  by (induction new arbitrary: m) (auto simp: or_insert_all_def or_insert_lookup split: option.split)

lemma resolvable_mono: "resolvable d v \<Longrightarrow> (\<And>k. has_key k d \<Longrightarrow> has_key k d') \<Longrightarrow> resolvable d' v"
  by (induction d v rule: resolvable.induct) auto

lemma set_or_insert_all: "set (or_insert_all new m) \<subseteq> set new \<union> set m"
proof (induction new arbitrary: m)
  case (Cons p new)
  have "set (or_insert_all (p # new) m) \<subseteq> set new \<union> set (or_insert (fst p) (snd p) m)"
    using Cons [of "or_insert (fst p) (snd p) m"] by (simp add: or_insert_all_def case_prod_beta)
  then show ?case by (auto simp: or_insert_def split: if_splits)
qed (simp add: or_insert_all_def)

lemma resolvable_or_insert_all:
  assumes "resolvable d (JObj new)" "resolvable d (JObj m)"
  shows "resolvable d (JObj (or_insert_all new m))"
proof -
  have "\<forall>v \<in> set (map snd (or_insert_all new m)). resolvable d v"
    using assms subsetD [OF set_or_insert_all [of new m]] by fastforce
  moreover have "has_key (first_token rest) d" if "ref_of (JObj (or_insert_all new m)) = Some (''#/$defs/'' @ rest)" for rest
    using that assms by (cases "map_of m ''$ref''") (auto simp: or_insert_all_lookup)
  ultimately show ?thesis by simp
qed

lemma resolvable_insert:
  "resolvable d (JObj m) \<Longrightarrow> resolvable d v \<Longrightarrow> k \<noteq> ''$ref'' \<Longrightarrow> resolvable d (JObj (obj_insert k v m))"
  by (auto dest!: subsetD [OF set_obj_insert])

lemma resolvable_lookup: "resolvable d (JObj m) \<Longrightarrow> map_of m k = Some v \<Longrightarrow> resolvable d v"
  by (force dest!: map_of_SomeD)

text \<open>An output schema carries the definitions it refers to: grafting the shared definitions onto
  a schema that refers only to them gives a document whose references all name one of its own
  definitions; the schema's own definitions win over the shared ones.\<close>

theorem grafted_schema_resolves:
  assumes "graft_defs (JObj m) defs = JObj m'" "defs \<noteq> []"
    and own: "resolvable defs (JObj m)" and shared: "resolvable defs (JObj defs)"
  shows "\<exists>all. map_of m' ''$defs'' = Some (JObj all) \<and> resolvable all (JObj m')
    \<and> (\<forall>k. map_of all k =
         (case map_of (removed_object ''$defs'' m) k of Some v \<Rightarrow> Some v | None \<Rightarrow> map_of defs k))"
proof -
  define all where "all = (if removed_object ''$defs'' m = [] \<and> map_of m ''$defs'' \<noteq> Some (JObj []) then defs
    else or_insert_all defs (removed_object ''$defs'' m))"
  have lookup: "map_of all k =
      (case map_of (removed_object ''$defs'' m) k of Some v \<Rightarrow> Some v | None \<Rightarrow> map_of defs k)" for k
    by (simp add: all_def or_insert_all_lookup split: option.split)
  have m': "m' = obj_insert ''$defs'' (JObj all) m"
    using assms(1,2)
    by (auto simp: graft_defs_def all_def removed_object_def split: option.splits json.splits)
  have "resolvable defs (JObj (removed_object ''$defs'' m))"
  proof (cases "Option.bind (map_of m ''$defs'') as_object")
    case (Some d)
    then have "map_of m ''$defs'' = Some (JObj d)" by (cases "map_of m ''$defs''") auto
    from resolvable_lookup [OF own this] Some show ?thesis by (simp add: removed_object_def)
  qed (simp add: removed_object_def)
  then have "resolvable defs (JObj all)"
    using shared by (simp add: all_def resolvable_or_insert_all del: resolvable.simps)
  then have "resolvable defs (JObj m')"
    using own m' resolvable_insert by (simp del: resolvable.simps)
  then have "resolvable all (JObj m')"
    by (rule resolvable_mono) (simp add: has_key_def lookup split: option.split)
  with m' lookup show ?thesis by simp
qed

theorem grafted_schema_resolves_witness:
  "\<exists>all. map_of [(''$ref'', JStr ''#/$defs/Tag''), (''$defs'', JObj [(''Tag'', JObj [])])] ''$defs''
     = Some (JObj all)"
  using grafted_schema_resolves [of "[(''$ref'', JStr ''#/$defs/Tag'')]" "[(''Tag'', JObj [])]"
      "[(''$ref'', JStr ''#/$defs/Tag''), (''$defs'', JObj [(''Tag'', JObj [])])]"]
  by (auto simp: graft_defs_def obj_insert_def has_key_def first_token_def)

text \<open>The properties and the required names of an object schema.\<close>

definition props_of :: "json \<Rightarrow> (bytes \<times> json) list" where
  "props_of v = (case Option.bind (jget ''properties'' v) as_object of Some p \<Rightarrow> p | None \<Rightarrow> [])"

definition required_of :: "json \<Rightarrow> bytes set" where
  "required_of v = {s. \<exists>xs. jget ''required'' v = Some (JArr xs) \<and> JStr s \<in> set xs}"

lemma add_props_keeps: "add_props p props = Some r \<Longrightarrow> map_of props k = Some v \<Longrightarrow> map_of r k = Some v"
proof (induction p props rule: add_props.induct)
  case (2 k' v' p props)
  then show ?case
    by (cases "map_of props k'"; cases "k = k'") (auto split: if_splits simp del: map_of_eq_Some_iff)
qed simp

lemma add_props_new: "add_props p props = Some r \<Longrightarrow> (k, v) \<in> set p \<Longrightarrow> map_of r k = Some v"
  by (induction p props rule: add_props.induct)
    (auto split: option.splits if_splits simp del: map_of_eq_Some_iff intro: add_props_keeps)

lemma add_props_only:
  "add_props p props = Some r \<Longrightarrow> map_of r k = Some v \<Longrightarrow> map_of props k = Some v \<or> (k, v) \<in> set p"
  by (induction p props rule: add_props.induct) (auto split: option.splits if_splits simp del: map_of_eq_Some_iff)

lemma foldl_push_required: "set (foldl push_required required xs) = set required \<union> {s. JStr s \<in> set xs}"
  by (induction xs arbitrary: required) (auto simp: push_required_def split: json.splits)

lemma foldl_push_missing: "JStr s \<in> set (foldl push_missing xs ns) \<longleftrightarrow> JStr s \<in> set xs \<or> s \<in> set ns"
  by (induction ns arbitrary: xs) (auto simp: push_missing_def)

text \<open>What the accumulated properties and names are, given the branches merged.\<close>

definition merged :: "json list \<Rightarrow> (bytes \<times> json) list \<times> bytes list \<Rightarrow> (bytes \<times> json) list \<times> bytes list \<Rightarrow> bool" where
  "merged bs acc acc' \<longleftrightarrow>
     (\<forall>b \<in> set bs. \<exists>obj. b = JObj obj \<and> (\<forall>(k, v) \<in> set (props_of b). map_of (fst acc') k = Some v))
     \<and> (\<forall>k v. map_of (fst acc) k = Some v \<longrightarrow> map_of (fst acc') k = Some v)
     \<and> (\<forall>k v. map_of (fst acc') k = Some v \<longrightarrow>
           map_of (fst acc) k = Some v \<or> (\<exists>b \<in> set bs. (k, v) \<in> set (props_of b)))
     \<and> set (snd acc') = set (snd acc) \<union> (\<Union>b \<in> set bs. required_of b)"

lemma merge_branch_merged:
  assumes "merge_branch b acc = Some acc'" shows "merged [b] acc acc'"
proof -
  obtain props required where acc: "acc = (props, required)" by (cases acc)
  with assms obtain obj where b: "b = JObj obj" by (auto simp: merge_branch_def split: option.splits)
  let ?p = "props_of b"
  from assms acc b obtain props' where p: "add_props ?p props = Some props'" "fst acc' = props'"
    "snd acc' = (case Option.bind (map_of obj ''required'') as_array of
        Some reqs \<Rightarrow> foldl push_required required reqs | None \<Rightarrow> required)"
    by (auto simp: merge_branch_def props_of_def split: option.splits if_splits)
  have "set (snd acc') = set required \<union> required_of b"
    using b p(3) by (cases "map_of obj ''required''")
      (auto simp: required_of_def foldl_push_required split: option.splits simp del: map_of_eq_Some_iff)
  with add_props_keeps [OF p(1)] add_props_new [OF p(1)] add_props_only [OF p(1)] p(2) acc b
  show ?thesis by (auto simp: merged_def simp del: map_of_eq_Some_iff)
qed

lemma merge_branches_merged: "merge_branches bs acc = Some acc' \<Longrightarrow> merged bs acc acc'"
proof (induction bs acc rule: merge_branches.induct)
  case (2 b bs acc)
  then obtain acc1 where a: "merge_branch b acc = Some acc1" "merge_branches bs acc1 = Some acc'"
    by (auto split: option.splits)
  from merge_branch_merged [OF a(1)] "2.IH" [OF a] show ?case
    by (fastforce simp: merged_def simp del: map_of_eq_Some_iff)
qed (simp add: merged_def)

lemma has_key_lookup: "has_key k m \<longleftrightarrow> (\<exists>v. map_of m k = Some v)"
  by (auto simp: has_key_def)

lemma put_other:
  "k \<noteq> ''properties'' \<Longrightarrow> map_of (put_props props m) k = map_of m k"
  "k \<noteq> ''required'' \<Longrightarrow> map_of (put_required required m) k = map_of m k"
  "k \<noteq> ''type'' \<Longrightarrow> map_of (put_type m) k = map_of m k"
  by (simp_all add: put_props_def put_required_def put_type_def split: option.split json.split)

lemma put_props_props:
  "map_of (props_of (JObj (put_props props m))) k
     = (case map_of (props_of (JObj m)) k of Some x \<Rightarrow> Some x | None \<Rightarrow> map_of props k)"
proof (cases "Option.bind (map_of m ''properties'') as_object")
  case (Some p)
  then have "map_of m ''properties'' = Some (JObj p)" by (cases "map_of m ''properties''") auto
  then show ?thesis by (simp add: props_of_def put_props_def or_insert_all_lookup split: option.split)
next
  case None
  then have "map_of m ''properties'' \<noteq> Some (JObj p)" for p by auto
  with None show ?thesis by (simp add: props_of_def put_props_def split: option.split json.split)
qed

lemma put_required_required:
  "required_of (JObj (put_required required m)) = required_of (JObj m) \<union> set required"
proof (cases "Option.bind (map_of m ''required'') as_array")
  case (Some xs)
  then have "map_of m ''required'' = Some (JArr xs)" by (cases "map_of m ''required''") auto
  then show ?thesis by (auto simp: required_of_def put_required_def foldl_push_missing)
next
  case None
  then have "map_of m ''required'' \<noteq> Some (JArr xs)" for xs by auto
  then show ?thesis
    by (auto simp: required_of_def put_required_def simp del: map_of_eq_Some_iff split: option.split json.split)
qed



text \<open>Flattening forgets what it does not merge: the other keywords of a branch, such as a closed
  \<open>additionalProperties\<close>, are dropped, and a property of the schema itself hides a different
  one of a branch, although two branches that differ keep the \<open>allOf\<close>.\<close>

theorem flattening_drops_branch_keywords:
  "flatten_allof (JObj [(''properties'', JObj [(''id'', JObj [(''type'', JStr ''integer'')])]),
      (''allOf'', JArr [JObj [(''additionalProperties'', JBool False), (''minProperties'', JNum (PosInt 1)),
         (''properties'', JObj [(''id'', JObj [(''type'', JStr ''string'')])])]])])
   = (JObj [(''properties'', JObj [(''id'', JObj [(''type'', JStr ''integer'')])]),
        (''type'', JStr ''object'')], False)"
  by code_simp

end
