(* ===== verification/Ir_Types.thy ===== *)
theory Ir_Types
  imports Json
begin

text \<open>
  The normalized API definition (\<open>mcp-gateway-ir/src/types.rs\<close>, \<open>report.rs\<close>): the data the
  compiler writes and the proxy reads, the warning codes, and \<open>Style::serialise\<close>, which puts a
  JSON argument on the wire. A \<open>BTreeMap\<close> is its entries in key order; the JSON printer
  (\<open>Value::to_string\<close>) is the argument \<open>show_json\<close>.
\<close>

section \<open>Types\<close>

datatype source_kind = File | Url_Source | Stdin

record source_meta =
  sm_kind :: source_kind
  sm_locator :: bytes
  sm_sha256 :: bytes

record gateway_meta =
  gm_title :: bytes
  gm_description :: "bytes option"
  gm_spec_version :: bytes
  gm_source :: source_meta

record server_variable =
  sv_default :: "bytes option"
  sv_enum_values :: "bytes list option"

record server =
  srv_url_template :: bytes
  srv_variables :: "(bytes \<times> server_variable) list"
  srv_description :: "bytes option"

datatype api_key_location = In_Header | In_Query | In_Cookie

datatype security_scheme =
    Api_Key bytes api_key_location
  | Http_Scheme bytes "bytes option"
  | OAuth2 json
  | OpenIdConnect bytes
  | MutualTls

record security_requirement =
  sr_schemes :: "(bytes \<times> bytes list) list"

datatype param_location = Loc_Path | Loc_Query | Loc_Header | Loc_Cookie

datatype style = Simple | Form | Label | Matrix | SpaceDelimited | PipeDelimited | DeepObject

record parameter =
  pm_name :: bytes
  pm_location :: param_location
  pm_required :: bool
  pm_schema :: json
  pm_style :: style
  pm_explode :: bool
  pm_description :: "bytes option"

record request_body =
  rb_required :: bool
  rb_content_type :: bytes
  rb_schema :: json
  rb_folded_into_input :: bool

record response_body =
  rsb_content_type :: "bytes option"
  rsb_schema :: "json option"

record http_binding =
  hb_method :: bytes
  hb_path_template :: bytes
  hb_effective_servers :: "server list"
  hb_parameters :: "parameter list"
  hb_request_body :: "request_body option"
  hb_responses :: "(bytes \<times> response_body) list"

record tool_annotations =
  ta_read_only_hint :: bool
  ta_destructive_hint :: "bool option"
  ta_idempotent_hint :: "bool option"
  ta_open_world_hint :: bool

record mcp_tool =
  mt_name :: bytes
  mt_title :: bytes
  mt_description :: bytes
  mt_input_schema :: json
  mt_output_schema :: "json option"
  mt_annotations :: tool_annotations

record operation_source =
  os_operation_id :: "bytes option"
  os_method :: bytes
  os_path_template :: bytes

record arg_binding =
  ab_arg_name :: bytes
  ab_wire_name :: bytes
  ab_style :: style
  ab_explode :: bool
  ab_required :: bool

record folded_key =
  fk_arg_name :: bytes
  fk_wire_name :: bytes

datatype body_mode = Fold | Whole | FormUrlencoded

record body_binding =
  bb_mode :: body_mode
  bb_content_type :: bytes
  bb_arg_name :: "bytes option"
  bb_folded_keys :: "folded_key list"

record execution_plan =
  ep_method :: bytes
  ep_path_template :: bytes
  ep_path_params :: "arg_binding list"
  ep_query_params :: "arg_binding list"
  ep_header_params :: "arg_binding list"
  ep_cookie_params :: "arg_binding list"
  ep_body :: "body_binding option"
  ep_accept :: bytes
  ep_timeout_ms :: "64 word"

record operation =
  op_id :: bytes
  op_tool :: mcp_tool
  op_source :: operation_source
  op_http :: http_binding
  op_security :: "security_requirement list"
  op_tags :: "bytes list"
  op_category :: bytes
  op_deprecated :: bool
  op_destructive :: bool
  op_enabled_by_default :: bool
  op_execution_plan :: execution_plan

record normalized_api =
  na_ir_version :: bytes
  na_gateway :: gateway_meta
  na_servers :: "server list"
  na_security_schemes :: "(bytes \<times> security_scheme) list"
  na_operations :: "operation list"

section \<open>The report\<close>

datatype severity = Info | Warn | Blocking

datatype warning_code =
    MissingOperationId | DuplicateOperationId | WeakDescription | MissingRequestSchema
  | MissingResponseSchema | UnsupportedStyle | Deprecated | Destructive | AuthUnsupported
  | BinaryBody | Streaming | LargeSchema | RecursiveSchema | NoServers | UnresolvedRef
  | UnsupportedMethod | NameCollision | ToolExplosion | AllOfUnflattened | Discriminator
  | NoJsonResponse

fun code_str :: "warning_code \<Rightarrow> bytes" where
  "code_str MissingOperationId = ''W_MISSING_OPERATION_ID''"
| "code_str DuplicateOperationId = ''W_DUPLICATE_OPERATION_ID''"
| "code_str WeakDescription = ''W_WEAK_DESCRIPTION''"
| "code_str MissingRequestSchema = ''W_MISSING_REQUEST_SCHEMA''"
| "code_str MissingResponseSchema = ''W_MISSING_RESPONSE_SCHEMA''"
| "code_str UnsupportedStyle = ''W_UNSUPPORTED_STYLE''"
| "code_str Deprecated = ''W_DEPRECATED''"
| "code_str Destructive = ''W_DESTRUCTIVE''"
| "code_str AuthUnsupported = ''W_AUTH_UNSUPPORTED''"
| "code_str BinaryBody = ''W_BINARY_BODY''"
| "code_str Streaming = ''W_STREAMING''"
| "code_str LargeSchema = ''W_LARGE_SCHEMA''"
| "code_str RecursiveSchema = ''W_RECURSIVE_SCHEMA''"
| "code_str NoServers = ''W_NO_SERVERS''"
| "code_str UnresolvedRef = ''W_UNRESOLVED_REF''"
| "code_str UnsupportedMethod = ''W_UNSUPPORTED_METHOD''"
| "code_str NameCollision = ''W_NAME_COLLISION''"
| "code_str ToolExplosion = ''W_TOOL_EXPLOSION''"
| "code_str AllOfUnflattened = ''W_ALLOF_UNFLATTENED''"
| "code_str Discriminator = ''W_DISCRIMINATOR''"
| "code_str NoJsonResponse = ''W_NO_JSON_RESPONSE''"

definition default_severity :: "warning_code \<Rightarrow> severity" where
  "default_severity c =
     (if c \<in> {MissingResponseSchema, Deprecated, RecursiveSchema, AllOfUnflattened, Discriminator,
              NoJsonResponse} then Info
      else if c \<in> {BinaryBody, Streaming, UnresolvedRef, UnsupportedMethod} then Blocking
      else Warn)"

record warning =
  w_code :: warning_code
  w_severity :: severity
  w_operation_id :: "bytes option"
  w_method :: "bytes option"
  w_path :: "bytes option"
  w_message :: bytes
  w_pointer :: "bytes option"

record skipped_operation =
  sk_method :: bytes
  sk_path :: bytes
  sk_operation_id :: "bytes option"
  sk_codes :: "warning_code list"

record analysis_report =
  ar_spec_title :: bytes
  ar_spec_version :: bytes
  ar_operations_total :: "32 word"
  ar_operations_compiled :: "32 word"
  ar_operations_skipped :: "32 word"
  ar_tools_enabled_by_default :: "32 word"
  ar_compile_ms :: "64 word"
  ar_warnings :: "warning list"
  ar_skipped :: "skipped_operation list"

record compile_bundle =
  cb_api :: normalized_api
  cb_report :: analysis_report

definition IR_VERSION :: bytes where
  "IR_VERSION = ''1.0''"

section \<open>Arguments on the wire\<close>

fun join_with :: "bytes \<Rightarrow> bytes list \<Rightarrow> bytes" where
  "join_with sep [] = []"
| "join_with sep [s] = s"
| "join_with sep (s # t) = s @ sep @ join_with sep t"

definition scalar :: "(json \<Rightarrow> bytes) \<Rightarrow> json \<Rightarrow> bytes" where
  "scalar show_json v =
     (case v of
        JNull \<Rightarrow> []
      | JBool b \<Rightarrow> if b then ''true'' else ''false''
      | JNum n \<Rightarrow> show_json (JNum n)
      | JStr s \<Rightarrow> s
      | other \<Rightarrow> show_json other)"

definition flat_entries :: "(json \<Rightarrow> bytes) \<Rightarrow> (bytes \<times> json) list \<Rightarrow> bytes list" where
  "flat_entries show_json m = concat (map (\<lambda>(k, v). [k, scalar show_json v]) m)"

definition simple :: "(json \<Rightarrow> bytes) \<Rightarrow> json \<Rightarrow> bytes" where
  "simple show_json v =
     (case v of
        JArr items \<Rightarrow> join_with '','' (map (scalar show_json) items)
      | JObj m \<Rightarrow> join_with '','' (flat_entries show_json m)
      | other \<Rightarrow> scalar show_json other)"

definition join_value :: "(json \<Rightarrow> bytes) \<Rightarrow> json \<Rightarrow> bytes \<Rightarrow> bytes" where
  "join_value show_json v sep =
     (case v of
        JArr items \<Rightarrow> join_with sep (map (scalar show_json) items)
      | other \<Rightarrow> scalar show_json other)"

definition form :: "(json \<Rightarrow> bytes) \<Rightarrow> bytes \<Rightarrow> json \<Rightarrow> bool \<Rightarrow> (bytes \<times> bytes) list" where
  "form show_json name v explode =
     (case v of
        JArr items \<Rightarrow>
          if explode then map (\<lambda>x. (name, scalar show_json x)) items
          else [(name, join_value show_json v '','')]
      | JObj m \<Rightarrow>
          if explode then map (\<lambda>(k, x). (k, scalar show_json x)) m
          else [(name, join_with '','' (flat_entries show_json m))]
      | other \<Rightarrow> [(name, scalar show_json other)])"

fun serialise :: "(json \<Rightarrow> bytes) \<Rightarrow> style \<Rightarrow> bool \<Rightarrow> bytes \<Rightarrow> json \<Rightarrow> (bytes \<times> bytes) list" where
  "serialise show_json Simple explode name v = [(name, simple show_json v)]"
| "serialise show_json Form explode name v = form show_json name v explode"
| "serialise show_json SpaceDelimited explode name v = [(name, join_value show_json v '' '')]"
| "serialise show_json PipeDelimited explode name v = [(name, join_value show_json v ''|'')]"
| "serialise show_json Label explode name v = [(name, ''.'' @ simple show_json v)]"
| "serialise show_json Matrix explode name v =
     [(name, '';'' @ name @ ''='' @ simple show_json v)]"
| "serialise show_json DeepObject explode name v = []"

lemma serialise_single:
  "st \<noteq> DeepObject \<Longrightarrow> \<not> explode \<or> st \<noteq> Form \<Longrightarrow>
     \<exists>s. serialise show_json st explode name v = [(name, s)]"
  by (cases st) (auto simp: form_def split: json.splits)

text \<open>Delimited lists are read back by splitting, when no item holds the separator.\<close>

lemma join_with_Cons: "t \<noteq> [] \<Longrightarrow> join_with sep (s # t) = s @ sep @ join_with sep t"
  by (cases t) simp_all

lemma split_by_sep: "p c \<Longrightarrow> list_all (\<lambda>x. \<not> p x) s \<Longrightarrow> split_by p (s @ c # t) = s # split_by p t"
  by (induction s) simp_all

lemma split_join:
  "\<lbrakk>ss \<noteq> []; \<forall>s \<in> set ss. c \<notin> set s\<rbrakk> \<Longrightarrow> split_by ((=) c) (join_with [c] ss) = ss"
proof (induction ss)
  case (Cons s t)
  then have s: "list_all (\<lambda>x. c \<noteq> x) s" by (auto simp: list_all_iff)
  show ?case
  proof (cases "t = []")
    case True
    with s show ?thesis by (simp add: split_by_single)
  next
    case False
    with Cons s show ?thesis by (simp add: join_with_Cons split_by_sep)
  qed
qed simp

fun delimiter :: "style \<Rightarrow> char option" where
  "delimiter Simple = Some CHR '',''"
| "delimiter Form = Some CHR '',''"
| "delimiter SpaceDelimited = Some CHR '' ''"
| "delimiter PipeDelimited = Some CHR ''|''"
| "delimiter _ = None"

text \<open>An array of strings is recoverable from the wire. In the delimited styles, not exploded,
  it is one pair under the parameter's name whose value splits at the delimiter into the items,
  when the array is not empty and no item holds the delimiter; an exploded form array is one
  pair per item, in order.\<close>

theorem array_on_the_wire:
  "(ss \<noteq> [] \<and> delimiter st = Some c \<and> (\<forall>s \<in> set ss. c \<notin> set s) \<longrightarrow>
      (\<exists>w. serialise show_json st False name (JArr (map JStr ss)) = [(name, w)]
         \<and> split_by ((=) c) w = ss))
   \<and> serialise show_json Form True name (JArr (map JStr ss)) = map (Pair name) ss"
proof -
  have sc: "map (scalar show_json \<circ> JStr) ss = ss"
    by (induction ss) (simp_all add: scalar_def)
  show ?thesis
    using split_join [of ss c]
    by (cases st) (auto simp: simple_def form_def join_value_def sc scalar_def comp_def)
qed

theorem array_on_the_wire_witness:
  "\<exists>w. serialise (\<lambda>_. []) PipeDelimited False ''tag'' (JArr [JStr ''a'', JStr ''b'']) = [(''tag'', w)]
     \<and> split_by ((=) CHR ''|'') w = [''a'', ''b'']"
  using array_on_the_wire [of "[''a'', ''b'']" PipeDelimited "CHR ''|''" "\<lambda>_. []" "''tag''"]
  by simp

lemma code_str_inj: "inj code_str"
proof (rule injI)
  fix a b
  assume "code_str a = code_str b"
  then show "a = b" by (cases a; cases b) simp_all
qed

end
