(* ===== verification/Spec_Load.thy ===== *)
theory Spec_Load
  imports Schema_Shape Ir_Types
begin

text \<open>
  Loading and parsing a specification (\<open>crates/mcp-gateway-compile/src/loader.rs\<close>,
  \<open>parse.rs\<close>, \<open>server_url.rs\<close>, \<open>error.rs\<close>). Files, standard input, the HTTP client, the digest,
  the URL library and the JSON, YAML and OpenAPI parsers are parameters.
\<close>

section \<open>Errors (loader.rs, parse.rs, error.rs)\<close>

definition SPEC_MAX_BYTES :: nat where [enum_defs]: "SPEC_MAX_BYTES = 10 * 1024 * 1024"

datatype load_error = Load_Io bytes | Load_Too_Large | Load_Safety safety_error | Load_Download bytes

fun load_exit_code :: "load_error \<Rightarrow> int" where
  "load_exit_code (Load_Safety _) = 3"
| "load_exit_code (Load_Io _) = 4"
| "load_exit_code (Load_Download _) = 4"
| "load_exit_code Load_Too_Large = 4"

datatype compile_error = Err_Parse bytes | Err_Load load_error | Err_Safety safety_error

fun compile_exit_code :: "compile_error \<Rightarrow> int" where
  "compile_exit_code (Err_Parse _) = 1"
| "compile_exit_code (Err_Load e) = load_exit_code e"
| "compile_exit_code (Err_Safety _) = 3"

fun is_safety :: "compile_error \<Rightarrow> bool" where
  "is_safety (Err_Safety _) = True"
| "is_safety (Err_Load (Load_Safety _)) = True"
| "is_safety _ = False"

section \<open>The loader (loader.rs)\<close>

datatype spec_source = Src_File bytes | Src_Stdin | Src_Url bytes

datatype spec_format = Fmt_Json | Fmt_Yaml

datatype openapi_family = V3_0 | V3_1

record loaded_spec =
  ls_bytes :: bytes
  ls_source :: source_meta
  ls_format :: spec_format
  ls_family :: openapi_family
  ls_spec_version :: bytes

text \<open>
  The outside of the loader: a file or standard input as the pieces its reads return (\<open>Inl\<close> is a
  failed open, the flag tells whether the reads ended without an error), the client, the parsers,
  the digest, and the credential stripping of the URL library.
\<close>

record load_env =
  ln_open :: "bytes \<Rightarrow> bytes + (bytes list \<times> bool)"
  ln_stdin :: "bytes list \<times> bool"
  ln_send :: "bool \<Rightarrow> bytes \<Rightarrow> http_reply"
  ln_parse_url :: "bytes \<Rightarrow> bytes + url"
  ln_show_url :: "url \<Rightarrow> bytes"
  ln_lookup :: lookup
  ln_json :: "bytes \<Rightarrow> bytes + json"
  ln_yaml :: "bytes \<Rightarrow> bytes + json"
  ln_sha256_hex :: "bytes \<Rightarrow> bytes"

definition sniff_format :: "bytes \<Rightarrow> spec_format" where
  "sniff_format b =
     (case find (\<lambda>c. \<not> is_ascii_ws c) b of
        Some c \<Rightarrow> if c = CHR ''{'' \<or> c = CHR ''['' then Fmt_Json else Fmt_Yaml
      | None \<Rightarrow> Fmt_Yaml)"

definition parse_value :: "load_env \<Rightarrow> bytes \<Rightarrow> spec_format \<Rightarrow> bytes + json" where
  "parse_value env b fmt = (case fmt of Fmt_Json \<Rightarrow> ln_json env b | Fmt_Yaml \<Rightarrow> ln_yaml env b)"

definition openapi_field :: "json \<Rightarrow> bytes" where
  "openapi_field v = (case Option.bind (jget ''openapi'' v) as_str of Some s \<Rightarrow> s | None \<Rightarrow> [])"

definition detect_version :: "load_env \<Rightarrow> bytes \<Rightarrow> spec_format \<Rightarrow> openapi_family \<times> bytes" where
  "detect_version env b fmt =
     (let v = (case parse_value env b fmt of Inr v \<Rightarrow> v | Inl _ \<Rightarrow> JNull);
          ver = openapi_field v
      in (if starts_with ver ''3.0'' then V3_0 else V3_1, ver))"

text \<open>An empty read ends the file.\<close>

fun read_capped :: "bytes \<Rightarrow> bytes list \<Rightarrow> bool \<Rightarrow> load_error + bytes" where
  "read_capped buf [] ok = (if ok then Inr buf else Inl (Load_Io ''read''))"
| "read_capped buf (data # rest) ok =
     (if data = [] then Inr buf
      else if SPEC_MAX_BYTES < length buf + length data then Inl Load_Too_Large
      else read_capped (buf @ data) rest ok)"

definition download_spec :: "load_env \<Rightarrow> bytes \<Rightarrow> bool \<Rightarrow> load_error + bytes" where
  "download_spec env u allow_http =
     (case download_capped (ln_send env) u SPEC_MAX_BYTES allow_http of
        Inr b \<Rightarrow> Inr b
      | Inl Too_Large \<Rightarrow> Inl Load_Too_Large
      | Inl (Failed m) \<Rightarrow> Inl (Load_Download m))"

definition strip_credentials :: "load_env \<Rightarrow> bytes \<Rightarrow> bytes" where
  "strip_credentials env raw =
     (case ln_parse_url env raw of
        Inr u \<Rightarrow> ln_show_url env (u\<lparr>url_username := [], url_password := None\<rparr>)
      | Inl _ \<Rightarrow> raw)"

definition finish :: "load_env \<Rightarrow> bytes \<Rightarrow> source_kind \<Rightarrow> bytes \<Rightarrow> load_error + loaded_spec" where
  "finish env b kind locator =
     (if SPEC_MAX_BYTES < length b then Inl Load_Too_Large
      else (let fmt = sniff_format b; (family, version) = detect_version env b fmt
            in Inr \<lparr>ls_bytes = b,
                 ls_source = \<lparr>sm_kind = kind, sm_locator = locator, sm_sha256 = ln_sha256_hex env b\<rparr>,
                 ls_format = fmt, ls_family = family, ls_spec_version = version\<rparr>))"

definition load_with :: "load_env \<Rightarrow> spec_source \<Rightarrow> safety_opts \<Rightarrow> load_error + loaded_spec" where
  "load_with env source opts =
     (case source of
        Src_File path \<Rightarrow>
          (case ln_open env path of
             Inl e \<Rightarrow> Inl (Load_Io e)
           | Inr (chunks, ok) \<Rightarrow> and_then (read_capped [] chunks ok) (\<lambda>b. finish env b File path))
      | Src_Stdin \<Rightarrow>
          and_then (read_capped [] (fst (ln_stdin env)) (snd (ln_stdin env))) (\<lambda>b. finish env b Stdin ''-'')
      | Src_Url raw \<Rightarrow>
          (case parse_https_url_with (ln_parse_url env) (ln_lookup env) raw opts of
             Inl e \<Rightarrow> Inl (Load_Safety e)
           | Inr u \<Rightarrow>
               (case resolve_and_check_with (ln_lookup env) opts
                       (case host_str u of Some h \<Rightarrow> h | None \<Rightarrow> []) of
                  Inl e \<Rightarrow> Inl (Load_Safety e)
                | Inr _ \<Rightarrow>
                    and_then (download_spec env (ln_show_url env u) (url_scheme u = ''http''))
                      (\<lambda>b. finish env b Url_Source (strip_credentials env raw)))))"

definition load_bytes :: "load_env \<Rightarrow> bytes \<Rightarrow> source_kind \<Rightarrow> bytes \<Rightarrow> load_error + loaded_spec" where
  "load_bytes env b kind locator =
     (if SPEC_MAX_BYTES < length b then Inl Load_Too_Large else finish env b kind locator)"

section \<open>Parsing (parse.rs)\<close>

definition require_openapi_3 :: "json \<Rightarrow> bytes \<Rightarrow> bytes + unit" where
  "require_openapi_3 v spec_version =
     (if starts_with spec_version ''3.0'' \<or> starts_with spec_version ''3.1'' then Inr ()
      else case Option.bind (jget ''swagger'' v) as_str of
        Some swagger \<Rightarrow>
          Inl (''Swagger '' @ swagger @ '' is not supported; use an OpenAPI 3.0 or 3.1 document'')
      | None \<Rightarrow>
          if spec_version = []
          then Inl ''missing openapi version field; use an OpenAPI 3.0 or 3.1 document''
          else Inl (''OpenAPI '' @ spec_version @ '' is not supported; use an OpenAPI 3.0 or 3.1 document''))"

text \<open>
  The typed parsers of the \<open>openapiv3\<close> and \<open>oas3\<close> crates only accept or refuse the document:
  \<open>typed_3_0\<close> gets the bytes, the format and the value, \<open>typed_3_1\<close> the value.
\<close>

definition parse_to_value ::
    "load_env \<Rightarrow> (bytes \<Rightarrow> spec_format \<Rightarrow> json \<Rightarrow> bytes + unit) \<Rightarrow> (json \<Rightarrow> bytes + unit) \<Rightarrow>
       bytes \<Rightarrow> spec_format \<Rightarrow> openapi_family \<Rightarrow> bytes + json \<times> bytes" where
  "parse_to_value env typed_3_0 typed_3_1 b fmt family =
     (case parse_value env b fmt of
        Inl e \<Rightarrow> Inl e
      | Inr v \<Rightarrow>
          (let spec_version = openapi_field v in
           case require_openapi_3 v spec_version of
             Inl e \<Rightarrow> Inl e
           | Inr _ \<Rightarrow>
               (case family of
                  V3_0 \<Rightarrow>
                    (case typed_3_0 b fmt v of
                       Inl e \<Rightarrow> Inl (''openapiv3: '' @ e)
                     | Inr _ \<Rightarrow> Inr (normalize_3_0 v, spec_version))
                | V3_1 \<Rightarrow>
                    (case typed_3_1 v of
                       Inl e \<Rightarrow> Inl (''oas3: '' @ e)
                     | Inr _ \<Rightarrow> Inr (v, spec_version)))))"

section \<open>Server URLs (server_url.rs)\<close>

fun substitute_from :: "bool \<Rightarrow> bytes \<Rightarrow> bytes" where
  "substitute_from in_var [] = []"
| "substitute_from in_var (c # cs) =
     (if in_var then substitute_from (c \<noteq> CHR ''}'') cs
      else if c = CHR ''{'' then CHR ''x'' # substitute_from True cs
      else c # substitute_from False cs)"

definition substitute_template_vars :: "bytes \<Rightarrow> bytes" where
  "substitute_template_vars s = substitute_from False s"

definition is_absolute_http_url :: "(bytes \<Rightarrow> bytes + url) \<Rightarrow> bytes \<Rightarrow> bool" where
  "is_absolute_http_url parse_url s =
     (case parse_url (substitute_template_vars s) of
        Inr u \<Rightarrow> url_host u \<noteq> None \<and> url_scheme u \<in> {''http'', ''https''}
      | Inl _ \<Rightarrow> False)"

definition resolve_server_url ::
    "(bytes \<Rightarrow> bytes + url) \<Rightarrow> (url \<Rightarrow> bytes \<Rightarrow> bytes + url) \<Rightarrow> (url \<Rightarrow> bytes) \<Rightarrow> bytes option \<Rightarrow> bytes \<Rightarrow> bytes" where
  "resolve_server_url parse_url join_url show_url document_url server_url =
     (if is_absolute_http_url parse_url server_url then server_url
      else case document_url of
        None \<Rightarrow> server_url
      | Some doc \<Rightarrow>
          (case and_then (parse_url doc) (\<lambda>base. join_url base server_url) of
             Inr joined \<Rightarrow> if url_host joined \<noteq> None then show_url joined else server_url
           | Inl _ \<Rightarrow> server_url))"

section \<open>Properties\<close>

lemma read_capped_length: "read_capped buf cs ok = Inr b \<Longrightarrow> length buf \<le> SPEC_MAX_BYTES \<Longrightarrow> length b \<le> SPEC_MAX_BYTES"
  by (induction buf cs ok rule: read_capped.induct) (auto split: if_splits)

text \<open>A document that loads is at most 10 MiB, whatever the file, the standard input or the server
  hands over; one from a URL was fetched with plain \<open>http\<close> only when both opt-ins are set and its
  host is private, and its recorded locator is the one without credentials.\<close>

theorem loaded_documents_are_capped:
  assumes "load_with env source opts = Inr spec"
  shows "length (ls_bytes spec) \<le> SPEC_MAX_BYTES
    \<and> ls_spec_version spec = snd (detect_version env (ls_bytes spec) (ls_format spec))
    \<and> (case source of
         Src_Url raw \<Rightarrow>
           (\<exists>u. parse_https_url_with (ln_parse_url env) (ln_lookup env) raw opts = Inr u
              \<and> (url_scheme u = ''https''
                 \<or> url_scheme u = ''http'' \<and> so_allow_insecure_http opts \<and> so_allow_private opts))
           \<and> sm_locator (ls_source spec) = strip_credentials env raw
       | _ \<Rightarrow> True)"
proof -
  have fin: "length (ls_bytes s) \<le> SPEC_MAX_BYTES
      \<and> ls_spec_version s = snd (detect_version env (ls_bytes s) (ls_format s))
      \<and> sm_locator (ls_source s) = l"
    if "finish env b k l = Inr s" for b k l s
    using that by (auto simp: finish_def Let_def split: if_splits prod.splits)
  have sch: "url_scheme u = ''https'' \<or> url_scheme u = ''http'' \<and> so_allow_insecure_http opts \<and> so_allow_private opts"
    if "parse_https_url_with (ln_parse_url env) (ln_lookup env) raw opts = Inr u" for raw u
  proof -
    from that have "assert_scheme (ln_lookup env) opts u = Inr ()"
      by (auto simp: parse_https_url_with_def split: sum.splits)
    then show ?thesis
      by (auto simp: assert_scheme_def assert_private_http_def split: if_splits option.splits bool.splits)
  qed
  show ?thesis
  proof (cases "source")
    case (Src_Url raw)
    with assms fin sch show ?thesis by (fastforce simp: load_with_def split: sum.splits)
  qed (use assms fin in \<open>auto simp: load_with_def split: sum.splits\<close>)
qed

definition sample_load :: load_env where
  "sample_load =
     \<lparr>ln_open = (\<lambda>_. Inr ([''{}''], True)), ln_stdin = ([], True), ln_send = (\<lambda>_ _. sample_reply),
      ln_parse_url = (\<lambda>_. Inr (https_url (Host_V4 (IPv4 93 184 216 34)))), ln_show_url = (\<lambda>_. ''https://93.184.216.34/''),
      ln_lookup = (\<lambda>_. Inl []), ln_json = (\<lambda>_. Inr (JObj [(''openapi'', JStr ''3.0.3''), (''nullable'', JNull)])),
      ln_yaml = (\<lambda>_. Inl ''yaml''), ln_sha256_hex = (\<lambda>_. ''00'')\<rparr>"

theorem loaded_documents_are_capped_witness:
  "\<exists>spec. load_with sample_load (Src_File ''api.json'') safety_default = Inr spec
     \<and> length (ls_bytes spec) \<le> SPEC_MAX_BYTES \<and> ls_family spec = V3_0"
proof -
  have r: "read_capped [] [''{}''] True = Inr ''{}''" by (simp add: SPEC_MAX_BYTES_def)
  have d: "sniff_format ''{}'' = Fmt_Json" "detect_version sample_load ''{}'' Fmt_Json = (V3_0, ''3.0.3'')"
    by (code_simp, simp add: detect_version_def parse_value_def sample_load_def openapi_field_def)
  have o: "ln_open sample_load ''api.json'' = Inr ([''{}''], True)" by (simp add: sample_load_def)
  obtain spec where s: "load_with sample_load (Src_File ''api.json'') safety_default = Inr spec" "ls_family spec = V3_0"
    using r d o by (simp add: load_with_def finish_def SPEC_MAX_BYTES_def)
  from loaded_documents_are_capped [OF s(1)] s show ?thesis by auto
qed

text \<open>Only OpenAPI 3.0 and 3.1 documents are compiled: what the parser returns declares one of the
  two versions, and with the family the loader detects, a 3.0 document comes back normalized and a
  3.1 document as it was.\<close>

theorem parsed_documents_are_openapi_3:
  assumes "parse_to_value env typed_3_0 typed_3_1 b fmt (fst (detect_version env b fmt)) = Inr (v, ver)"
  shows "(starts_with ver ''3.0'' \<or> starts_with ver ''3.1'') \<and> ver = snd (detect_version env b fmt)
    \<and> (\<exists>raw. parse_value env b fmt = Inr raw \<and> openapi_field raw = ver
          \<and> v = (if starts_with ver ''3.0'' then normalize_3_0 raw else raw))"
proof -
  from assms obtain raw where raw: "parse_value env b fmt = Inr raw" "ver = openapi_field raw"
    "require_openapi_3 raw ver = Inr ()"
    by (auto simp: parse_to_value_def Let_def split: sum.splits openapi_family.splits)
  then have "starts_with ver ''3.0'' \<or> starts_with ver ''3.1''"
    by (auto simp: require_openapi_3_def split: if_splits option.splits)
  with raw assms show ?thesis
    by (auto simp: parse_to_value_def detect_version_def Let_def split: sum.splits if_splits openapi_family.splits)
qed

theorem parsed_documents_are_openapi_3_witness:
  "\<exists>v. parse_to_value sample_load (\<lambda>_ _ _. Inr ()) (\<lambda>_. Inr ()) ''{}'' Fmt_Json V3_0 = Inr (v, ''3.0.3'')
     \<and> v = normalize_3_0 (JObj [(''openapi'', JStr ''3.0.3''), (''nullable'', JNull)])"
proof -
  have d: "fst (detect_version sample_load ''{}'' Fmt_Json) = V3_0"
    by (simp add: detect_version_def parse_value_def sample_load_def openapi_field_def)
  obtain v where v: "parse_to_value sample_load (\<lambda>_ _ _. Inr ()) (\<lambda>_. Inr ()) ''{}'' Fmt_Json
      (fst (detect_version sample_load ''{}'' Fmt_Json)) = Inr (v, ''3.0.3'')"
    unfolding d by (simp add: parse_to_value_def parse_value_def sample_load_def openapi_field_def require_openapi_3_def Let_def)
  from parsed_documents_are_openapi_3 [OF v] v d show ?thesis
    by (auto simp: parse_value_def sample_load_def)
qed

end
