(* ===== verification/Http_Headers.thy ===== *)
theory Http_Headers
  imports Ssrf
begin

text \<open>
  Request headers of the execute path (\<open>mcp-gateway-proxy/src/headers.rs\<close>) and its errors
  (\<open>error.rs\<close>). An \<open>http::HeaderMap\<close> is the list of its entries, names lowercase; its order is
  not observed. \<open>HeaderName::from_bytes\<close>, \<open>HeaderValue::from_str\<close> and \<open>to_str\<close> are the library's
  and come as the record \<open>hlib\<close>.
\<close>

section \<open>Header maps\<close>

type_synonym hmap = "(bytes \<times> bytes) list"

record hlib =
  hl_name :: "bytes \<Rightarrow> bytes option"
  hl_value :: "bytes \<Rightarrow> bool"
  hl_to_str :: "bytes \<Rightarrow> bytes option"

definition hremove :: "bytes \<Rightarrow> hmap \<Rightarrow> hmap" where
  "hremove n hs = filter (\<lambda>h. fst h \<noteq> n) hs"

definition hinsert :: "bytes \<Rightarrow> bytes \<Rightarrow> hmap \<Rightarrow> hmap" where
  "hinsert n v hs = hremove n hs @ [(n, v)]"

definition hget :: "bytes \<Rightarrow> hmap \<Rightarrow> bytes option" where
  "hget n hs = map_of hs n"

definition hget_all :: "bytes \<Rightarrow> hmap \<Rightarrow> bytes list" where
  "hget_all n hs = map snd (filter (\<lambda>h. fst h = n) hs)"

definition hcontains :: "bytes \<Rightarrow> hmap \<Rightarrow> bool" where
  "hcontains n hs \<longleftrightarrow> n \<in> fst ` set hs"

text \<open>
  The documented behaviour of \<open>HeaderName::from_bytes\<close>: a token of moderate length is accepted
  and lowercased, and nothing but a token is.
\<close>

definition header_token :: "bytes \<Rightarrow> bool" where
  "header_token s \<longleftrightarrow> s \<noteq> [] \<and> list_all (\<lambda>c. is_alnum c \<or> c \<in> set ''!#$%&*+-.^_`|~'' \<or> of_char c = (39 :: nat)) s"

definition names_documented :: "hlib \<Rightarrow> bool" where
  "names_documented hl \<longleftrightarrow>
     (\<forall>s. length s < 32768 \<longrightarrow> hl_name hl s = (if header_token s then Some (to_lower s) else None))
     \<and> (\<forall>s n. hl_name hl s = Some n \<longrightarrow> n = to_lower s)"

definition token_hlib :: hlib where
  "token_hlib =
     \<lparr> hl_name = (\<lambda>s. if header_token s then Some (to_lower s) else None), hl_value = (\<lambda>_. True),
       hl_to_str = Some \<rparr>"

lemma token_hlib_documented: "names_documented token_hlib"
  by (simp add: names_documented_def token_hlib_def)

lemma bearer_value_Some:
  "Option.bind (Option.bind v to_str) (strip_prefix p) = Some t \<longleftrightarrow> (\<exists>x. v = Some x \<and> to_str x = Some (p @ t))"
  by (auto simp: bind_eq_Some_conv)

lemma hget_all_hremove [simp]:
  "hget_all n (hremove m hs) = (if n = m then [] else hget_all n hs)"
  by (induction hs) (auto simp: hget_all_def hremove_def)

lemma hget_all_hinsert [simp]:
  "hget_all n (hinsert m v hs) = (if n = m then [v] else hget_all n hs)"
  by (auto simp: hinsert_def hget_all_def hremove_def filter_empty_conv
      intro!: arg_cong [of _ _ "map snd"] filter_cong)

lemma hcontains_hget_all: "hcontains n hs \<longleftrightarrow> hget_all n hs \<noteq> []"
  by (induction hs) (auto simp: hcontains_def hget_all_def)

lemma hget_hget_all: "hget n hs = (case hget_all n hs of [] \<Rightarrow> None | v # _ \<Rightarrow> Some v)"
  by (induction hs) (auto simp: hget_def hget_all_def)

section \<open>Stripping (headers.rs)\<close>

definition HOP_BY_HOP :: "bytes list" where
  [enum_defs]: "HOP_BY_HOP =
    [''connection'', ''keep-alive'', ''proxy-authenticate'', ''proxy-authorization'', ''te'',
     ''trailer'', ''transfer-encoding'', ''upgrade'']"

definition ALWAYS_STRIP :: "bytes list" where
  [enum_defs]: "ALWAYS_STRIP =
    [''host'', ''cookie'', ''cookie2'', ''set-cookie'', ''x-forwarded-for'', ''x-forwarded-host'',
     ''x-forwarded-proto'', ''x-forwarded-server'', ''x-real-ip'', ''forwarded'', ''via'']"

definition strip_named :: "hlib \<Rightarrow> bytes list \<Rightarrow> hmap \<Rightarrow> hmap" where
  "strip_named hl names hs =
     fold (\<lambda>name hs. case hl_name hl name of Some n \<Rightarrow> hremove n hs | None \<Rightarrow> hs) names hs"

definition connection_tokens :: "hlib \<Rightarrow> hmap \<Rightarrow> bytes list" where
  "connection_tokens hl hs =
     List.map_filter (\<lambda>tok. hl_name hl (trim tok))
       (concat (map (split_by ((=) CHR '',''))
         (List.map_filter (hl_to_str hl) (hget_all ''connection'' hs))))"

definition strip_hop_by_hop :: "hlib \<Rightarrow> hmap \<Rightarrow> hmap" where
  "strip_hop_by_hop hl hs =
     (let hs = strip_named hl (HOP_BY_HOP @ ALWAYS_STRIP) hs;
          extra = connection_tokens hl hs
      in fold hremove extra hs)"

definition is_reserved_request_header :: "bytes \<Rightarrow> bool" where
  "is_reserved_request_header name \<longleftrightarrow>
     (let lower = to_lower name in
      lower = ''host'' \<or> lower = ''authorization'' \<or> lower \<in> set ALWAYS_STRIP)"

lemma fold_hremove: "fold hremove names hs = filter (\<lambda>h. fst h \<notin> set names) hs"
  by (induction names arbitrary: hs) (auto simp: hremove_def intro: filter_cong)

lemma strip_named_eq:
  "strip_named hl names hs = filter (\<lambda>h. fst h \<notin> set (List.map_filter (hl_name hl) names)) hs"
  by (induction names arbitrary: hs)
     (auto simp: strip_named_def map_filter_simps hremove_def split: option.split intro: filter_cong)

lemma strip_tokens:
  "list_all (\<lambda>s. header_token s \<and> to_lower s = s \<and> length s < 32768) (HOP_BY_HOP @ ALWAYS_STRIP)"
  by (simp add: HOP_BY_HOP_def ALWAYS_STRIP_def header_token_def is_alnum_def is_lower_def
      is_upper_def is_digit_def to_lower_def lower1_def)

lemma strip_names:
  assumes "names_documented hl"
  shows "List.map_filter (hl_name hl) (HOP_BY_HOP @ ALWAYS_STRIP) = HOP_BY_HOP @ ALWAYS_STRIP"
proof -
  have "list_all (\<lambda>s. header_token s \<and> to_lower s = s \<and> length s < 32768) xs
      \<Longrightarrow> List.map_filter (hl_name hl) xs = xs" for xs
    using assms by (induction xs) (auto simp: map_filter_simps names_documented_def)
  then show ?thesis using strip_tokens by blast
qed

lemma connection_stripped: "''connection'' \<in> set (HOP_BY_HOP @ ALWAYS_STRIP)"
  by (simp add: HOP_BY_HOP_def)

lemma strip_eq_filter:
  assumes "names_documented hl"
  shows "strip_hop_by_hop hl hs = filter (\<lambda>h. fst h \<notin> set (HOP_BY_HOP @ ALWAYS_STRIP)) hs"
proof -
  let ?hs = "strip_named hl (HOP_BY_HOP @ ALWAYS_STRIP) hs"
  have s: "?hs = filter (\<lambda>h. fst h \<notin> set (HOP_BY_HOP @ ALWAYS_STRIP)) hs"
    unfolding strip_named_eq strip_names [OF assms] by simp
  have "hget_all ''connection'' ?hs = []"
    unfolding s using connection_stripped by (induction hs) (auto simp: hget_all_def)
  then have "connection_tokens hl ?hs = []"
    by (simp add: connection_tokens_def map_filter_simps)
  then show ?thesis unfolding strip_hop_by_hop_def Let_def s [symmetric] by simp
qed

lemma hget_all_strip:
  assumes "names_documented hl"
  shows "hget_all n (strip_hop_by_hop hl hs)
    = (if n \<in> set (HOP_BY_HOP @ ALWAYS_STRIP) then [] else hget_all n hs)"
  unfolding strip_eq_filter [OF assms]
  by (induction hs) (auto simp: hget_all_def)

lemma strip_idem:
  assumes "names_documented hl"
  shows "strip_hop_by_hop hl (strip_hop_by_hop hl hs) = strip_hop_by_hop hl hs"
  unfolding strip_eq_filter [OF assms] by simp

text \<open>Stripping removes every hop-by-hop and always-stripped header, whatever its values, and
  leaves the values of every other header as they were.\<close>

theorem strip_exact:
  assumes "names_documented hl"
  shows "hget_all n (strip_hop_by_hop hl hs) =
    (if n \<in> {''connection'', ''keep-alive'', ''proxy-authenticate'', ''proxy-authorization'', ''te'',
             ''trailer'', ''transfer-encoding'', ''upgrade'', ''host'', ''cookie'', ''cookie2'',
             ''set-cookie'', ''x-forwarded-for'', ''x-forwarded-host'', ''x-forwarded-proto'',
             ''x-forwarded-server'', ''x-real-ip'', ''forwarded'', ''via''}
     then [] else hget_all n hs)"
  using hget_all_strip [OF assms, of n hs] by (simp add: HOP_BY_HOP_def ALWAYS_STRIP_def)

theorem strip_exact_witness:
  "hget_all ''cookie'' (strip_hop_by_hop token_hlib [(''cookie'', ''a''), (''accept'', ''b'')]) = []"
  using strip_exact [OF token_hlib_documented, of "''cookie''" "[(''cookie'', ''a''), (''accept'', ''b'')]"]
  by simp

text \<open>A header nominated by \<open>Connection\<close> is not stripped: \<open>connection\<close> itself is removed
  before its tokens are read, so its value has no effect on the result at all.\<close>

theorem connection_value_ignored:
  assumes "names_documented hl"
  shows "strip_hop_by_hop hl (xs @ (''connection'', v) # ys) = strip_hop_by_hop hl (xs @ ys)"
  unfolding strip_eq_filter [OF assms] using connection_stripped by simp

theorem connection_value_ignored_witness:
  "strip_hop_by_hop token_hlib [(''connection'', ''x-internal''), (''x-internal'', ''1'')]
   = strip_hop_by_hop token_hlib [(''x-internal'', ''1'')]"
  using connection_value_ignored
    [OF token_hlib_documented, of "[]" "''x-internal''" "[(''x-internal'', ''1'')]"]
  by simp

section \<open>Errors (error.rs)\<close>

datatype proxy_error =
    Ssrf_Error ssrf_error
  | Schema bytes
  | ReservedHeader
  | OpenRedirect
  | Upstream bytes
  | UpstreamStatus "16 word"
  | TooLarge
  | Timeout
  | Too_Many_Redirects
  | PeerMismatch
  | RedirectOnPost
  | Credential

fun proxy_error_code :: "proxy_error \<Rightarrow> bytes" where
  "proxy_error_code (Ssrf_Error _) = ''ssrf''"
| "proxy_error_code (Schema _) = ''schema''"
| "proxy_error_code ReservedHeader = ''reserved_header''"
| "proxy_error_code OpenRedirect = ''ssrf''"
| "proxy_error_code (Upstream _) = ''upstream''"
| "proxy_error_code (UpstreamStatus s) = (if s \<ge> 500 then ''upstream_5xx'' else ''upstream_4xx'')"
| "proxy_error_code TooLarge = ''too_large''"
| "proxy_error_code Timeout = ''timeout''"
| "proxy_error_code Too_Many_Redirects = ''ssrf''"
| "proxy_error_code PeerMismatch = ''ssrf''"
| "proxy_error_code RedirectOnPost = ''ssrf''"
| "proxy_error_code Credential = ''internal''"

fun customer_message :: "proxy_error \<Rightarrow> bytes" where
  "customer_message (Ssrf_Error _) = ''Upstream address is not allowed''"
| "customer_message OpenRedirect = ''Upstream address is not allowed''"
| "customer_message PeerMismatch = ''Upstream address is not allowed''"
| "customer_message Too_Many_Redirects = ''Upstream address is not allowed''"
| "customer_message (Schema path) = ''Invalid arguments: '' @ path"
| "customer_message ReservedHeader = ''Reserved header''"
| "customer_message (Upstream _) = ''Upstream request failed''"
| "customer_message Timeout = ''Upstream request failed''"
| "customer_message (UpstreamStatus s) = ''Upstream returned HTTP '' @ show_nat (unat s)"
| "customer_message TooLarge = ''Upstream response too large''"
| "customer_message RedirectOnPost = ''Upstream request failed''"
| "customer_message Credential = ''Upstream request failed''"

text \<open>What the caller of a tool is told about a refused or failed request says nothing about
  addresses, hosts or upstream errors: the message depends only on the class of the error, apart
  from a schema path and an HTTP status.\<close>

theorem customer_message_reveals_nothing:
  "customer_message (Ssrf_Error e) = customer_message (Ssrf_Error e')
   \<and> customer_message (Ssrf_Error e) = customer_message PeerMismatch
   \<and> customer_message (Ssrf_Error e) = customer_message OpenRedirect
   \<and> customer_message (Upstream m) = customer_message (Upstream m')
   \<and> customer_message (Upstream m) = customer_message Timeout
   \<and> customer_message (Upstream m) = customer_message Credential"
  by simp

end
