(* ===== verification/Render.thy ===== *)
theory Render
  imports Ir_Types Http_Headers
begin

text \<open>
  From an execution plan and the call's arguments to an HTTP request
  (\<open>mcp-gateway-proxy/src/render.rs\<close>). The \<open>url\<close> crate's parser, \<open>set_path\<close> and query editing, the
  percent-encoding crate and the JSON printer are the record \<open>render_lib\<close>.
\<close>

section \<open>The request\<close>

record rendered =
  rq_method :: bytes
  rq_url :: url
  rq_headers :: hmap
  rq_body :: bytes
  rq_timeout_ms :: nat

record render_lib =
  rl_method_ok :: "bytes \<Rightarrow> bool"
  rl_parse_url :: "bytes \<Rightarrow> bytes + url"
  rl_set_path :: "url \<Rightarrow> bytes \<Rightarrow> url"
  rl_clear_pairs :: "url \<Rightarrow> url"
  rl_append_pair :: "url \<Rightarrow> bytes \<Rightarrow> bytes \<Rightarrow> url"
  rl_set_query_none :: "url \<Rightarrow> url"
  rl_pct_encode :: "bytes \<Rightarrow> bytes"
  rl_pct_decode_lossy :: "bytes \<Rightarrow> bytes"
  rl_show_json :: "json \<Rightarrow> bytes"

type_synonym args = "(bytes \<times> json) list"

definition arg_value :: "args \<Rightarrow> arg_binding \<Rightarrow> proxy_error + json" where
  "arg_value args b = ok_or (Schema (ab_arg_name b)) (map_of args (ab_arg_name b))"

definition optional_arg :: "args \<Rightarrow> arg_binding \<Rightarrow> json option" where
  "optional_arg args b = map_of args (ab_arg_name b)"

section \<open>The path\<close>

definition encode_path_segment :: "render_lib \<Rightarrow> json \<Rightarrow> bytes" where
  "encode_path_segment lib v =
     rl_pct_encode lib
       (case v of JStr s \<Rightarrow> s | other \<Rightarrow> trim_matches ((=) CHR 0x22) (rl_show_json lib other))"

definition reject_open_redirect :: "render_lib \<Rightarrow> bytes \<Rightarrow> proxy_error + unit" where
  "reject_open_redirect lib encoded =
     (let decoded = to_lower (rl_pct_decode_lossy lib encoded) in
      if contains decoded ''://'' \<or> contains decoded ''..'' \<or> contains decoded ''/''
      then Inl OpenRedirect else Inr ())"

definition braced :: "bytes \<Rightarrow> bytes" where
  "braced name = ''{'' @ name @ ''}''"

definition subst_param :: "arg_binding \<Rightarrow> bytes \<Rightarrow> bytes \<Rightarrow> bytes" where
  "subst_param b encoded path =
     (if \<not> contains path (braced (ab_wire_name b))
      then replace_all (braced (ab_arg_name b)) encoded path
      else replace_all (braced (ab_wire_name b)) encoded path)"

fun subst_params :: "render_lib \<Rightarrow> args \<Rightarrow> arg_binding list \<Rightarrow> bytes \<Rightarrow> proxy_error + bytes" where
  "subst_params lib args [] path = Inr path"
| "subst_params lib args (b # bs) path =
     and_then (arg_value args b) (\<lambda>v.
       let encoded = encode_path_segment lib v in
       and_then (reject_open_redirect lib encoded) (\<lambda>_.
         subst_params lib args bs (subst_param b encoded path)))"

definition render_path :: "render_lib \<Rightarrow> args \<Rightarrow> execution_plan \<Rightarrow> proxy_error + bytes" where
  "render_path lib args plan =
     and_then (subst_params lib args (ep_path_params plan) (ep_path_template plan)) (\<lambda>path.
       if contains path ''{'' then Inl (Schema ''path'')
       else if contains path ''://'' \<or> contains path ''..'' then Inl OpenRedirect
       else Inr path)"

definition trim_end_slashes :: "bytes \<Rightarrow> bytes" where
  "trim_end_slashes s = rev (dropWhile ((=) CHR ''/'') (rev s))"

definition join_openapi_server :: "render_lib \<Rightarrow> url \<Rightarrow> bytes \<Rightarrow> proxy_error + url" where
  "join_openapi_server lib origin op =
     (let base_path = trim_end_slashes (url_path origin) in
      if starts_with op ''/''
      then (let new_path = (if op = ''/'' then (if base_path = [] then ''/'' else base_path)
                            else base_path @ op)
            in Inr (rl_set_path lib origin new_path))
      else Inl (Schema ''path''))"

definition render_origin :: "render_lib \<Rightarrow> bytes \<Rightarrow> bytes \<Rightarrow> proxy_error + url" where
  "render_origin lib base_url path =
     (case rl_parse_url lib base_url of
        Inl e \<Rightarrow> Inl (Schema e)
      | Inr origin \<Rightarrow>
          if host_str origin = None then Inl OpenRedirect
          else and_then (join_openapi_server lib origin path) (\<lambda>joined.
            if host_str joined \<noteq> host_str origin \<or> url_scheme joined \<noteq> url_scheme origin
            then Inl OpenRedirect
            else if url_username joined \<noteq> [] \<or> url_password joined \<noteq> None then Inl OpenRedirect
            else Inr joined))"

section \<open>Query and headers\<close>

fun add_query :: "render_lib \<Rightarrow> args \<Rightarrow> arg_binding list \<Rightarrow> url \<Rightarrow> proxy_error + url" where
  "add_query lib args [] u = Inr u"
| "add_query lib args (b # bs) u =
     (case optional_arg args b of
        Some v \<Rightarrow>
          add_query lib args bs
            (fold (\<lambda>(k, v) u. rl_append_pair lib u k v)
              (serialise (rl_show_json lib) (ab_style b) (ab_explode b) (ab_wire_name b) v) u)
      | None \<Rightarrow> if ab_required b then Inl (Schema (ab_arg_name b)) else add_query lib args bs u)"

definition render_query :: "render_lib \<Rightarrow> args \<Rightarrow> execution_plan \<Rightarrow> url \<Rightarrow> proxy_error + url" where
  "render_query lib args plan u =
     (if ep_query_params plan \<noteq> []
      then and_then (add_query lib args (ep_query_params plan) (rl_clear_pairs lib u)) (\<lambda>u.
        Inr (if url_query u = None \<or> url_query u = Some [] then rl_set_query_none lib u else u))
      else Inr (rl_set_query_none lib u))"

fun add_headers ::
    "render_lib \<Rightarrow> hlib \<Rightarrow> args \<Rightarrow> arg_binding list \<Rightarrow> hmap \<Rightarrow> proxy_error + hmap" where
  "add_headers lib hl args [] hs = Inr hs"
| "add_headers lib hl args (b # bs) hs =
     (if is_reserved_request_header (ab_wire_name b) then Inl ReservedHeader
      else case optional_arg args b of
        Some v \<Rightarrow>
          (case serialise (rl_show_json lib) (ab_style b) (ab_explode b) (ab_wire_name b) v of
             [] \<Rightarrow> add_headers lib hl args bs hs
           | (_, w) # _ \<Rightarrow>
               (case hl_name hl (ab_wire_name b) of
                  None \<Rightarrow> Inl ReservedHeader
                | Some n \<Rightarrow>
                    if hl_value hl w then add_headers lib hl args bs (hinsert n w hs)
                    else Inl (Schema (ab_arg_name b))))
      | None \<Rightarrow>
          if ab_required b then Inl (Schema (ab_arg_name b)) else add_headers lib hl args bs hs)"

definition base_headers :: "hlib \<Rightarrow> bytes \<Rightarrow> hmap" where
  "base_headers hl accept =
     hinsert ''accept-encoding'' ''identity''
       (hinsert ''accept'' (if hl_value hl accept then accept else ''application/json'') [])"

section \<open>The body\<close>

fun fold_object :: "args \<Rightarrow> folded_key list \<Rightarrow> (bytes \<times> json) list \<Rightarrow> (bytes \<times> json) list" where
  "fold_object args [] obj = obj"
| "fold_object args (k # ks) obj =
     fold_object args ks
       (case map_of args (fk_arg_name k) of
          Some v \<Rightarrow> obj_insert (fk_wire_name k) v obj
        | None \<Rightarrow> obj)"

fun form_encode :: "render_lib \<Rightarrow> args \<Rightarrow> folded_key list \<Rightarrow> bytes \<Rightarrow> bytes" where
  "form_encode lib args [] encoded = encoded"
| "form_encode lib args (k # ks) encoded =
     (case map_of args (fk_arg_name k) of
        Some v \<Rightarrow>
          form_encode lib args ks
            ((if encoded \<noteq> [] then encoded @ ''&'' else encoded)
             @ join_with ''&'' (map (\<lambda>(k, v). rl_pct_encode lib k @ ''='' @ rl_pct_encode lib v)
                 (serialise (rl_show_json lib) Form True (fk_wire_name k) v)))
      | None \<Rightarrow> form_encode lib args ks encoded)"

definition encode_body :: "render_lib \<Rightarrow> body_binding \<Rightarrow> json \<Rightarrow> proxy_error + bytes" where
  "encode_body lib bb arguments =
     and_then (ok_or (Schema ''$'') (as_object arguments)) (\<lambda>args.
       case bb_mode bb of
         Whole \<Rightarrow>
           and_then (ok_or (Schema ''body'') (bb_arg_name bb)) (\<lambda>name.
             and_then (ok_or (Schema name) (map_of args name)) (\<lambda>v. Inr (rl_show_json lib v)))
       | Fold \<Rightarrow> Inr (rl_show_json lib (JObj (fold_object args (bb_folded_keys bb) [])))
       | FormUrlencoded \<Rightarrow> Inr (form_encode lib args (bb_folded_keys bb) []))"

section \<open>Rendering\<close>

definition MAX_BODY :: nat where
  "MAX_BODY = 1024 * 1024"

definition render_headers :: "render_lib \<Rightarrow> hlib \<Rightarrow> args \<Rightarrow> execution_plan \<Rightarrow> proxy_error + hmap" where
  "render_headers lib hl args plan =
     and_then (add_headers lib hl args (ep_header_params plan) (base_headers hl (ep_accept plan)))
       (\<lambda>hs. Inr (strip_hop_by_hop hl hs))"

definition with_content_type :: "hlib \<Rightarrow> execution_plan \<Rightarrow> bytes \<Rightarrow> hmap \<Rightarrow> hmap" where
  "with_content_type hl plan body hs =
     (case ep_body plan of
        Some bb \<Rightarrow>
          if body \<noteq> []
          then hinsert ''content-type''
                 (if hl_value hl (bb_content_type bb) then bb_content_type bb
                  else ''application/json'') hs
          else hs
      | None \<Rightarrow> hs)"

definition render :: "render_lib \<Rightarrow> hlib \<Rightarrow> bytes \<Rightarrow> execution_plan \<Rightarrow> json \<Rightarrow> proxy_error + rendered" where
  "render lib hl base_url plan arguments =
     (if \<not> rl_method_ok lib (ep_method plan) then Inl (Schema ''method'')
      else and_then (ok_or (Schema ''$'') (as_object arguments)) (\<lambda>args.
        and_then (render_path lib args plan) (\<lambda>path.
        and_then (render_origin lib base_url path) (\<lambda>joined.
        and_then (render_query lib args plan joined) (\<lambda>u.
        and_then (render_headers lib hl args plan) (\<lambda>hs.
        and_then (case ep_body plan of None \<Rightarrow> Inr [] | Some bb \<Rightarrow> encode_body lib bb arguments) (\<lambda>body.
          if length body > MAX_BODY then Inl TooLarge
          else Inr \<lparr> rq_method = ep_method plan, rq_url = u,
                     rq_headers = with_content_type hl plan body hs, rq_body = body,
                     rq_timeout_ms = min (max (unat (ep_timeout_ms plan)) 1) 30000 \<rparr>)))))))"

section \<open>What the libraries promise\<close>

text \<open>
  The documented behaviour the properties rely on: editing the path or the query of a URL changes
  nothing else of it, and the encoder leaves only letters, digits and percent signs.
\<close>

definition url_edits_documented :: "render_lib \<Rightarrow> bool" where
  "url_edits_documented lib \<longleftrightarrow>
     (\<forall>u p. \<exists>p'. rl_set_path lib u p = u\<lparr>url_path := p'\<rparr>)
     \<and> (\<forall>u. \<exists>q. rl_clear_pairs lib u = u\<lparr>url_query := q\<rparr>)
     \<and> (\<forall>u k v. \<exists>q. rl_append_pair lib u k v = u\<lparr>url_query := q\<rparr>)
     \<and> (\<forall>u. rl_set_query_none lib u = u\<lparr>url_query := None\<rparr>)"

definition encoder_documented :: "render_lib \<Rightarrow> bool" where
  "encoder_documented lib \<longleftrightarrow>
     (\<forall>s. \<forall>c \<in> set (rl_pct_encode lib s). is_alnum c \<or> c = CHR ''%'')"

definition upper_hex :: "nat \<Rightarrow> char" where
  "upper_hex n = (''0123456789ABCDEF'' ! n)"

definition pct_encode :: "bytes \<Rightarrow> bytes" where
  "pct_encode s =
     concat (map (\<lambda>c. if is_alnum c then [c]
                      else [CHR ''%'', upper_hex (of_char c div 16), upper_hex (of_char c mod 16)]) s)"

fun pct_decode :: "bytes \<Rightarrow> bytes" where
  "pct_decode [] = []"
| "pct_decode (c # s) =
     (if c = CHR ''%'' then
        (case s of
           a # b # t \<Rightarrow>
             (case (digit_val 16 a, digit_val 16 b) of
                (Some x, Some y) \<Rightarrow> char_of (16 * x + y) # pct_decode t
              | _ \<Rightarrow> c # pct_decode s)
         | _ \<Rightarrow> c # pct_decode s)
      else c # pct_decode s)"

definition sample_lib :: "url \<Rightarrow> render_lib" where
  "sample_lib base =
     \<lparr> rl_method_ok = (\<lambda>_. True), rl_parse_url = (\<lambda>_. Inr base),
       rl_set_path = (\<lambda>u p. u\<lparr>url_path := p\<rparr>), rl_clear_pairs = (\<lambda>u. u\<lparr>url_query := Some []\<rparr>),
       rl_append_pair = (\<lambda>u k v. u\<lparr>url_query := Some (k @ ''='' @ v)\<rparr>),
       rl_set_query_none = (\<lambda>u. u\<lparr>url_query := None\<rparr>),
       rl_pct_encode = pct_encode, rl_pct_decode_lossy = pct_decode,
       rl_show_json = (\<lambda>_. ''{}'') \<rparr>"

lemma sample_edits: "url_edits_documented (sample_lib base)"
  by (auto simp: url_edits_documented_def sample_lib_def)

lemma upper_hex_alnum: "n < 16 \<Longrightarrow> is_alnum (upper_hex n)"
proof -
  assume "n < 16"
  then have "upper_hex n \<in> set ''0123456789ABCDEF''"
    unfolding upper_hex_def by (intro nth_mem) simp
  then show ?thesis by (auto simp: is_alnum_def is_digit_def is_upper_def is_lower_def)
qed

lemma pct_encode_chars: "c \<in> set (pct_encode s) \<Longrightarrow> is_alnum c \<or> c = CHR ''%''"
proof -
  have b: "of_char d < (256 :: nat)" for d :: char
    by (rule nat_of_char_less_256)
  assume "c \<in> set (pct_encode s)"
  then show ?thesis
    using b by (auto simp: pct_encode_def less_mult_imp_div_less intro!: upper_hex_alnum split: if_splits)
qed

lemma sample_encoder: "encoder_documented (sample_lib base)"
  by (auto simp: encoder_documented_def sample_lib_def dest: pct_encode_chars)

section \<open>Lemmas\<close>

lemma fold_append_query:
  assumes "url_edits_documented lib"
  shows "\<exists>q. fold (\<lambda>(k, v) u. rl_append_pair lib u k v) kvs u = u\<lparr>url_query := q\<rparr>"
proof (induction kvs arbitrary: u)
  case Nil
  show ?case by (rule exI [of _ "url_query u"]) simp
next
  case (Cons kv kvs)
  obtain k v where kv: "kv = (k, v)" by (cases kv)
  obtain q where q: "rl_append_pair lib u k v = u\<lparr>url_query := q\<rparr>"
    using assms unfolding url_edits_documented_def by blast
  obtain q' where "fold (\<lambda>(k, v) u. rl_append_pair lib u k v) kvs (u\<lparr>url_query := q\<rparr>)
      = u\<lparr>url_query := q\<rparr>\<lparr>url_query := q'\<rparr>"
    using Cons.IH by blast
  then show ?case by (auto simp: kv q)
qed

lemma add_query_only:
  assumes "url_edits_documented lib"
  shows "add_query lib args bs u = Inr u' \<Longrightarrow> \<exists>q. u' = u\<lparr>url_query := q\<rparr>"
proof (induction bs arbitrary: u)
  case Nil
  then show ?case by (intro exI [of _ "url_query u"]) simp
next
  case (Cons b bs)
  show ?case
  proof (cases "optional_arg args b")
    case None
    with Cons show ?thesis by (auto split: if_splits)
  next
    case (Some v)
    obtain q where q: "fold (\<lambda>(k, v) u. rl_append_pair lib u k v)
        (serialise (rl_show_json lib) (ab_style b) (ab_explode b) (ab_wire_name b) v) u
        = u\<lparr>url_query := q\<rparr>"
      using fold_append_query [OF assms] by blast
    with Cons.prems Some have "add_query lib args bs (u\<lparr>url_query := q\<rparr>) = Inr u'" by simp
    from Cons.IH [OF this] show ?thesis by auto
  qed
qed

lemma render_query_only:
  assumes "url_edits_documented lib" and "render_query lib args plan u = Inr u'"
  shows "\<exists>q. u' = u\<lparr>url_query := q\<rparr>"
proof (cases "ep_query_params plan = []")
  case True
  with assms show ?thesis by (auto simp: render_query_def url_edits_documented_def)
next
  case False
  obtain q where q: "rl_clear_pairs lib u = u\<lparr>url_query := q\<rparr>"
    using assms(1) unfolding url_edits_documented_def by blast
  from False assms(2) obtain v where v: "add_query lib args (ep_query_params plan) (u\<lparr>url_query := q\<rparr>) = Inr v"
    and u': "u' = (if url_query v = None \<or> url_query v = Some [] then rl_set_query_none lib v else v)"
    by (auto simp: render_query_def q)
  from add_query_only [OF assms(1) v] obtain q' where "v = u\<lparr>url_query := q'\<rparr>" by auto
  moreover have "rl_set_query_none lib v = v\<lparr>url_query := None\<rparr>"
    using assms(1) by (simp add: url_edits_documented_def)
  ultimately show ?thesis using u' by auto
qed

text \<open>Substituting text that holds none of a character adds none.\<close>

lemma count_replace_all:
  "c \<notin> set t \<Longrightarrow> count_list (replace_all f t s) c \<le> count_list s c"
proof (induction f t s rule: replace_all.induct)
  case (2 f t d cs)
  show ?case
  proof (cases "f \<noteq> [] \<and> prefix f (d # cs)")
    case True
    then obtain r where r: "d # cs = f @ r" by (auto simp: prefix_def)
    have "count_list (replace_all f t r) c \<le> count_list r c"
      using 2(1) [OF True 2(3)] by (simp add: r)
    then have "count_list (replace_all f t r) c \<le> count_list (d # cs) c"
      unfolding r by simp
    moreover have "replace_all f t (d # cs) = t @ replace_all f t r"
      using True by (simp only: replace_all.simps if_True) (simp add: r)
    ultimately show ?thesis using 2(3) by (simp add: count_notin)
  next
    case False
    with 2 show ?thesis by (auto simp del: not_Cons_self)
  qed
qed simp

lemma count_subst_params:
  assumes "encoder_documented lib" and "\<not> is_alnum c" and "c \<noteq> CHR ''%''"
  shows "subst_params lib args bs path = Inr path' \<Longrightarrow> count_list path' c \<le> count_list path c"
proof (induction bs arbitrary: path)
  case (Cons b bs)
  then obtain v where r: "subst_params lib args bs (subst_param b (encode_path_segment lib v) path) = Inr path'"
    by (auto simp: Let_def)
  have "c \<notin> set (encode_path_segment lib v)"
    using assms by (auto simp: encoder_documented_def encode_path_segment_def)
  then have "count_list (subst_param b (encode_path_segment lib v) path) c \<le> count_list path c"
    by (simp add: subst_param_def count_replace_all)
  with Cons.IH [OF r] show ?case by (rule order_trans)
qed simp

lemma subst_params_checked:
  "subst_params lib args bs path = Inr path' \<Longrightarrow> b \<in> set bs
    \<Longrightarrow> \<exists>v. arg_value args b = Inr v \<and> reject_open_redirect lib (encode_path_segment lib v) = Inr ()"
  by (induction bs arbitrary: path) (auto simp: Let_def)

lemma add_headers_names:
  assumes "names_documented hl"
  shows "add_headers lib hl args bs hs = Inr hs' \<Longrightarrow> is_reserved_request_header n \<Longrightarrow> to_lower n = n
     \<Longrightarrow> hget_all n hs = [] \<Longrightarrow> hget_all n hs' = []"
proof (induction bs arbitrary: hs)
  case (Cons b bs)
  have low: "hl_name hl (ab_wire_name b) = Some m \<Longrightarrow> m \<noteq> n" for m
    using Cons.prems assms by (auto simp: names_documented_def is_reserved_request_header_def Let_def
        split: if_splits)
  show ?case
    using Cons low
    by (auto split: if_splits option.splits list.splits)
qed simp

lemma render_Inr:
  assumes "render lib hl base_url plan arguments = Inr rq"
  obtains args path joined hs where
    "rl_method_ok lib (ep_method plan)" "arguments = JObj args"
    "render_path lib args plan = Inr path" "render_origin lib base_url path = Inr joined"
    "render_query lib args plan joined = Inr (rq_url rq)"
    "render_headers lib hl args plan = Inr hs"
    "case ep_body plan of None \<Rightarrow> rq_body rq = []
     | Some bb \<Rightarrow> encode_body lib bb arguments = Inr (rq_body rq)"
    "length (rq_body rq) \<le> MAX_BODY"
    "rq_headers rq = with_content_type hl plan (rq_body rq) hs"
    "rq_method rq = ep_method plan"
    "rq_timeout_ms rq = min (max (unat (ep_timeout_ms plan)) 1) 30000"
  using assms that
  by (auto simp: render_def split: if_splits option.splits)

section \<open>Properties\<close>

definition sample_plan :: execution_plan where
  "sample_plan =
     \<lparr> ep_method = ''GET'', ep_path_template = ''/w/{id}'',
       ep_path_params = [\<lparr> ab_arg_name = ''id'', ab_wire_name = ''id'', ab_style = Simple,
                           ab_explode = False, ab_required = True \<rparr>],
       ep_query_params = [], ep_header_params = [], ep_cookie_params = [], ep_body = None,
       ep_accept = ''*/*'', ep_timeout_ms = 15000 \<rparr>"

definition sample_base :: url where
  "sample_base = (https_url (Domain ''a.test''))\<lparr>url_path := ''/v1/''\<rparr>"

definition sample_request :: "proxy_error + rendered" where
  "sample_request =
     render (sample_lib sample_base) token_hlib ''https://a.test/v1/'' sample_plan
       (JObj [(''id'', JStr ''x'')])"

lemma sample_path:
  "render_path (sample_lib sample_base) [(''id'', JStr ''x'')] sample_plan = Inr ''/w/x''"
  by (simp add: render_path_def sample_plan_def sample_lib_def arg_value_def encode_path_segment_def
      pct_encode_def is_alnum_def is_lower_def is_upper_def is_digit_def reject_open_redirect_def
      contains_def subst_param_def braced_def to_lower_def lower1_def Let_def)

lemma sample_request_Inr: "\<exists>rq. sample_request = Inr rq"
  unfolding sample_request_def
  by (simp add: render_def sample_path)
     (simp add: sample_lib_def sample_plan_def render_origin_def sample_base_def https_url_def
       host_str_def join_openapi_server_def render_query_def render_headers_def MAX_BODY_def Let_def,
     rule exI, rule exI [of _ "[]"], simp)

lemma render_within_origin:
  assumes "url_edits_documented lib" and "render lib hl base_url plan arguments = Inr rq"
  shows "\<exists>origin p q. rl_parse_url lib base_url = Inr origin \<and> url_host origin \<noteq> None
    \<and> url_username origin = [] \<and> url_password origin = None
    \<and> rq_url rq = origin\<lparr>url_path := p, url_query := q\<rparr>"
proof -
  obtain args path joined where o: "render_origin lib base_url path = Inr joined"
    and q: "render_query lib args plan joined = Inr (rq_url rq)"
    using assms(2) by (rule render_Inr)
  from o obtain origin where p: "rl_parse_url lib base_url = Inr origin"
    and h: "host_str origin \<noteq> None" and j: "join_openapi_server lib origin path = Inr joined"
    and u: "url_username joined = []" "url_password joined = None"
    by (auto simp: render_origin_def split: sum.splits if_splits)
  from j obtain np where "joined = rl_set_path lib origin np"
    by (auto simp: join_openapi_server_def Let_def split: if_splits)
  then obtain p' where j': "joined = origin\<lparr>url_path := p'\<rparr>"
    using assms(1) unfolding url_edits_documented_def by blast
  from render_query_only [OF assms(1) q] obtain qq where "rq_url rq = joined\<lparr>url_query := qq\<rparr>"
    by blast
  with p h u j' show ?thesis
    by (intro exI [of _ origin] exI [of _ p'] exI [of _ qq]) (auto simp: host_str_def)
qed

text \<open>A rendered request goes to the published base URL's server. Scheme, host, port and (absent)
  credentials of the request's URL are those of the parsed base URL; arguments reach its path and
  query only.\<close>

theorem render_confined:
  assumes "url_edits_documented lib" and "render lib hl base_url plan arguments = Inr rq"
  shows "\<exists>origin p q. rl_parse_url lib base_url = Inr origin \<and> url_host origin \<noteq> None
    \<and> url_username origin = [] \<and> url_password origin = None
    \<and> rq_url rq = origin\<lparr>url_path := p, url_query := q\<rparr>"
  by (rule render_within_origin) (rule assms)+

theorem render_confined_witness:
  "\<exists>rq origin. sample_request = Inr rq \<and> url_host (rq_url rq) = url_host origin
     \<and> rl_parse_url (sample_lib sample_base) ''https://a.test/v1/'' = Inr origin"
proof -
  obtain rq where r: "sample_request = Inr rq" using sample_request_Inr by blast
  from render_confined [OF sample_edits r [unfolded sample_request_def]] r show ?thesis by auto
qed



lemma char_of_46: "char_of (46 :: nat) = CHR ''.''"
  by (simp add: char_of_eq_iff)

text \<open>The dot-dot check sees one argument at a time and the encoded path, so two adjacent
  single-dot arguments pass it: with the encoder of the code, the template \<open>/v1/{x}{y}/keys\<close>
  renders to a path whose second segment is an encoded dot-dot.\<close>

theorem adjacent_dots_pass:
  "render_path (sample_lib sample_base) [(''x'', JStr ''.''), (''y'', JStr ''.'')]
     (sample_plan\<lparr> ep_path_template := ''/v1/{x}{y}/keys'',
        ep_path_params := map (\<lambda>n. \<lparr> ab_arg_name = n, ab_wire_name = n, ab_style = Simple,
                                      ab_explode = False, ab_required = True \<rparr>) [''x'', ''y''] \<rparr>)
   = Inr ''/v1/%2E%2E/keys''"
  by (simp add: render_path_def sample_lib_def arg_value_def encode_path_segment_def
      pct_encode_def is_alnum_def is_lower_def is_upper_def is_digit_def reject_open_redirect_def
      contains_def subst_param_def braced_def to_lower_def lower1_def upper_hex_def digit_val_def
      char_of_46 Let_def)

text \<open>C9: a rendered request carries none of the headers a call must not set: no \<open>Authorization\<close>,
  no \<open>Host\<close>, no cookie, no forwarding and no hop-by-hop header, whatever the plan and arguments;
  the body is at most one mebibyte and the timeout between one millisecond and thirty seconds.\<close>

theorem render_header_safety:
  assumes "names_documented hl" and "render lib hl base_url plan arguments = Inr rq"
  shows "\<not> hcontains ''authorization'' (rq_headers rq)
    \<and> (\<forall>n \<in> set (HOP_BY_HOP @ ALWAYS_STRIP). \<not> hcontains n (rq_headers rq))
    \<and> length (rq_body rq) \<le> 1024 * 1024
    \<and> 1 \<le> rq_timeout_ms rq \<and> rq_timeout_ms rq \<le> 30000"
proof -
  obtain args hs where h: "render_headers lib hl args plan = Inr hs"
    and c: "rq_headers rq = with_content_type hl plan (rq_body rq) hs"
    and b: "length (rq_body rq) \<le> MAX_BODY"
    and t: "rq_timeout_ms rq = min (max (unat (ep_timeout_ms plan)) 1) 30000"
    using assms(2) by (rule render_Inr)
  from h obtain hs0 where a: "add_headers lib hl args (ep_header_params plan)
      (base_headers hl (ep_accept plan)) = Inr hs0" and hs: "hs = strip_hop_by_hop hl hs0"
    by (auto simp: render_headers_def)
  have low: "to_lower ''authorization'' = ''authorization''"
    by (simp add: to_lower_def lower1_def is_upper_def)
  have res: "is_reserved_request_header ''authorization''"
    unfolding is_reserved_request_header_def Let_def low by simp
  have "hget_all ''authorization'' hs0 = []"
    by (rule add_headers_names [OF assms(1) a res low])
       (simp add: base_headers_def hget_all_def [of _ "[]"])
  then have "\<not> hcontains ''authorization'' hs"
    by (simp add: hs hcontains_hget_all hget_all_strip [OF assms(1)] HOP_BY_HOP_def ALWAYS_STRIP_def)
  moreover have "\<not> hcontains n hs" if "n \<in> set (HOP_BY_HOP @ ALWAYS_STRIP)" for n
    using that by (simp add: hs hcontains_hget_all hget_all_strip [OF assms(1)])
  moreover have ct: "hcontains n (rq_headers rq) \<Longrightarrow> n \<noteq> ''content-type'' \<Longrightarrow> hcontains n hs" for n
    by (auto simp: c with_content_type_def hcontains_hget_all split: option.splits if_splits)
  moreover have "''content-type'' \<notin> set (HOP_BY_HOP @ ALWAYS_STRIP)"
    by (simp add: HOP_BY_HOP_def ALWAYS_STRIP_def)
  ultimately have "\<not> hcontains ''authorization'' (rq_headers rq)"
    "\<forall>n \<in> set (HOP_BY_HOP @ ALWAYS_STRIP). \<not> hcontains n (rq_headers rq)"
    by (auto dest: ct)
  with b t show ?thesis by (simp add: MAX_BODY_def)
qed

theorem render_header_safety_witness:
  "\<exists>rq. sample_request = Inr rq \<and> \<not> hcontains ''authorization'' (rq_headers rq)"
proof -
  obtain rq where r: "sample_request = Inr rq" using sample_request_Inr by blast
  from render_header_safety [OF token_hlib_documented r [unfolded sample_request_def]] r
  show ?thesis by blast
qed

text \<open>Cookie parameters of a plan never reach the request, required or not: rendering does not
  look at them.\<close>

theorem cookie_params_ignored:
  "render lib hl base_url (plan\<lparr>ep_cookie_params := cs\<rparr>) arguments = render lib hl base_url plan arguments"
proof -
  let ?plan = "plan\<lparr>ep_cookie_params := cs\<rparr>"
  have "render_path lib args ?plan = render_path lib args plan" for args
    by (simp add: render_path_def)
  moreover have "render_query lib args ?plan = render_query lib args plan" for args
    by (rule ext) (simp add: render_query_def cong: if_cong)
  moreover have "render_headers lib hl args ?plan = render_headers lib hl args plan" for args
    by (simp add: render_headers_def)
  moreover have "with_content_type hl ?plan = with_content_type hl plan"
    by (intro ext) (simp add: with_content_type_def)
  ultimately show ?thesis by (simp add: render_def cong: if_cong)
qed

text \<open>A form-encoded body is empty when the plan lists no folded keys, which is every form body
  the compiler emits: the arguments of the call are dropped.\<close>

theorem form_body_without_keys_is_empty:
  assumes "bb_mode bb = FormUrlencoded" and "bb_folded_keys bb = []"
  shows "encode_body lib bb (JObj args) = Inr []"
  using assms by (simp add: encode_body_def)

theorem form_body_without_keys_is_empty_witness:
  "encode_body (sample_lib sample_base)
     \<lparr> bb_mode = FormUrlencoded, bb_content_type = ''application/x-www-form-urlencoded'',
       bb_arg_name = Some ''body'', bb_folded_keys = [] \<rparr>
     (JObj [(''body'', JObj [(''a'', JStr ''b'')])]) = Inr []"
  by (rule form_body_without_keys_is_empty) simp_all

end
