(* ===== verification/Utf8.thy ===== *)
theory Utf8
  imports Prelude
begin

text \<open>
  UTF-8 as the standard library reads it: the step a decoder takes (how many bytes, and whether
  they are a character), validity, and \<open>String::from_utf8_lossy\<close>.
\<close>

definition in_bytes :: "nat \<Rightarrow> nat \<Rightarrow> char \<Rightarrow> bool" where
  "in_bytes lo hi c \<longleftrightarrow> lo \<le> (of_char c :: nat) \<and> (of_char c :: nat) \<le> hi"

text \<open>The second byte of a three- or four-byte sequence, as table 3-7 of the standard bounds it.\<close>

definition second_ok :: "char \<Rightarrow> char \<Rightarrow> bool" where
  "second_ok a b =
     in_bytes (if of_char a = (224::nat) then 160 else if of_char a = (240::nat) then 144 else 128)
              (if of_char a = (237::nat) then 159 else if of_char a = (244::nat) then 143 else 191) b"

definition cont_at :: "nat \<Rightarrow> bytes \<Rightarrow> bool" where
  "cont_at i s \<longleftrightarrow> i < length s \<and> in_bytes 128 191 (s ! i)"

fun utf8_step :: "bytes \<Rightarrow> nat \<times> bool" where
  "utf8_step [] = (1, False)"
| "utf8_step (a # s) =
     (if in_bytes 0 127 a then (1, True)
      else if in_bytes 194 223 a then (if cont_at 0 s then (2, True) else (1, False))
      else if in_bytes 224 239 a then
        (if s = [] \<or> \<not> second_ok a (hd s) then (1, False)
         else if cont_at 1 s then (3, True) else (2, False))
      else if in_bytes 240 244 a then
        (if s = [] \<or> \<not> second_ok a (hd s) then (1, False)
         else if \<not> cont_at 1 s then (2, False)
         else if cont_at 2 s then (4, True) else (3, False))
      else (1, False))"

lemma utf8_step_pos [simp]: "0 < fst (utf8_step s)" "fst (utf8_step s) \<noteq> 0"
  by (cases s; simp)+

lemma utf8_step_ascii: "in_bytes 0 127 a \<Longrightarrow> utf8_step (a # s) = (1, True)"
  by simp

declare utf8_step.simps(2) [simp del]

function utf8_valid :: "bytes \<Rightarrow> bool" where
  "utf8_valid [] = True"
| "utf8_valid (a # s) =
     (snd (utf8_step (a # s)) \<and> utf8_valid (drop (fst (utf8_step (a # s))) (a # s)))"
  by pat_completeness auto
termination
  by (relation "measure length") auto

definition REPLACEMENT :: bytes where
  "REPLACEMENT = [char_of (239::nat), char_of (191::nat), char_of (189::nat)]"

function from_utf8_lossy :: "bytes \<Rightarrow> bytes" where
  "from_utf8_lossy [] = []"
| "from_utf8_lossy (a # s) =
     (let (n, ok) = utf8_step (a # s) in
      (if ok then take n (a # s) else REPLACEMENT) @ from_utf8_lossy (drop n (a # s)))"
  by pat_completeness auto
termination
  by (relation "measure length") (auto simp: prod_eq_iff)

declare utf8_valid.simps(2) [simp del] from_utf8_lossy.simps(2) [simp del]

lemma utf8_valid_ascii: "list_all (in_bytes 0 127) s \<Longrightarrow> utf8_valid s"
  by (induction s) (simp_all add: utf8_valid.simps(2) utf8_step_ascii)

lemma lossy_valid: "utf8_valid s \<Longrightarrow> from_utf8_lossy s = s"
proof (induction s rule: utf8_valid.induct)
  case (2 a s)
  then have "from_utf8_lossy (drop (fst (utf8_step (a # s))) (a # s)) = drop (fst (utf8_step (a # s))) (a # s)"
    by (simp add: utf8_valid.simps(2))
  then show ?case
    using 2(2) by (simp add: utf8_valid.simps(2) from_utf8_lossy.simps(2) case_prod_beta Let_def)
qed simp

lemma length_lossy: "length (from_utf8_lossy s) \<le> 3 * length s"
proof (induction s rule: from_utf8_lossy.induct)
  case (2 a s)
  obtain n ok where n: "utf8_step (a # s) = (n, ok)" by fastforce
  then have pos: "0 < n" using utf8_step_pos(1) [of "a # s"] by simp
  have "length (from_utf8_lossy (drop n (a # s))) \<le> 3 * length (drop n (a # s))"
    using 2 n by simp
  moreover have "from_utf8_lossy (a # s) = (if ok then take n (a # s) else REPLACEMENT)
      @ from_utf8_lossy (drop n (a # s))"
    by (simp only: from_utf8_lossy.simps(2) n case_prod_conv Let_def)
  moreover have "length (if ok then take n (a # s) else REPLACEMENT) \<le> 3 * (length (a # s) - length (drop n (a # s)))"
    using pos by (cases n) (simp_all add: REPLACEMENT_def, linarith)
  moreover have "length (drop n (a # s)) \<le> length (a # s)" by simp
  ultimately show ?case by (simp only: length_append)
qed simp

section \<open>Control characters\<close>

text \<open>
  \<open>char::is_control\<close> on one encoded character: U+0000 to U+001F and U+007F are one byte, U+0080
  to U+009F are \<open>C2 80\<close> to \<open>C2 9F\<close>.
\<close>

definition control_char :: "bytes \<Rightarrow> bool" where
  "control_char ch \<longleftrightarrow>
     (case ch of
        [c] \<Rightarrow> in_bytes 0 31 c \<or> of_char c = (127::nat)
      | [a, b] \<Rightarrow> of_char a = (194::nat) \<and> in_bytes 128 159 b
      | _ \<Rightarrow> False)"

function filter_chars :: "(bytes \<Rightarrow> bool) \<Rightarrow> bytes \<Rightarrow> bytes" where
  "filter_chars p [] = []"
| "filter_chars p (a # s) =
     (let n = fst (utf8_step (a # s)) in
      (if p (take n (a # s)) then take n (a # s) else []) @ filter_chars p (drop n (a # s)))"
  by pat_completeness auto
termination
  by (relation "measure (\<lambda>(p, s). length s)") (auto simp: Let_def)

declare filter_chars.simps(2) [simp del]

lemma set_filter_chars: "set (filter_chars p s) \<subseteq> set s"
proof (induction p s rule: filter_chars.induct)
  case (2 p a s)
  have "set (take n (a # s)) \<subseteq> set (a # s)" "set (drop n (a # s)) \<subseteq> set (a # s)" for n
    by (rule set_take_subset, rule set_drop_subset)
  with 2 show ?case by (fastforce simp: filter_chars.simps(2) Let_def)
qed simp

lemma length_filter_chars: "length (filter_chars p s) \<le> length s"
proof (induction p s rule: filter_chars.induct)
  case (2 p a s)
  then show ?case by (auto simp: filter_chars.simps(2) Let_def)
qed simp

end
