(* ===== verification/Credentials.thy ===== *)
theory Credentials
  imports Http_Headers Json Utf8
begin

text \<open>
  Upstream credentials (\<open>mcp-gateway-proxy/src/credentials.rs\<close>): the stored forms, sealing and
  opening them, and the injection into a request's headers or query. AES-GCM, SHA-256, base64,
  the JSON parser and \<open>query_pairs_mut().append_pair\<close> are arguments; \<open>debug\<close> stands for a build
  with \<open>debug_assertions\<close>.
\<close>

section \<open>Types\<close>

datatype credential_spec =
    Spec_None
  | Spec_ApiKeyHeader bytes bytes
  | Spec_ApiKeyQuery bytes bytes
  | Spec_Bearer bytes
  | Spec_Basic bytes
  | Spec_CustomHeaders bytes

definition default_api_key_header :: bytes where
  "default_api_key_header = ''X-API-Key''"

datatype injected_kind =
  Kind_None | Kind_ApiKeyHeader | Kind_ApiKeyQuery | Kind_Bearer | Kind_Basic | Kind_CustomHeaders

record injected_credential =
  ic_kind :: injected_kind
  ic_secret :: bytes
  ic_header_name :: "bytes option"
  ic_param_name :: "bytes option"

definition cred_of :: "injected_kind \<Rightarrow> bytes \<Rightarrow> bytes option \<Rightarrow> bytes option \<Rightarrow> injected_credential" where
  "cred_of k s h p =
     \<lparr> ic_kind = k, ic_secret = s, ic_header_name = h, ic_param_name = p \<rparr>"

definition cred_none :: injected_credential where
  "cred_none = cred_of Kind_None [] None None"

definition cred_bearer :: "bytes \<Rightarrow> injected_credential" where
  "cred_bearer secret = cred_of Kind_Bearer secret None None"

definition cred_basic :: "bytes \<Rightarrow> injected_credential" where
  "cred_basic secret = cred_of Kind_Basic secret None None"

definition cred_api_key_header :: "bytes \<Rightarrow> bytes \<Rightarrow> injected_credential" where
  "cred_api_key_header secret name = cred_of Kind_ApiKeyHeader secret (Some name) None"

definition cred_api_key_query :: "bytes \<Rightarrow> bytes \<Rightarrow> injected_credential" where
  "cred_api_key_query secret name = cred_of Kind_ApiKeyQuery secret None (Some name)"

definition cred_custom_headers :: "bytes \<Rightarrow> injected_credential" where
  "cred_custom_headers secret = cred_of Kind_CustomHeaders secret None None"

section \<open>Sealing\<close>

text \<open>The libraries behind a stored credential; \<open>seal\<close> and \<open>unseal\<close> take key, nonce and text.\<close>

record crypto =
  sha256 :: "bytes \<Rightarrow> bytes"
  seal :: "bytes \<Rightarrow> bytes \<Rightarrow> bytes \<Rightarrow> bytes option"
  unseal :: "bytes \<Rightarrow> bytes \<Rightarrow> bytes \<Rightarrow> bytes option"
  b64_encode :: "bytes \<Rightarrow> bytes"
  b64_decode :: "bytes \<Rightarrow> bytes option"

definition encrypt :: "crypto \<Rightarrow> bytes \<Rightarrow> bytes \<Rightarrow> bytes \<Rightarrow> proxy_error + bytes" where
  "encrypt cr nonce plaintext key =
     (case seal cr (sha256 cr key) nonce plaintext of
        None \<Rightarrow> Inl Credential
      | Some ct \<Rightarrow> Inr (''v1:'' @ b64_encode cr (nonce @ ct)))"

definition decrypt :: "bool \<Rightarrow> crypto \<Rightarrow> bytes \<Rightarrow> bytes \<Rightarrow> proxy_error + bytes" where
  "decrypt debug cr ciphertext key =
     (case (if debug then strip_prefix ''plain:'' ciphertext else None) of
        Some rest \<Rightarrow> Inr rest
      | None \<Rightarrow>
          (case strip_prefix ''v1:'' ciphertext of
             None \<Rightarrow> Inl Credential
           | Some packed \<Rightarrow>
               (case b64_decode cr packed of
                  None \<Rightarrow> Inl Credential
                | Some bs \<Rightarrow>
                    if length bs < 13 then Inl Credential
                    else (case unseal cr (sha256 cr key) (take 12 bs) (drop 12 bs) of
                      None \<Rightarrow> Inl Credential
                    | Some pt \<Rightarrow> if utf8_valid pt then Inr pt else Inl Credential))))"

fun unwrap_credential ::
    "bool \<Rightarrow> crypto \<Rightarrow> credential_spec \<Rightarrow> bytes \<Rightarrow> proxy_error + injected_credential" where
  "unwrap_credential debug cr Spec_None key = Inr (cred_of Kind_None [] None None)"
| "unwrap_credential debug cr (Spec_ApiKeyHeader ct name) key =
     and_then (decrypt debug cr ct key) (\<lambda>s. Inr (cred_of Kind_ApiKeyHeader s (Some name) None))"
| "unwrap_credential debug cr (Spec_ApiKeyQuery ct name) key =
     and_then (decrypt debug cr ct key) (\<lambda>s. Inr (cred_of Kind_ApiKeyQuery s None (Some name)))"
| "unwrap_credential debug cr (Spec_Bearer ct) key =
     and_then (decrypt debug cr ct key) (\<lambda>s. Inr (cred_of Kind_Bearer s None None))"
| "unwrap_credential debug cr (Spec_Basic ct) key =
     and_then (decrypt debug cr ct key) (\<lambda>s. Inr (cred_of Kind_Basic s None None))"
| "unwrap_credential debug cr (Spec_CustomHeaders ct) key =
     and_then (decrypt debug cr ct key) (\<lambda>s. Inr (cred_of Kind_CustomHeaders s None None))"

section \<open>Injection\<close>

text \<open>What injection needs from the libraries beside the header functions.\<close>

record inject_lib =
  il_append_pair :: "url \<Rightarrow> bytes \<Rightarrow> bytes \<Rightarrow> url"
  il_b64 :: "bytes \<Rightarrow> bytes"
  il_parse_json :: "bytes \<Rightarrow> json option"

definition set_header :: "hlib \<Rightarrow> bytes \<Rightarrow> bytes \<Rightarrow> hmap \<Rightarrow> proxy_error + hmap" where
  "set_header hl name val hs =
     (case hl_name hl name of
        None \<Rightarrow> Inl ReservedHeader
      | Some n \<Rightarrow> if hl_value hl val then Inr (hinsert n val hs) else Inl Credential)"

fun custom_headers :: "hlib \<Rightarrow> json list \<Rightarrow> hmap \<Rightarrow> proxy_error + hmap" where
  "custom_headers hl [] hs = Inr hs"
| "custom_headers hl (item # items) hs =
     (case Option.bind (jget ''name'' item) as_str of
        None \<Rightarrow> Inl Credential
      | Some name \<Rightarrow>
          (case Option.bind (jget ''value'' item) as_str of
             None \<Rightarrow> Inl Credential
           | Some val \<Rightarrow> and_then (set_header hl name val hs) (custom_headers hl items)))"

definition inject ::
    "hlib \<Rightarrow> inject_lib \<Rightarrow> hmap \<Rightarrow> url \<Rightarrow> injected_credential \<Rightarrow> proxy_error + hmap \<times> url" where
  "inject hl il hs0 u cred =
     (let hs = strip_hop_by_hop hl hs0;
          with_url = (\<lambda>r. and_then r (\<lambda>hs. Inr (hs, u)))
      in case ic_kind cred of
        Kind_None \<Rightarrow> Inr (hs, u)
      | Kind_ApiKeyHeader \<Rightarrow>
          with_url (set_header hl
            (case ic_header_name cred of Some n \<Rightarrow> n | None \<Rightarrow> ''X-API-Key'') (ic_secret cred) hs)
      | Kind_ApiKeyQuery \<Rightarrow>
          Inr (hs, il_append_pair il u
            (case ic_param_name cred of Some n \<Rightarrow> n | None \<Rightarrow> ''api_key'') (ic_secret cred))
      | Kind_Bearer \<Rightarrow>
          if hcontains ''authorization'' hs then Inl ReservedHeader
          else with_url (set_header hl ''authorization'' (''Bearer '' @ ic_secret cred) hs)
      | Kind_Basic \<Rightarrow>
          if hcontains ''authorization'' hs then Inl ReservedHeader
          else with_url (set_header hl ''authorization'' (''Basic '' @ il_b64 il (ic_secret cred)) hs)
      | Kind_CustomHeaders \<Rightarrow>
          (case il_parse_json il (ic_secret cred) of
             None \<Rightarrow> Inl Credential
           | Some v \<Rightarrow>
               (case as_array v of
                  Some arr \<Rightarrow> with_url (custom_headers hl arr hs)
                | None \<Rightarrow> Inr (hs, u))))"

section \<open>Properties\<close>

text \<open>
  What the code relies on in its cryptography: opening undoes sealing and a sealed text carries
  a tag, and decoding undoes encoding.
\<close>

definition crypto_documented :: "crypto \<Rightarrow> bool" where
  "crypto_documented cr \<longleftrightarrow>
     (\<forall>k n p ct. seal cr k n p = Some ct \<longrightarrow> unseal cr k n ct = Some p \<and> length ct = length p + 16)
     \<and> (\<forall>s. b64_decode cr (b64_encode cr s) = Some s)"

definition toy_crypto :: crypto where
  "toy_crypto =
     \<lparr> sha256 = id, seal = (\<lambda>k n p. Some (p @ replicate 16 CHR ''t'')),
       unseal = (\<lambda>k n c. if length c < 16 then None else Some (take (length c - 16) c)),
       b64_encode = id, b64_decode = Some \<rparr>"

lemma toy_crypto_documented: "crypto_documented toy_crypto"
  by (simp add: crypto_documented_def toy_crypto_def)

text \<open>C37: a sealed credential opens to the secret it was made from, under the same key, in a
  debug and in a release build.\<close>

theorem sealed_credential_opens:
  assumes "crypto_documented cr" and "length nonce = 12" and "utf8_valid secret"
    and "encrypt cr nonce secret key = Inr ct"
  shows "decrypt debug cr ct key = Inr secret"
proof -
  obtain sealed where s: "seal cr (sha256 cr key) nonce secret = Some sealed"
    and ct: "ct = ''v1:'' @ b64_encode cr (nonce @ sealed)"
    using assms(4) by (auto simp: encrypt_def split: option.splits)
  have plain: "strip_prefix ''plain:'' ct = None"
    by (cases "strip_prefix ''plain:'' ct") (auto simp: ct strip_prefix_Some_iff)
  have v1: "strip_prefix ''v1:'' ct = Some (b64_encode cr (nonce @ sealed))"
    by (simp only: strip_prefix_Some_iff ct)
  have lib: "b64_decode cr (b64_encode cr (nonce @ sealed)) = Some (nonce @ sealed)"
    "unseal cr (sha256 cr key) nonce sealed = Some secret" "length sealed = length secret + 16"
    using assms(1) s by (auto simp: crypto_documented_def)
  show ?thesis by (simp add: decrypt_def plain v1 lib assms(2,3))
qed

theorem sealed_credential_opens_witness:
  "\<exists>ct. encrypt toy_crypto ''abcdefghijkl'' ''tok'' ''k'' = Inr ct
      \<and> decrypt False toy_crypto ct ''k'' = Inr ''tok''"
proof -
  have e: "encrypt toy_crypto ''abcdefghijkl'' ''tok'' ''k''
      = Inr (''v1:'' @ ''abcdefghijkl'' @ ''tok'' @ replicate 16 CHR ''t'')"
    by (simp add: encrypt_def toy_crypto_def)
  have "utf8_valid ''tok''" by (rule utf8_valid_ascii) (simp add: in_bytes_def)
  with sealed_credential_opens [OF toy_crypto_documented _ _ e] e show ?thesis by auto
qed

text \<open>A release build opens nothing but a sealed credential: any other text, the fixture form
  \<open>plain:\<close> included, is refused.\<close>

theorem release_opens_only_sealed:
  assumes "\<not> starts_with ct ''v1:''"
  shows "decrypt False cr ct key = Inl Credential"
proof -
  have "strip_prefix ''v1:'' ct = None"
    using assms by (cases "strip_prefix ''v1:'' ct") (auto simp: strip_prefix_Some_iff)
  then show ?thesis by (simp add: decrypt_def)
qed

theorem release_opens_only_sealed_witness:
  "decrypt False toy_crypto ''plain:secret'' ''k'' = Inl Credential"
  by (rule release_opens_only_sealed) simp

lemma lower_authorization: "to_lower ''authorization'' = ''authorization''"
  by (simp add: to_lower_def lower1_def is_upper_def)

lemma name_authorization:
  "names_documented hl \<Longrightarrow> hl_name hl ''authorization'' = Some ''authorization''"
  by (simp add: names_documented_def header_token_def is_alnum_def is_lower_def is_upper_def
      is_digit_def to_lower_def lower1_def)

lemma hcontains_strip_authorization:
  "names_documented hl \<Longrightarrow>
     hcontains ''authorization'' (strip_hop_by_hop hl hs) = hcontains ''authorization'' hs"
  by (simp add: hcontains_hget_all hget_all_strip HOP_BY_HOP_def ALWAYS_STRIP_def)

text \<open>A bearer or basic credential is injected exactly once and never overrides the plan: it
  succeeds only when the request carries no \<open>Authorization\<close> of its own, then the request carries
  the credential's value and no other, every other header is what stripping left, and the URL
  is unchanged.\<close>

theorem authorization_injected_once:
  assumes "names_documented hl" and "ic_kind cred \<in> {Kind_Bearer, Kind_Basic}"
    and "inject hl il hs u cred = Inr (hs', u')"
  shows "\<not> hcontains ''authorization'' hs \<and> u' = u
    \<and> hget_all n hs' =
       (if n = ''authorization''
        then [if ic_kind cred = Kind_Bearer then ''Bearer '' @ ic_secret cred
              else ''Basic '' @ il_b64 il (ic_secret cred)]
        else hget_all n (strip_hop_by_hop hl hs))"
proof -
  note name = name_authorization [OF assms(1)]
  note strip = hcontains_strip_authorization [OF assms(1), of hs]
  from assms(2) show ?thesis
  proof (elim insertE emptyE)
    assume k: "ic_kind cred = Kind_Bearer"
    then show ?thesis
      using assms(3) by (auto simp: inject_def Let_def set_header_def name strip split: if_splits)
  next
    assume k: "ic_kind cred = Kind_Basic"
    then show ?thesis
      using assms(3) by (auto simp: inject_def Let_def set_header_def name strip split: if_splits)
  qed
qed

definition toy_inject :: inject_lib where
  "toy_inject =
     \<lparr> il_append_pair = (\<lambda>u n v. u\<lparr>url_query := Some (n @ ''='' @ v)\<rparr>), il_b64 = id,
       il_parse_json = (\<lambda>_. None) \<rparr>"

theorem authorization_injected_once_witness:
  "\<exists>hs u. inject token_hlib toy_inject [(''accept'', ''*'')] (https_url (Domain ''a''))
            (cred_bearer ''t'') = Inr (hs, u)
     \<and> hget_all ''authorization'' hs = [''Bearer t'']"
proof -
  have n: "names_documented token_hlib" by (rule token_hlib_documented)
  have "hcontains ''authorization'' [(''accept'', ''*'')] = False" by (simp add: hcontains_def)
  then obtain hs' u' where r: "inject token_hlib toy_inject [(''accept'', ''*'')]
      (https_url (Domain ''a'')) (cred_bearer ''t'') = Inr (hs', u')"
    by (auto simp: inject_def Let_def cred_bearer_def cred_of_def set_header_def
        name_authorization [OF n] hcontains_strip_authorization [OF n]) (simp add: token_hlib_def)
  have "ic_kind (cred_bearer ''t'') \<in> {Kind_Bearer, Kind_Basic}"
    by (simp add: cred_bearer_def cred_of_def)
  from authorization_injected_once [OF n this r, of "''authorization''"] r show ?thesis
    by (auto simp: cred_bearer_def cred_of_def)
qed

text \<open>The lemmas the hops need: what injection does to the headers of each kind.\<close>

lemma inject_query_headers:
  "ic_kind cred = Kind_ApiKeyQuery \<Longrightarrow> inject hl il hs u cred = Inr (hs', u') \<Longrightarrow>
     hs' = strip_hop_by_hop hl hs"
  by (simp add: inject_def Let_def)

end
