(* ===== verification/Dial.thy ===== *)
theory Dial
  imports Render Credentials
begin

text \<open>
  The pinned dialer (\<open>mcp-gateway-proxy/src/dial.rs\<close>): one exchange over a connection to the
  pinned address, decoding of the response under its caps, and the redirect hops around it. The
  network is the record \<open>net\<close>, one per hop; every call of it may fail or time out. The result
  carries the log of the exchanges made, the pinned address and the request of each.
\<close>

section \<open>Constants and responses\<close>

definition CONNECT_TIMEOUT_MS :: nat where "CONNECT_TIMEOUT_MS = 5000"
definition TLS_TIMEOUT_MS :: nat where "TLS_TIMEOUT_MS = 5000"
definition REQUEST_TIMEOUT_MS :: nat where "REQUEST_TIMEOUT_MS = 30000"
definition IDLE_READ_TIMEOUT_MS :: nat where "IDLE_READ_TIMEOUT_MS = 10000"
definition RESPONSE_CAP :: nat where "RESPONSE_CAP = 2 * 1024 * 1024"
definition DECOMPRESS_CAP :: nat where "DECOMPRESS_CAP = 2 * 1024 * 1024"
definition MAX_RATIO :: nat where "MAX_RATIO = 10"
definition HEADER_MAP_CAP :: nat where "HEADER_MAP_CAP = 16 * 1024"

record raw_response =
  raw_status :: "16 word"
  raw_headers :: hmap
  raw_body :: bytes

record upstream_response =
  up_status :: "16 word"
  up_content_type :: "bytes option"
  up_body :: bytes

definition is_redirect :: "16 word \<Rightarrow> bool" where
  "is_redirect s \<longleftrightarrow> s \<in> {301, 302, 303, 307, 308}"

section \<open>Decoding the body\<close>

text \<open>\<open>CapWriter\<close>: what is written so far, the size of the compressed input, and one \<open>write\<close>.\<close>

record cap_writer =
  cw_buf :: bytes
  cw_compressed :: nat

definition saturating_mul :: "nat \<Rightarrow> nat \<Rightarrow> nat" where
  "saturating_mul a b = min (a * b) (2 ^ 64 - 1)"

definition cap_write :: "cap_writer \<Rightarrow> bytes \<Rightarrow> cap_writer option" where
  "cap_write w data =
     (if length (cw_buf w) + length data > DECOMPRESS_CAP then None
      else if cw_compressed w > 0
              \<and> length (cw_buf w) + length data > saturating_mul (cw_compressed w) MAX_RATIO then None
      else Some (w\<lparr>cw_buf := cw_buf w @ data\<rparr>))"

fun copy_into :: "cap_writer \<Rightarrow> bytes list \<Rightarrow> cap_writer option" where
  "copy_into w [] = Some w"
| "copy_into w (d # ds) = Option.bind (cap_write w d) (\<lambda>w. copy_into w ds)"

text \<open>A decoder is its output pieces and whether it ended without an error.\<close>

type_synonym decoder = "bytes \<Rightarrow> bytes list \<times> bool"

definition decode_with :: "decoder \<Rightarrow> bytes \<Rightarrow> proxy_error + bytes" where
  "decode_with dec input =
     (let (pieces, ok) = dec input in
      case copy_into \<lparr> cw_buf = [], cw_compressed = length input \<rparr> pieces of
        None \<Rightarrow> Inl TooLarge
      | Some w \<Rightarrow> if ok then Inr (cw_buf w) else Inl TooLarge)"

record decoders =
  dec_gzip :: decoder
  dec_deflate :: decoder
  dec_brotli :: decoder

definition decode_body :: "hlib \<Rightarrow> decoders \<Rightarrow> raw_response \<Rightarrow> proxy_error + upstream_response" where
  "decode_body hl decs raw =
     (let encoding = to_lower (case Option.bind (hget ''content-encoding'' (raw_headers raw)) (hl_to_str hl)
                               of Some s \<Rightarrow> s | None \<Rightarrow> ''identity'')
      in and_then
          (if encoding = ''identity'' \<or> encoding = [] then Inr (raw_body raw)
           else if encoding = ''gzip'' then decode_with (dec_gzip decs) (raw_body raw)
           else if encoding = ''deflate'' then decode_with (dec_deflate decs) (raw_body raw)
           else if encoding = ''br'' then decode_with (dec_brotli decs) (raw_body raw)
           else Inl (Upstream (''unsupported encoding '' @ encoding)))
          (\<lambda>body.
            if length body > DECOMPRESS_CAP then Inl TooLarge
            else Inr \<lparr> up_status = raw_status raw,
                       up_content_type =
                         Option.bind (hget ''content-type'' (raw_headers raw)) (hl_to_str hl),
                       up_body = body \<rparr>))"

fun header_budget :: "hmap \<Rightarrow> nat \<Rightarrow> proxy_error + unit" where
  "header_budget [] tot = Inr ()"
| "header_budget ((k, v) # hs) tot =
     (let tot = tot + (length k + length v) in
      if length v > 4 * 1024 \<or> tot > HEADER_MAP_CAP then Inl TooLarge
      else header_budget hs tot)"

definition enforce_header_budget :: "hmap \<Rightarrow> proxy_error + unit" where
  "enforce_header_budget hs = (if length hs > 64 then Inl TooLarge else header_budget hs 0)"

section \<open>One exchange\<close>

datatype 'a timed = Done 'a | Failed bytes | Timed_Out

fun settle :: "'a timed \<Rightarrow> proxy_error + 'a" where
  "settle (Done a) = Inr a"
| "settle (Failed e) = Inl (Upstream e)"
| "settle Timed_Out = Inl Timeout"

datatype body_event = Data bytes | Other_Frame | Body_Error bytes | Idle

record wire_request =
  wr_method :: bytes
  wr_uri :: bytes
  wr_headers :: hmap
  wr_body :: bytes

record net =
  nt_elapsed :: "nat \<Rightarrow> bool"
  nt_connect :: "ip \<Rightarrow> 16 word \<Rightarrow> ip timed"
  nt_server_name_ok :: "bytes \<Rightarrow> bool"
  nt_tls :: "bytes \<Rightarrow> unit timed"
  nt_handshake :: "bytes option"
  nt_uri_error :: "bytes \<Rightarrow> bytes option"
  nt_build_error :: "wire_request \<Rightarrow> bytes option"
  nt_send :: "wire_request \<Rightarrow> (16 word \<times> hmap \<times> body_event list) timed"

definition fails :: "bytes option \<Rightarrow> proxy_error + unit" where
  "fails e = (case e of None \<Rightarrow> Inr () | Some m \<Rightarrow> Inl (Upstream m))"

definition origin_form :: "url \<Rightarrow> bytes" where
  "origin_form u =
     (let path = (if url_path u = [] then ''/'' else url_path u) in
      case url_query u of Some q \<Rightarrow> path @ ''?'' @ q | None \<Rightarrow> path)"

definition build_origin_form :: "net \<Rightarrow> url \<Rightarrow> proxy_error + bytes" where
  "build_origin_form nt u =
     and_then (fails (nt_uri_error nt (origin_form u))) (\<lambda>_. Inr (origin_form u))"

definition host_value :: "pinned \<Rightarrow> bytes" where
  "host_value p =
     (if pin_scheme p = ''https'' \<and> pin_port p = 443 \<or> pin_scheme p = ''http'' \<and> pin_port p = 80
      then pin_hostname p else pin_hostname p @ '':'' @ show_nat (unat (pin_port p)))"

fun read_body :: "body_event list \<Rightarrow> bytes \<Rightarrow> proxy_error + bytes" where
  "read_body [] body = Inr body"
| "read_body (Idle # es) body = Inl Timeout"
| "read_body (Body_Error e # es) body = Inl (Upstream e)"
| "read_body (Other_Frame # es) body = read_body es body"
| "read_body (Data d # es) body =
     (if length body + length d > RESPONSE_CAP then Inl TooLarge else read_body es (body @ d))"

definition wire_of :: "pinned \<Rightarrow> rendered \<Rightarrow> bytes \<Rightarrow> wire_request" where
  "wire_of p rq uri =
     \<lparr> wr_method = rq_method rq, wr_uri = uri,
       wr_headers = (''host'', host_value p) # filter (\<lambda>h. fst h \<noteq> ''host'') (rq_headers rq)
         @ (if rq_body rq \<noteq> [] then [(''content-length'', show_nat (length (rq_body rq)))] else []),
       wr_body = rq_body rq \<rparr>"

definition http1_exchange :: "net \<Rightarrow> pinned \<Rightarrow> rendered \<Rightarrow> proxy_error + raw_response" where
  "http1_exchange nt p rq =
     and_then (fails (nt_handshake nt)) (\<lambda>_.
     and_then (build_origin_form nt (rq_url rq)) (\<lambda>uri.
     let w = wire_of p rq uri in
     and_then (fails (nt_build_error nt w)) (\<lambda>_.
     and_then (settle (nt_send nt w)) (\<lambda>(status, headers, events).
     and_then (enforce_header_budget headers) (\<lambda>_.
     and_then (read_body events []) (\<lambda>body.
       Inr \<lparr> raw_status = status, raw_headers = headers, raw_body = body \<rparr>))))))"

definition handshake_tls :: "net \<Rightarrow> bytes \<Rightarrow> proxy_error + unit" where
  "handshake_tls nt hostname =
     (if nt_server_name_ok nt hostname then settle (nt_tls nt hostname)
      else Inl (Ssrf_Error (HostnameDenied hostname)))"

definition dial_once :: "net \<Rightarrow> pinned \<Rightarrow> rendered \<Rightarrow> proxy_error + raw_response" where
  "dial_once nt p rq =
     and_then (settle (nt_connect nt (pin_ip p) (pin_port p))) (\<lambda>peer.
       if peer \<noteq> pin_ip p then Inl PeerMismatch
       else if pin_scheme p = ''https''
       then and_then (handshake_tls nt (pin_hostname p)) (\<lambda>_. http1_exchange nt p rq)
       else http1_exchange nt p rq)"

definition timed_dial :: "net \<Rightarrow> pinned \<Rightarrow> rendered \<Rightarrow> proxy_error + raw_response" where
  "timed_dial nt p rq =
     (if nt_elapsed nt (min (rq_timeout_ms rq) REQUEST_TIMEOUT_MS) then Inl Timeout
      else dial_once nt p rq)"

section \<open>The hops\<close>

record dial_env =
  de_self_host :: bool
  de_idna :: idna
  de_policy :: policy
  de_hlib :: hlib
  de_inject :: inject_lib
  de_decoders :: decoders
  de_join :: "url \<Rightarrow> bytes \<Rightarrow> url option"
  de_resolver :: "8 word \<Rightarrow> resolver"
  de_net :: "8 word \<Rightarrow> net"

type_synonym site = "bytes \<times> 16 word"

definition site_of :: "pinned \<Rightarrow> site" where
  "site_of p = (pin_hostname p, pin_port p)"

text \<open>Pinning, stripping and injecting before the dial of a hop.\<close>

definition prepare ::
    "dial_env \<Rightarrow> injected_credential option \<Rightarrow> 8 word \<Rightarrow> site option \<Rightarrow> rendered
     \<Rightarrow> proxy_error + pinned \<times> rendered" where
  "prepare env cred hop previous rq =
     (case pin_url (de_self_host env) (de_idna env) (de_resolver env hop) (de_policy env) hop (rq_url rq) of
        Inl e \<Rightarrow> Inl (Ssrf_Error e)
      | Inr p \<Rightarrow>
          (let rq = rq\<lparr>rq_headers := strip_hop_by_hop (de_hlib env) (rq_headers rq)\<rparr> in
           case cred of
             None \<Rightarrow> Inr (p, rq)
           | Some c \<Rightarrow>
               if (case previous of Some s \<Rightarrow> s = site_of p | None \<Rightarrow> True)
               then and_then (inject (de_hlib env) (de_inject env) (rq_headers rq) (rq_url rq) c)
                 (\<lambda>(hs, u). Inr (p, rq\<lparr>rq_headers := hs, rq_url := u\<rparr>))
               else Inr (p, rq)))"

definition follow ::
    "dial_env \<Rightarrow> rendered \<Rightarrow> raw_response \<Rightarrow> proxy_error + rendered" where
  "follow env rq raw =
     (if rq_method rq \<in> {''POST'', ''PUT'', ''PATCH''} then Inl RedirectOnPost
      else case Option.bind (hget ''location'' (raw_headers raw)) (hl_to_str (de_hlib env)) of
        None \<Rightarrow> Inl (Upstream ''redirect without Location'')
      | Some location \<Rightarrow>
          (case de_join env (rq_url rq) location of
             None \<Rightarrow> Inl (Upstream ''invalid Location'')
           | Some next \<Rightarrow>
               Inr (rq\<lparr> rq_url := next, rq_method := ''GET'', rq_body := [],
                        rq_headers := hremove ''content-type'' (hremove ''content-length''
                          (hremove ''cookie'' (hremove ''authorization'' (rq_headers rq)))) \<rparr>)))"

type_synonym hop_log = "(pinned \<times> rendered) list"

fun execute_hops ::
    "dial_env \<Rightarrow> injected_credential option \<Rightarrow> nat \<Rightarrow> rendered \<Rightarrow> 8 word \<Rightarrow> site option
     \<Rightarrow> hop_log \<times> (proxy_error + upstream_response) option" where
  "execute_hops env cred 0 rq hop previous = ([], None)"
| "execute_hops env cred (Suc fuel) rq hop previous =
     (case prepare env cred hop previous rq of
        Inl e \<Rightarrow> ([], Some (Inl e))
      | Inr (p, rq) \<Rightarrow>
          (case timed_dial (de_net env hop) p rq of
             Inl e \<Rightarrow> ([(p, rq)], Some (Inl e))
           | Inr raw \<Rightarrow>
               if is_redirect (raw_status raw) then
                 (case follow env rq raw of
                    Inl e \<Rightarrow> ([(p, rq)], Some (Inl e))
                  | Inr next \<Rightarrow>
                      (let (log, r) = execute_hops env cred fuel next (hop + 1) (Some (site_of p))
                       in ((p, rq) # log, r)))
               else ([(p, rq)], Some (decode_body (de_hlib env) (de_decoders env) raw))))"

definition hop_fuel :: "policy \<Rightarrow> nat" where
  "hop_fuel p = unat (p_max_hops p) + 2"

definition validate_and_dial ::
    "dial_env \<Rightarrow> injected_credential option \<Rightarrow> rendered
     \<Rightarrow> hop_log \<times> (proxy_error + upstream_response) option" where
  "validate_and_dial env cred rq = execute_hops env cred (hop_fuel (de_policy env)) rq 0 None"

section \<open>Lemmas\<close>

lemma prepare_Inr:
  assumes "prepare env cred hop previous rq = Inr (p, rq')"
  shows "pin_url (de_self_host env) (de_idna env) (de_resolver env hop) (de_policy env) hop (rq_url rq) = Inr p
    \<and> rq_method rq' = rq_method rq \<and> rq_body rq' = rq_body rq"
  using assms
  by (auto simp: prepare_def Let_def split: sum.splits option.splits if_splits)

lemma prepare_hop: "prepare env cred hop previous rq = Inr (p, rq') \<Longrightarrow> hop \<le> p_max_hops (de_policy env)"
  using prepare_Inr by (auto simp: pin_url_Inr dest!: prepare_Inr)

lemma unat_hop_Suc: "hop \<le> m \<Longrightarrow> m < 255 \<Longrightarrow> unat (hop + 1) = Suc (unat hop)" for hop m :: "8 word"
  by (simp add: unat_word_ariths word_le_nat_alt word_less_nat_alt)

text \<open>The three ways a hop goes: refused before dialing, ended, or followed.\<close>

lemma hop_cases:
  obtains (refused) e where "prepare env cred hop previous rq = Inl e"
      "execute_hops env cred (Suc fuel) rq hop previous = ([], Some (Inl e))"
  | (ended) p rq' r where "prepare env cred hop previous rq = Inr (p, rq')"
      "execute_hops env cred (Suc fuel) rq hop previous = ([(p, rq')], Some r)"
  | (followed) p rq' raw nxt where "prepare env cred hop previous rq = Inr (p, rq')"
      "follow env rq' raw = Inr nxt"
      "execute_hops env cred (Suc fuel) rq hop previous =
         ((p, rq') # fst (execute_hops env cred fuel nxt (hop + 1) (Some (site_of p))),
          snd (execute_hops env cred fuel nxt (hop + 1) (Some (site_of p))))"
proof (cases "prepare env cred hop previous rq")
  case (Inl e)
  then show ?thesis by (intro refused) simp_all
next
  case (Inr pr)
  obtain p rq' where pr: "prepare env cred hop previous rq = Inr (p, rq')"
    using Inr by (cases pr) simp
  show ?thesis
  proof (cases "timed_dial (de_net env hop) p rq'")
    case (Inl e)
    with pr show ?thesis by (intro ended) simp_all
  next
    case (Inr raw)
    show ?thesis
    proof (cases "is_redirect (raw_status raw)")
      case False
      with pr Inr show ?thesis by (intro ended) simp_all
    next
      case True
      show ?thesis
      proof (cases "follow env rq' raw")
        case (Inl e)
        with pr True \<open>timed_dial (de_net env hop) p rq' = Inr raw\<close> show ?thesis
          by (intro ended) simp_all
      next
        case (Inr nxt)
        with pr True \<open>timed_dial (de_net env hop) p rq' = Inr raw\<close> show ?thesis
          by (intro followed) (simp_all add: case_prod_beta Let_def)
      qed
    qed
  qed
qed

lemma hops_return:
  assumes "p_max_hops (de_policy env) < 255"
  shows "unat hop \<le> Suc (unat (p_max_hops (de_policy env)))
    \<Longrightarrow> unat (p_max_hops (de_policy env)) + 2 \<le> fuel + unat hop
    \<Longrightarrow> snd (execute_hops env cred fuel rq hop previous) \<noteq> None
      \<and> length (fst (execute_hops env cred fuel rq hop previous)) + unat hop
          \<le> Suc (unat (p_max_hops (de_policy env)))"
proof (induction fuel arbitrary: rq hop previous)
  case (Suc fuel)
  have le: "unat hop \<le> unat (p_max_hops (de_policy env))"
    if "prepare env cred hop previous rq = Inr (p, rq')" for p rq'
    using prepare_hop [OF that] by (simp add: word_le_nat_alt)
  show ?case
  proof (cases rule: hop_cases [of env cred hop previous rq fuel])
    case (refused e)
    with Suc.prems show ?thesis by simp
  next
    case (ended p rq' r)
    with le show ?thesis by simp
  next
    case (followed p rq' raw nxt)
    have s: "unat (hop + 1) = Suc (unat hop)"
      by (rule unat_hop_Suc [OF prepare_hop [OF followed(1)] assms])
    with Suc.IH [of "hop + 1" nxt "Some (site_of p)"] Suc.prems(2) le [OF followed(1)] followed(3)
    show ?thesis by simp
  qed
qed simp

text \<open>What holds of every hop's pair holds of the log.\<close>

lemma log_all:
  assumes "\<And>hop previous rq p rq'. prepare env cred hop previous rq = Inr (p, rq') \<Longrightarrow> P (p, rq')"
  shows "\<forall>x \<in> set (fst (execute_hops env cred fuel rq hop previous)). P x"
proof (induction fuel arbitrary: rq hop previous)
  case (Suc fuel)
  show ?case
    by (cases rule: hop_cases [of env cred hop previous rq fuel])
       (use assms Suc.IH in simp_all)
qed simp

lemma follow_Inr:
  assumes "follow env rq raw = Inr nxt"
  shows "rq_method rq \<notin> {''POST'', ''PUT'', ''PATCH''} \<and> rq_method nxt = ''GET'' \<and> rq_body nxt = []
    \<and> rq_timeout_ms nxt = rq_timeout_ms rq
    \<and> (\<forall>n. hget_all n (rq_headers nxt) =
          (if n \<in> {''authorization'', ''cookie'', ''content-length'', ''content-type''} then []
           else hget_all n (rq_headers rq)))"
  using assms by (auto simp: follow_def split: if_splits option.splits)

lemma decode_body_cap:
  "decode_body hl decs raw = Inr r \<Longrightarrow> length (up_body r) \<le> DECOMPRESS_CAP \<and> up_status r = raw_status raw"
  by (auto simp: decode_body_def Let_def split: if_splits)

text \<open>The first exchange of a run is the one its hop prepares.\<close>

lemma hd_log:
  "fst (execute_hops env cred fuel rq hop previous) = x # log \<Longrightarrow>
     prepare env cred hop previous rq = Inr x"
proof (cases fuel)
  case (Suc n)
  assume "fst (execute_hops env cred fuel rq hop previous) = x # log"
  then show ?thesis
    by (cases rule: hop_cases [of env cred hop previous rq n]) (auto simp: Suc)
qed simp

lemma prepare_cross_site:
  "prepare env cred hop (Some s) rq = Inr (p, rq') \<Longrightarrow> s \<noteq> site_of p \<Longrightarrow>
     rq_headers rq' = strip_hop_by_hop (de_hlib env) (rq_headers rq)"
  by (auto simp: prepare_def Let_def split: sum.splits option.splits if_splits)

lemma cross_site_authorization:
  assumes hl: "names_documented (de_hlib env)"
  shows "Suc i < length (fst (execute_hops env cred fuel rq hop previous)) \<Longrightarrow>
     site_of (fst (fst (execute_hops env cred fuel rq hop previous) ! i))
       \<noteq> site_of (fst (fst (execute_hops env cred fuel rq hop previous) ! Suc i)) \<Longrightarrow>
     hget_all ''authorization''
       (rq_headers (snd (fst (execute_hops env cred fuel rq hop previous) ! Suc i))) = []"
proof (induction fuel arbitrary: rq hop previous i)
  case (Suc fuel)
  show ?case
  proof (cases rule: hop_cases [of env cred hop previous rq fuel])
    case (refused e)
    with Suc.prems show ?thesis by simp
  next
    case (ended p rq' r)
    with Suc.prems show ?thesis by simp
  next
    case (followed p rq' raw nxt)
    let ?log = "fst (execute_hops env cred fuel nxt (hop + 1) (Some (site_of p)))"
    show ?thesis
    proof (cases i)
      case 0
      with Suc.prems(1) followed(3) obtain p2 rq2 rest where l: "?log = (p2, rq2) # rest"
        by (cases ?log) auto
      from hd_log [OF l] have pr: "prepare env cred (hop + 1) (Some (site_of p)) nxt = Inr (p2, rq2)" .
      from Suc.prems(2) followed(3) 0 l have "site_of p \<noteq> site_of p2" by simp
      with prepare_cross_site [OF pr]
      have "rq_headers rq2 = strip_hop_by_hop (de_hlib env) (rq_headers nxt)" by simp
      then have "hget_all ''authorization'' (rq_headers rq2) = []"
        using follow_Inr [OF followed(2)] by (simp add: hget_all_strip [OF hl])
      with followed(3) 0 l show ?thesis by simp
    next
      case (Suc j)
      with Suc.IH [of j nxt "hop + 1" "Some (site_of p)"] Suc.prems followed(3) show ?thesis
        by simp
    qed
  qed
qed simp

text \<open>A header injected once stays: only the four request-specific headers are dropped on the way.\<close>

lemma inject_api_key:
  assumes "ic_kind cred = Kind_ApiKeyHeader" and "ic_header_name cred = Some name"
    and "hl_name hl name = Some n" and "inject hl il hs u cred = Inr (hs', u')"
  shows "hget_all n hs' = [ic_secret cred]"
  using assms by (auto simp: inject_def Let_def set_header_def split: if_splits)

lemma api_key_on_every_hop:
  assumes hl: "names_documented (de_hlib env)"
    and k: "ic_kind cred = Kind_ApiKeyHeader" "ic_header_name cred = Some name"
      "hl_name (de_hlib env) name = Some n"
    and n: "n \<notin> set (HOP_BY_HOP @ ALWAYS_STRIP)"
      "n \<notin> {''authorization'', ''cookie'', ''content-length'', ''content-type''}"
  shows "previous = None \<or> hget_all n (rq_headers rq) = [ic_secret cred] \<Longrightarrow>
     \<forall>x \<in> set (fst (execute_hops env (Some cred) fuel rq hop previous)).
       hget_all n (rq_headers (snd x)) = [ic_secret cred]"
proof (induction fuel arbitrary: rq hop previous)
  case (Suc fuel)
  have prep: "hget_all n (rq_headers rq') = [ic_secret cred]"
    if "prepare env (Some cred) hop previous rq = Inr (p, rq')" for p rq'
  proof (cases "case previous of Some s \<Rightarrow> s = site_of p | None \<Rightarrow> True")
    case True
    with that obtain hs' u' where
      "inject (de_hlib env) (de_inject env) (strip_hop_by_hop (de_hlib env) (rq_headers rq)) (rq_url rq) cred
        = Inr (hs', u')" and "rq_headers rq' = hs'"
      by (auto simp: prepare_def Let_def split: sum.splits if_splits)
    with inject_api_key [OF k] show ?thesis by blast
  next
    case False
    then obtain s where s: "previous = Some s" "s \<noteq> site_of p" by (cases previous) auto
    with that prepare_cross_site [of env "Some cred" hop s rq p rq']
    have "rq_headers rq' = strip_hop_by_hop (de_hlib env) (rq_headers rq)" by simp
    with s Suc.prems show ?thesis using n(1) by (simp add: hget_all_strip [OF hl])
  qed
  show ?case
  proof (cases rule: hop_cases [of env "Some cred" hop previous rq fuel])
    case (followed p rq' raw nxt)
    have "hget_all n (rq_headers nxt) = [ic_secret cred]"
      using follow_Inr [OF followed(2)] prep [OF followed(1)] n(2) by simp
    with Suc.IH [of "Some (site_of p)" nxt "hop + 1"] prep [OF followed(1)] followed(3)
    show ?thesis by simp
  qed (use prep in simp_all)
qed simp

lemma copy_into_bound:
  "copy_into w ps = Some w' \<Longrightarrow> length (cw_buf w) \<le> DECOMPRESS_CAP \<Longrightarrow>
     cw_compressed w = 0 \<or> length (cw_buf w) \<le> cw_compressed w * MAX_RATIO \<Longrightarrow>
     cw_buf w' = cw_buf w @ concat ps \<and> length (cw_buf w') \<le> DECOMPRESS_CAP
     \<and> (cw_compressed w = 0 \<or> length (cw_buf w') \<le> cw_compressed w * MAX_RATIO)"
proof (induction ps arbitrary: w)
  case (Cons p ps)
  then obtain v where v: "cap_write w p = Some v" "copy_into v ps = Some w'"
    by (auto split: bind_splits)
  then have "cw_buf v = cw_buf w @ p" "cw_compressed v = cw_compressed w"
    "length (cw_buf v) \<le> DECOMPRESS_CAP"
    "cw_compressed v = 0 \<or> length (cw_buf v) \<le> cw_compressed v * MAX_RATIO"
    by (auto simp: cap_write_def saturating_mul_def split: if_splits)
  with Cons.IH [OF v(2)] show ?case by (metis append.assoc concat.simps(2))
qed simp

section \<open>A sample chain\<close>

text \<open>A server \<open>A\<close> that redirects to \<open>B\<close>, which redirects to itself once.\<close>

definition ip_a :: ipv4 where "ip_a = IPv4 93 184 216 34"
definition ip_b :: ipv4 where "ip_b = IPv4 9 9 9 9"

definition sample_net :: "bytes option \<Rightarrow> net" where
  "sample_net loc =
     \<lparr> nt_elapsed = (\<lambda>_. False), nt_connect = (\<lambda>i _. Done i), nt_server_name_ok = (\<lambda>_. True),
       nt_tls = (\<lambda>_. Done ()), nt_handshake = None, nt_uri_error = (\<lambda>_. None),
       nt_build_error = (\<lambda>_. None),
       nt_send = (\<lambda>_. Done (case loc of
           Some l \<Rightarrow> (302, [(''location'', l)], [])
         | None \<Rightarrow> (200, [], [Data ''ok'']))) \<rparr>"

definition sample_env :: dial_env where
  "sample_env =
     \<lparr> de_self_host = False, de_idna = plain_idna, de_policy = policy_default,
       de_hlib = token_hlib, de_inject = toy_inject,
       de_decoders = \<lparr> dec_gzip = (\<lambda>_. ([], True)), dec_deflate = (\<lambda>_. ([], True)),
                       dec_brotli = (\<lambda>_. ([], True)) \<rparr>,
       de_join = (\<lambda>u l. Some (https_url (Host_V4 ip_b))),
       de_resolver = (\<lambda>_ _. Inl ''none''),
       de_net = (\<lambda>hop. if hop < 2 then sample_net (Some ''https://9.9.9.9/'') else sample_net None) \<rparr>"

definition sample_rq :: rendered where
  "sample_rq =
     \<lparr> rq_method = ''GET'', rq_url = https_url (Host_V4 ip_a), rq_headers = [(''accept'', ''*/*'')],
       rq_body = [], rq_timeout_ms = 1000 \<rparr>"

definition pin_of :: "ipv4 \<Rightarrow> pinned" where
  "pin_of v = \<lparr> pin_hostname = show_ipv4 v, pin_scheme = ''https'', pin_port = 443, pin_ip = V4 v \<rparr>"

lemma show_ipv4_inj: "show_ipv4 v = show_ipv4 w \<longleftrightarrow> v = w"
  by (metis parse_ip_show_ipv4 ip.inject(1) option.inject)

lemma sample_ips: "ip_a \<noteq> ip_b" "show_ipv4 ip_a = ''93.184.216.34''" "show_ipv4 ip_b = ''9.9.9.9''"
  by (simp add: ip_a_def ip_b_def) (unfold ip_a_def ip_b_def, code_simp+)

lemma pin_sample:
  assumes "hop \<le> 3" and "v = ip_a \<or> v = ip_b"
  shows "pin_url False plain_idna resolve policy_default hop (https_url (Host_V4 v)) = Inr (pin_of v)"
proof -
  have names: "\<not> hostname_denied False p (show_ipv4 v)" for p
    using assms(2)
    by (auto simp: sample_ips hostname_denied_def METADATA_HOSTS_def HOST_EXACT_DENY_def
        HOST_SUFFIX_DENY_def suffix_to_prefix)
  have opn: "\<not> is_blocked_ip_with_policy False p (V4 v)" for p
    using assms(2) by (auto simp: blocked_V4 ip_a_def ip_b_def ipv4_denied_octets)
  show ?thesis
    using assms(1)
    by (simp add: pin_url_def check_scheme_def https_url_def pin_port_of_def policy_default_def
        ALLOWED_PORTS_def normalize_hostname_def host_addrs_def pick_addr_def names opn pin_of_def
        not_less del: show_ipv4.simps)
qed

lemma strip_sample:
  "strip_hop_by_hop token_hlib [] = []"
  "strip_hop_by_hop token_hlib ((''accept'', v) # hs) = (''accept'', v) # strip_hop_by_hop token_hlib hs"
  "strip_hop_by_hop token_hlib ((''authorization'', v) # hs)
     = (''authorization'', v) # strip_hop_by_hop token_hlib hs"
  by (simp_all add: strip_eq_filter [OF token_hlib_documented] HOP_BY_HOP_def ALWAYS_STRIP_def)

lemma inject_sample:
  "inject token_hlib il [(''accept'', v)] u (cred_bearer t)
     = Inr ([(''accept'', v), (''authorization'', ''Bearer '' @ t)], u)"
proof -
  have "hl_value token_hlib x" for x by (simp add: token_hlib_def)
  then show ?thesis
    by (simp add: inject_def Let_def strip_sample cred_bearer_def cred_of_def hcontains_def
        set_header_def name_authorization [OF token_hlib_documented] hinsert_def hremove_def)
qed

lemma dial_sample:
  "timed_dial (sample_net loc) p rq =
     Inr (case loc of
        Some l \<Rightarrow> \<lparr> raw_status = 302, raw_headers = [(''location'', l)], raw_body = [] \<rparr>
      | None \<Rightarrow> \<lparr> raw_status = 200, raw_headers = [], raw_body = ''ok'' \<rparr>)"
  if "case loc of Some l \<Rightarrow> length l \<le> 100 | None \<Rightarrow> True"
  using that
  by (cases loc)
     (simp_all add: timed_dial_def sample_net_def dial_once_def handshake_tls_def http1_exchange_def
       fails_def build_origin_form_def enforce_header_budget_def HEADER_MAP_CAP_def RESPONSE_CAP_def
       Let_def)

lemma sample_env_fields [simp]:
  "de_self_host sample_env = False" "de_idna sample_env = plain_idna"
  "de_policy sample_env = policy_default" "de_hlib sample_env = token_hlib"
  "de_inject sample_env = toy_inject" "de_join sample_env u l = Some (https_url (Host_V4 ip_b))"
  "de_net sample_env hop =
     (if hop < 2 then sample_net (Some ''https://9.9.9.9/'') else sample_net None)"
  by (simp_all add: sample_env_def)

definition sample_hop :: "ipv4 \<Rightarrow> hmap \<Rightarrow> rendered" where
  "sample_hop v hs = sample_rq\<lparr>rq_url := https_url (Host_V4 v), rq_headers := hs\<rparr>"

lemma sample_hop_fields [simp]:
  "rq_method (sample_hop v hs) = ''GET''" "rq_url (sample_hop v hs) = https_url (Host_V4 v)"
  "rq_headers (sample_hop v hs) = hs" "rq_body (sample_hop v hs) = []"
  "(sample_hop v hs)\<lparr>rq_headers := hs'\<rparr> = sample_hop v hs'"
  "(sample_hop v hs)\<lparr>rq_url := https_url (Host_V4 w)\<rparr> = sample_hop w hs"
  "(sample_hop v hs)\<lparr>rq_method := ''GET''\<rparr> = sample_hop v hs"
  "(sample_hop v hs)\<lparr>rq_body := []\<rparr> = sample_hop v hs"
  by (simp_all add: sample_hop_def sample_rq_def)

lemma site_sample [simp]: "site_of (pin_of v) = site_of (pin_of w) \<longleftrightarrow> v = w"
  by (simp add: site_of_def pin_of_def show_ipv4_inj del: show_ipv4.simps)

lemma prepare_sample:
  assumes "hop \<le> 3" and "v = ip_a \<or> v = ip_b"
  shows "prepare sample_env (Some (cred_bearer ''t'')) hop prev (sample_hop v [(''accept'', ''*/*'')])
    = Inr (pin_of v, sample_hop v ((''accept'', ''*/*'') #
        (if (case prev of Some s \<Rightarrow> s = site_of (pin_of v) | None \<Rightarrow> True)
         then [(''authorization'', ''Bearer t'')] else [])))"
  by (simp add: prepare_def pin_sample [OF assms] strip_sample inject_sample Let_def
      split: option.split)

lemma follow_sample:
  "follow sample_env (sample_hop v ((''accept'', ''*/*'') # hs))
     \<lparr> raw_status = 302, raw_headers = [(''location'', l)], raw_body = [] \<rparr>
   = Inr (sample_hop ip_b [(''accept'', ''*/*'')])"
  if "hs = [] \<or> hs = [(''authorization'', ''Bearer t'')]"
  using that by (auto simp: follow_def hget_def token_hlib_def hremove_def)

lemma sample_chain:
  "fst (validate_and_dial sample_env (Some (cred_bearer ''t'')) sample_rq)
   = [(pin_of ip_a, sample_hop ip_a [(''accept'', ''*/*''), (''authorization'', ''Bearer t'')]),
      (pin_of ip_b, sample_hop ip_b [(''accept'', ''*/*'')]),
      (pin_of ip_b, sample_hop ip_b [(''accept'', ''*/*''), (''authorization'', ''Bearer t'')])]"
proof -
  have rq: "sample_rq = sample_hop ip_a [(''accept'', ''*/*'')]"
    by (simp add: sample_hop_def sample_rq_def)
  have fuel: "hop_fuel policy_default = Suc (Suc (Suc (Suc (Suc 0))))"
    by (simp add: hop_fuel_def policy_default_def)
  show ?thesis
    unfolding validate_and_dial_def rq
    by (simp add: fuel prepare_sample dial_sample follow_sample is_redirect_def sample_ips(1)
        sample_ips(1) [symmetric] Let_def case_prod_beta)
qed

section \<open>Properties\<close>

text \<open>What the pin of an exchange has passed.\<close>

definition exchange_allowed :: "bool \<Rightarrow> policy \<Rightarrow> pinned \<Rightarrow> bool" where
  "exchange_allowed sh policy p \<longleftrightarrow>
     \<not> is_blocked_ip_with_policy sh policy (pin_ip p)
     \<and> \<not> hostname_denied sh policy (pin_hostname p)
     \<and> (pin_scheme p = ''https'' \<or> pin_scheme p = ''http'' \<and> p_allow_insecure_http policy)
     \<and> (pin_port p \<in> {80, 443, 8443} \<or> p_allow_loopback policy)"

lemma exchanges_allowed:
  "\<forall>x \<in> set (fst (validate_and_dial env cred rq0)). exchange_allowed (de_self_host env) (de_policy env) (fst x)"
  unfolding validate_and_dial_def
proof (rule log_all)
  fix hop previous rq p rq'
  assume "prepare env cred hop previous rq = Inr (p, rq')"
  from prepare_Inr [OF this] show "exchange_allowed (de_self_host env) (de_policy env) (fst (p, rq'))"
    using pick_addr_in by (auto simp: exchange_allowed_def pin_url_Inr check_scheme_Inr ALLOWED_PORTS_def)
qed

lemma dial_returns:
  assumes "p_max_hops (de_policy env) < 255"
  shows "snd (validate_and_dial env cred rq) \<noteq> None
    \<and> length (fst (validate_and_dial env cred rq)) \<le> unat (p_max_hops (de_policy env)) + 1"
  using hops_return [OF assms, of 0 "hop_fuel (de_policy env)" cred rq None]
  by (simp add: validate_and_dial_def hop_fuel_def)

text \<open>C2: every exchange of a call, on every redirect hop, goes to a pinned address that the policy
  does not block, under a host name it does not deny, over a scheme and port it allows.\<close>

theorem every_exchange_is_pinned:
  "\<forall>(p, rq) \<in> set (fst (validate_and_dial env cred rq0)).
     \<not> is_blocked_ip_with_policy (de_self_host env) (de_policy env) (pin_ip p)
     \<and> \<not> hostname_denied (de_self_host env) (de_policy env) (pin_hostname p)
     \<and> (pin_scheme p = ''https'' \<or> pin_scheme p = ''http'' \<and> p_allow_insecure_http (de_policy env))
     \<and> (pin_port p \<in> {80, 443, 8443} \<or> p_allow_loopback (de_policy env))"
  using exchanges_allowed [of env cred rq0] by (simp add: exchange_allowed_def case_prod_unfold)

theorem every_exchange_is_pinned_witness:
  "\<not> is_blocked_ip_with_policy False policy_default (pin_ip (pin_of ip_b))"
  using every_exchange_is_pinned [of sample_env "Some (cred_bearer ''t'')" sample_rq]
  by (simp add: sample_chain)

text \<open>A call returns: with a hop limit below 255 the redirects end within the fuel given, after at
  most one exchange more than the limit.\<close>

theorem redirects_end:
  assumes "p_max_hops (de_policy env) < 255"
  shows "snd (validate_and_dial env cred rq) \<noteq> None
    \<and> length (fst (validate_and_dial env cred rq)) \<le> unat (p_max_hops (de_policy env)) + 1"
  by (rule dial_returns) (rule assms)

theorem redirects_end_witness:
  "length (fst (validate_and_dial sample_env (Some (cred_bearer ''t'')) sample_rq)) \<le> 4"
  using redirects_end [of sample_env "Some (cred_bearer ''t'')" sample_rq]
  by (simp add: policy_default_def)

text \<open>A request that changes data is never replayed by a redirect: a \<open>POST\<close>, \<open>PUT\<close> or \<open>PATCH\<close>
  call makes at most one exchange, and after the first exchange of any call the method is \<open>GET\<close>
  and the body empty.\<close>

theorem unsafe_methods_not_redirected:
  "(rq_method rq \<in> {''POST'', ''PUT'', ''PATCH''} \<longrightarrow>
      length (fst (validate_and_dial env cred rq)) \<le> 1)
   \<and> (\<forall>x \<in> set (tl (fst (validate_and_dial env cred rq))).
        rq_method (snd x) = ''GET'' \<and> rq_body (snd x) = [])"
proof -
  have later: "rq_method rq = ''GET'' \<and> rq_body rq = [] \<Longrightarrow>
      \<forall>x \<in> set (fst (execute_hops env cred fuel rq hop previous)).
        rq_method (snd x) = ''GET'' \<and> rq_body (snd x) = []" for fuel rq hop previous
  proof (induction fuel arbitrary: rq hop previous)
    case (Suc fuel)
    have prep: "prepare env cred hop previous rq = Inr (p, rq') \<Longrightarrow>
        rq_method rq' = ''GET'' \<and> rq_body rq' = []" for p rq'
      using prepare_Inr Suc.prems by fastforce
    show ?case
    proof (cases rule: hop_cases [of env cred hop previous rq fuel])
      case (followed p rq' raw nxt)
      have "rq_method nxt = ''GET'' \<and> rq_body nxt = []"
        using follow_Inr [OF followed(2)] by simp
      from Suc.IH [OF this] prep [OF followed(1)] followed(3) show ?thesis by simp
    qed (use prep in simp_all)
  qed simp
  obtain fuel where f: "hop_fuel (de_policy env) = Suc fuel" by (simp add: hop_fuel_def)
  show ?thesis
    unfolding validate_and_dial_def f
  proof (cases rule: hop_cases [of env cred 0 None rq fuel])
    case (followed p rq' raw nxt)
    then have "rq_method rq \<notin> {''POST'', ''PUT'', ''PATCH''}"
      using follow_Inr [OF followed(2)] prepare_Inr [OF followed(1)] by simp
    moreover have "rq_method nxt = ''GET'' \<and> rq_body nxt = []"
      using follow_Inr [OF followed(2)] by simp
    ultimately show "(rq_method rq \<in> {''POST'', ''PUT'', ''PATCH''} \<longrightarrow>
        length (fst (execute_hops env cred (Suc fuel) rq 0 None)) \<le> 1)
      \<and> (\<forall>x \<in> set (tl (fst (execute_hops env cred (Suc fuel) rq 0 None))).
          rq_method (snd x) = ''GET'' \<and> rq_body (snd x) = [])"
      using later followed(3) by simp
  qed simp_all
qed

theorem unsafe_methods_not_redirected_witness:
  "length (fst (validate_and_dial sample_env None (sample_rq\<lparr>rq_method := ''POST''\<rparr>))) \<le> 1"
  using unsafe_methods_not_redirected [of "sample_rq\<lparr>rq_method := ''POST''\<rparr>" sample_env None]
  by simp

text \<open>Across a change of host or port \<open>Authorization\<close> is dropped: the exchange after a redirect
  to another site carries none, whatever the credential's kind.\<close>

theorem cross_site_redirect_drops_authorization:
  assumes "names_documented (de_hlib env)"
    and "Suc i < length (fst (validate_and_dial env cred rq))"
    and "site_of (fst (fst (validate_and_dial env cred rq) ! i))
       \<noteq> site_of (fst (fst (validate_and_dial env cred rq) ! Suc i))"
  shows "\<not> hcontains ''authorization'' (rq_headers (snd (fst (validate_and_dial env cred rq) ! Suc i)))"
  using cross_site_authorization [OF assms(1) assms(2,3) [unfolded validate_and_dial_def]]
  by (simp add: hcontains_hget_all validate_and_dial_def)

theorem cross_site_redirect_drops_authorization_witness:
  "\<not> hcontains ''authorization'' (rq_headers (sample_hop ip_b [(''accept'', ''*/*'')]))"
  using cross_site_redirect_drops_authorization
    [of sample_env 0 "Some (cred_bearer ''t'')" sample_rq]
  by (simp add: sample_chain token_hlib_documented sample_ips(1))

text \<open>But the site is compared with the previous hop's only. A server that redirects to a
  foreign site, which redirects to itself, hands the caller's bearer token to the foreign site on
  the third exchange.\<close>

theorem token_reaches_foreign_site:
  "map (\<lambda>(p, rq). (pin_ip p, hget_all ''authorization'' (rq_headers rq)))
     (fst (validate_and_dial sample_env (Some (cred_bearer ''t'')) sample_rq))
   = [(V4 (IPv4 93 184 216 34), [''Bearer t'']), (V4 (IPv4 9 9 9 9), []),
      (V4 (IPv4 9 9 9 9), [''Bearer t''])]"
  by (simp add: sample_chain pin_of_def hget_all_def ip_a_def ip_b_def)

text \<open>An API-key header is not dropped at all: once injected it goes to every site of the
  redirect chain, since following a redirect removes only \<open>Authorization\<close>, \<open>Cookie\<close> and the two
  content headers.\<close>

theorem api_key_header_follows_redirects:
  assumes "names_documented (de_hlib env)"
    and "ic_kind cred = Kind_ApiKeyHeader" "ic_header_name cred = Some name"
    and "hl_name (de_hlib env) name = Some n"
    and "n \<notin> set (HOP_BY_HOP @ ALWAYS_STRIP)"
    and "n \<notin> {''authorization'', ''cookie'', ''content-length'', ''content-type''}"
  shows "\<forall>x \<in> set (fst (validate_and_dial env (Some cred) rq)).
    hget_all n (rq_headers (snd x)) = [ic_secret cred]"
  unfolding validate_and_dial_def by (rule api_key_on_every_hop [OF assms]) simp

theorem api_key_header_follows_redirects_witness:
  "\<forall>x \<in> set (fst (validate_and_dial sample_env (Some (cred_api_key_header ''k'' ''X-API-Key'')) sample_rq)).
     hget_all ''x-api-key'' (rq_headers (snd x)) = [''k'']"
proof -
  have n: "hl_name token_hlib ''X-API-Key'' = Some ''x-api-key''"
    by (simp add: token_hlib_def header_token_def is_alnum_def is_lower_def is_upper_def is_digit_def
        to_lower_def lower1_def char_of_eq_iff)
  have "\<forall>x \<in> set (fst (validate_and_dial sample_env (Some (cred_api_key_header ''k'' ''X-API-Key'')) sample_rq)).
     hget_all ''x-api-key'' (rq_headers (snd x)) = [ic_secret (cred_api_key_header ''k'' ''X-API-Key'')]"
    by (rule api_key_header_follows_redirects [where name = "''X-API-Key''"])
       (simp_all add: token_hlib_documented n cred_api_key_header_def cred_of_def HOP_BY_HOP_def
         ALWAYS_STRIP_def)
  then show ?thesis by (simp add: cred_api_key_header_def cred_of_def)
qed

text \<open>C38: a decoded body is bounded twice: it is at most two mebibytes, and at most ten times the
  size of the compressed input when that is not empty; and what the writer keeps is exactly what
  the decoder wrote.\<close>

theorem decompression_bounded:
  assumes "decode_with dec input = Inr out"
  shows "length out \<le> 2 * 1024 * 1024 \<and> (input \<noteq> [] \<longrightarrow> length out \<le> 10 * length input)
    \<and> out = concat (fst (dec input))"
proof -
  obtain ps ok where d: "dec input = (ps, ok)" by (cases "dec input")
  from assms obtain w where w: "copy_into \<lparr> cw_buf = [], cw_compressed = length input \<rparr> ps = Some w"
    and out: "out = cw_buf w"
    by (auto simp: decode_with_def d split: option.splits if_splits)
  from copy_into_bound [OF w] out d show ?thesis
    by (auto simp: DECOMPRESS_CAP_def MAX_RATIO_def)
qed

theorem decompression_bounded_witness:
  "\<exists>out. decode_with (\<lambda>s. ([s, s], True)) ''ab'' = Inr out \<and> length out \<le> 20"
proof -
  have "decode_with (\<lambda>s. ([s, s], True)) ''ab'' = Inr ''abab''"
    by (simp add: decode_with_def cap_write_def DECOMPRESS_CAP_def MAX_RATIO_def saturating_mul_def)
  with decompression_bounded [OF this] show ?thesis by auto
qed

text \<open>Nothing is sent unless the connection's peer is the pinned address: an exchange that
  answers was connected to exactly that address.\<close>

theorem exchange_needs_pinned_peer:
  assumes "dial_once nt p rq = Inr raw"
  shows "nt_connect nt (pin_ip p) (pin_port p) = Done (pin_ip p)
    \<and> (pin_scheme p = ''https'' \<longrightarrow> nt_tls nt (pin_hostname p) = Done ())
    \<and> length (raw_body raw) \<le> 2 * 1024 * 1024 \<and> length (raw_headers raw) \<le> 64"
proof -
  have body: "read_body es acc = Inr b \<Longrightarrow> length acc \<le> RESPONSE_CAP \<Longrightarrow> length b \<le> RESPONSE_CAP" for es acc b
    by (induction es acc rule: read_body.induct) (auto split: if_splits)
  have settle: "settle t = Inr a \<longleftrightarrow> t = Done a" for t :: "'a timed" and a
    by (cases t) auto
  have h1: "http1_exchange nt p rq = Inr raw"
    and c: "nt_connect nt (pin_ip p) (pin_port p) = Done (pin_ip p)"
    and t: "pin_scheme p = ''https'' \<longrightarrow> handshake_tls nt (pin_hostname p) = Inr ()"
    using assms
    by (cases "nt_connect nt (pin_ip p) (pin_port p)"; auto simp: dial_once_def split: if_splits)+
  have "nt_tls nt (pin_hostname p) = Done ()" if "pin_scheme p = ''https''"
    using t that by (cases "nt_tls nt (pin_hostname p)") (auto simp: handshake_tls_def split: if_splits)
  with c h1 body show ?thesis
    by (auto simp: http1_exchange_def Let_def enforce_header_budget_def RESPONSE_CAP_def split: if_splits)
qed

theorem exchange_needs_pinned_peer_witness:
  "\<exists>raw. dial_once (sample_net None) (pin_of ip_a) sample_rq = Inr raw
     \<and> length (raw_body raw) \<le> 2 * 1024 * 1024"
proof -
  have "timed_dial (sample_net None) (pin_of ip_a) sample_rq
      = Inr \<lparr> raw_status = 200, raw_headers = [], raw_body = ''ok'' \<rparr>"
    by (simp add: dial_sample)
  then have "dial_once (sample_net None) (pin_of ip_a) sample_rq
      = Inr \<lparr> raw_status = 200, raw_headers = [], raw_body = ''ok'' \<rparr>"
    by (simp add: timed_dial_def split: if_splits)
  with exchange_needs_pinned_peer [OF this] show ?thesis by blast
qed

end
