(* ===== verification/Tool_Result.thy ===== *)
theory Tool_Result
  imports Dial Utf8
begin

text \<open>
  From an upstream response to a tool result (\<open>mcp-gateway-proxy/src/map.rs\<close>): the mapping of
  successes and errors, the caps, and the redaction of secrets in error bodies. The JSON parser
  and printer, base64 and the JSON-schema validator are the record \<open>result_lib\<close>.
\<close>

section \<open>Results\<close>

definition ERROR_BODY_CAP :: nat where "ERROR_BODY_CAP = 2 * 1024"
definition IMAGE_CAP :: nat where "IMAGE_CAP = 512 * 1024"
definition TEXT_CAP :: nat where "TEXT_CAP = 32 * 1024"

definition REDACT_KEYS :: "bytes list" where
  [enum_defs]: "REDACT_KEYS =
    [''authorization'', ''cookie'', ''set-cookie'', ''x-api-key'', ''x-api_key'', ''access_token'',
     ''refresh_token'', ''password'', ''secret'', ''api_key'', ''apikey'', ''private_key'',
     ''client_secret'']"

datatype response_kind = Json_Kind | Text_Kind | Image_Kind

record tool_result =
  tr_is_error :: bool
  tr_text :: bytes
  tr_structured :: "json option"
  tr_image_b64 :: "bytes option"
  tr_error_code :: "bytes option"

record result_lib =
  rs_parse_json :: "bytes \<Rightarrow> json option"
  rs_show_json :: "json \<Rightarrow> bytes"
  rs_b64 :: "bytes \<Rightarrow> bytes"
  rs_validate :: "json \<Rightarrow> json \<Rightarrow> bytes option"

definition truncate_text :: "bytes \<Rightarrow> nat \<Rightarrow> bytes" where
  "truncate_text body cap = from_utf8_lossy (if length body > cap then take cap body else body)"

definition error_result :: "bytes \<Rightarrow> bytes \<Rightarrow> tool_result" where
  "error_result code text =
     \<lparr> tr_is_error = True, tr_text = text,
       tr_structured = Some (JObj [(''error_code'', JStr code)]), tr_image_b64 = None,
       tr_error_code = Some code \<rparr>"

section \<open>Redaction\<close>

definition REDACTED :: bytes where
  "REDACTED = ''[REDACTED]''"

definition to_dash :: "bytes \<Rightarrow> bytes" where
  "to_dash = map (\<lambda>c. if c = CHR ''_'' then CHR ''-'' else c)"

definition to_underscore :: "bytes \<Rightarrow> bytes" where
  "to_underscore = map (\<lambda>c. if c = CHR ''-'' then CHR ''_'' else c)"

definition is_redact_key :: "bytes \<Rightarrow> bool" where
  "is_redact_key name \<longleftrightarrow>
     (let normalized = to_dash (to_lower name) in
      list_ex (\<lambda>key. normalized = to_dash key \<or> ends_with normalized (''-'' @ to_dash key)) REDACT_KEYS)"

definition terminator :: "char \<Rightarrow> bool" where
  "terminator c \<longleftrightarrow> c \<in> {CHR ''&'', CHR 0x22, CHR 0x27, CHR '','', CHR 0x0A, CHR 0x0D, CHR ''}''}"

text \<open>
  \<open>redact_all\<close> with its position: every needle of the code is non-empty, so the text behind
  the position shrinks in each round.
\<close>

definition value_start :: "bytes \<Rightarrow> nat \<Rightarrow> nat" where
  "value_start text i = i + length (takeWhile is_ascii_ws (drop i text))"

definition value_end :: "bytes \<Rightarrow> nat \<Rightarrow> nat" where
  "value_end text i = i + length (takeWhile (\<lambda>c. \<not> terminator c) (drop i text))"

lemma find_sub_room:
  "find_sub n (drop i s) = Some rel \<Longrightarrow> n \<noteq> [] \<Longrightarrow> i + rel + length n \<le> length s"
  using find_sub_Some [of n "drop i s" rel]
  by (cases "i \<le> length s") auto

lemma value_bounds:
  "i \<le> length s \<Longrightarrow> i \<le> value_start s i \<and> value_start s i \<le> length s"
  "i \<le> length s \<Longrightarrow> i \<le> value_end s i \<and> value_end s i \<le> length s"
  using length_takeWhile_le [of is_ascii_ws "drop i s"]
    length_takeWhile_le [of "\<lambda>c. \<not> terminator c" "drop i s"]
  by (auto simp: value_start_def value_end_def)

function redact_from :: "bytes \<Rightarrow> bytes \<Rightarrow> nat \<Rightarrow> bytes" where
  "redact_from needle text i =
     (if needle = [] then text
      else case find_sub (to_lower needle) (drop i (to_lower text)) of
        None \<Rightarrow> text
      | Some rel \<Rightarrow>
          (let start = value_start text (i + rel + length needle);
               end' = value_end text start
           in redact_from needle (take start text @ REDACTED @ drop end' text)
                (start + length REDACTED)))"
  by pat_completeness auto

termination
proof (relation "measure (\<lambda>(needle, buf, i). length buf - i)")
  fix needle buf i rel start end'
  assume n: "needle \<noteq> []" and f: "find_sub (to_lower needle) (drop i (to_lower buf)) = Some rel"
    and s: "start = value_start buf (i + rel + length needle)" and e: "end' = value_end buf start"
  have "to_lower needle \<noteq> []" using n by (cases needle) simp_all
  from find_sub_room [OF f this] have le: "i + rel + length needle \<le> length buf" by simp
  from value_bounds(1) [OF le] s have st: "i + rel + length needle \<le> start" "start \<le> length buf"
    by simp_all
  from value_bounds(2) [OF st(2)] e have "start \<le> end'" "end' \<le> length buf" by simp_all
  moreover have "0 < length needle" using n by simp
  ultimately have "length buf - end' < length buf - i" using st by linarith
  with st show "((needle, take start buf @ REDACTED @ drop end' buf, start + length REDACTED),
      needle, buf, i) \<in> measure (\<lambda>(needle, buf, i). length buf - i)"
    by simp
qed simp

declare redact_from.simps [simp del]

definition redact_all :: "bytes \<Rightarrow> bytes \<Rightarrow> bytes" where
  "redact_all needle text = redact_from needle text 0"

definition variants :: "bytes \<Rightarrow> bytes list" where
  "variants key = [key, to_underscore key, to_dash key]"

definition redact_needles :: "bytes list" where
  "redact_needles =
     concat (map (\<lambda>key. concat (map (\<lambda>v. [v @ ''='', v @ '':'']) (variants key))) REDACT_KEYS)"

definition redact_text :: "bytes \<Rightarrow> bytes" where
  "redact_text input = fold redact_all redact_needles input"

fun redact_value :: "json \<Rightarrow> json"
  and redact_entries :: "(bytes \<times> json) list \<Rightarrow> (bytes \<times> json) list"
  and redact_items :: "json list \<Rightarrow> json list" where
  "redact_value (JObj m) = JObj (redact_entries m)"
| "redact_value (JArr xs) = JArr (redact_items xs)"
| "redact_value (JStr s) = JStr (redact_text s)"
| "redact_value JNull = JNull"
| "redact_value (JBool b) = JBool b"
| "redact_value (JNum n) = JNum n"
| "redact_entries [] = []"
| "redact_entries ((k, v) # m) =
     (k, if is_redact_key k then JStr REDACTED else redact_value v) # redact_entries m"
| "redact_items [] = []"
| "redact_items (x # xs) = redact_value x # redact_items xs"

definition redact :: "result_lib \<Rightarrow> bytes \<Rightarrow> bytes" where
  "redact lib input =
     (case rs_parse_json lib input of
        Some v \<Rightarrow> rs_show_json lib (redact_value v)
      | None \<Rightarrow> redact_text input)"

definition keep_char :: "bytes \<Rightarrow> bool" where
  "keep_char ch \<longleftrightarrow> \<not> control_char ch \<or> ch = [CHR 0x0A] \<or> ch = [CHR 0x09]"

definition sanitize_error_body :: "result_lib \<Rightarrow> bytes \<Rightarrow> bytes" where
  "sanitize_error_body lib body =
     redact lib (filter_chars keep_char (truncate_text body ERROR_BODY_CAP))"

section \<open>Mapping\<close>

definition with_snippet :: "bytes \<Rightarrow> bytes \<Rightarrow> bytes" where
  "with_snippet text snippet = (if snippet \<noteq> [] then text @ '': '' @ snippet else text)"

definition map_proxy_error :: "result_lib \<Rightarrow> proxy_error \<Rightarrow> bytes option \<Rightarrow> tool_result" where
  "map_proxy_error lib err extra_body =
     error_result (proxy_error_code err)
       (case extra_body of
          None \<Rightarrow> customer_message err
        | Some body \<Rightarrow> with_snippet (customer_message err) (sanitize_error_body lib body))"

definition map_upstream_error :: "result_lib \<Rightarrow> upstream_response \<Rightarrow> tool_result" where
  "map_upstream_error lib up =
     error_result (if up_status up \<ge> 500 then ''upstream_5xx'' else ''upstream_4xx'')
       (with_snippet (''Upstream returned HTTP '' @ show_nat (unat (up_status up)))
          (sanitize_error_body lib (up_body up)))"

definition map_body :: "result_lib \<Rightarrow> upstream_response \<Rightarrow> json option \<Rightarrow> tool_result" where
  "map_body lib up output_schema =
     (let raw = truncate_text (up_body up) TEXT_CAP in
      case rs_parse_json lib (up_body up) of
        Some v \<Rightarrow>
          (case Option.bind output_schema (\<lambda>schema. rs_validate lib schema v) of
             Some path \<Rightarrow> error_result ''schema_output'' (''Invalid output: '' @ path)
           | None \<Rightarrow>
               \<lparr> tr_is_error = False, tr_text = rs_show_json lib v, tr_structured = Some v,
                 tr_image_b64 = None, tr_error_code = None \<rparr>)
      | None \<Rightarrow>
          if output_schema \<noteq> None then error_result ''schema_output'' ''Invalid output: $''
          else \<lparr> tr_is_error = False, tr_text = raw, tr_structured = None, tr_image_b64 = None,
                 tr_error_code = None \<rparr>)"

definition map_success ::
    "result_lib \<Rightarrow> upstream_response \<Rightarrow> response_kind \<Rightarrow> json option \<Rightarrow> tool_result" where
  "map_success lib up kind output_schema =
     (if \<not> (200 \<le> up_status up \<and> up_status up < 300) then map_upstream_error lib up
      else if kind = Image_Kind
              \<and> (case up_content_type up of Some ct \<Rightarrow> starts_with ct ''image/'' | None \<Rightarrow> False)
      then (if length (up_body up) > IMAGE_CAP
            then error_result ''too_large'' ''Upstream response too large''
            else \<lparr> tr_is_error = False,
                   tr_text = ''image ('' @ show_nat (length (up_body up)) @ '' bytes)'',
                   tr_structured = None, tr_image_b64 = Some (rs_b64 lib (up_body up)),
                   tr_error_code = None \<rparr>)
      else map_body lib up output_schema)"

section \<open>What is redacted\<close>

text \<open>The text before the position is never touched again.\<close>

lemma redact_from_shift:
  "redact_from needle (pre @ s) (length pre + i) = pre @ redact_from needle s i"
proof (induction needle s i arbitrary: pre rule: redact_from.induct)
  case (1 needle s i)
  have lower: "drop (length pre + i) (to_lower (pre @ s)) = drop i (to_lower s)"
    by (simp add: to_lower_def)
  show ?case
  proof (cases "needle = [] \<or> find_sub (to_lower needle) (drop i (to_lower s)) = None")
    case True
    then show ?thesis
      by (auto simp: redact_from.simps [of needle "pre @ s"] redact_from.simps [of needle s] lower)
  next
    case False
    then obtain rel where n: "needle \<noteq> []"
      and f: "find_sub (to_lower needle) (drop i (to_lower s)) = Some rel" by auto
    define st where "st = value_start s (i + rel + length needle)"
    define en where "en = value_end s st"
    have st: "value_start (pre @ s) (length pre + (i + (rel + length needle))) = length pre + st"
      by (simp add: value_start_def st_def add.assoc)
    have en: "value_end (pre @ s) (length pre + st) = length pre + en"
      by (simp add: value_end_def en_def)
    have "redact_from needle (pre @ s) (length pre + i)
        = redact_from needle (pre @ (take st s @ REDACTED @ drop en s)) (length pre + (st + length REDACTED))"
      using n f by (simp add: redact_from.simps [of needle "pre @ s"] lower st en Let_def add.assoc)
    also have "\<dots> = pre @ redact_from needle (take st s @ REDACTED @ drop en s) (st + length REDACTED)"
      by (rule 1 [OF n f]) (simp_all add: st_def en_def)
    also have "\<dots> = pre @ redact_from needle s i"
      using n f by (simp add: redact_from.simps [of needle s i] st_def en_def Let_def)
    finally show ?thesis .
  qed
qed

text \<open>Values under a redacted key taken out of a document.\<close>

fun erase :: "json \<Rightarrow> json"
  and erase_entries :: "(bytes \<times> json) list \<Rightarrow> (bytes \<times> json) list"
  and erase_items :: "json list \<Rightarrow> json list" where
  "erase (JObj m) = JObj (erase_entries m)"
| "erase (JArr xs) = JArr (erase_items xs)"
| "erase (JStr s) = JStr s"
| "erase JNull = JNull"
| "erase (JBool b) = JBool b"
| "erase (JNum n) = JNum n"
| "erase_entries [] = []"
| "erase_entries ((k, v) # m) = (k, if is_redact_key k then JNull else erase v) # erase_entries m"
| "erase_items [] = []"
| "erase_items (x # xs) = erase x # erase_items xs"

lemma redact_erase:
  "redact_value (erase v) = redact_value v"
  "redact_entries (erase_entries m) = redact_entries m"
  "redact_items (erase_items xs) = redact_items xs"
  by (induction v and m and xs rule: erase_erase_entries_erase_items.induct) simp_all

text \<open>C39: redacting a JSON error body does not depend on its secrets: replacing every value under a
  redacted key by \<open>null\<close> first gives the same redacted document, at every depth.\<close>

theorem redaction_ignores_secrets: "redact_value (erase v) = redact_value v"
  by (rule redact_erase)

lemma redact_all_step:
  assumes "needle \<noteq> []" and "find_sub (to_lower needle) (to_lower s) = Some i"
    and "start = value_start s (i + length needle)"
  shows "redact_all needle s =
    take start s @ ''[REDACTED]'' @ redact_all needle (drop (value_end s start) s)"
proof -
  have le: "i + length needle \<le> length s"
    using find_sub_Some [OF assms(2)] by simp
  have st: "start \<le> length s" using value_bounds(1) [OF le] assms(3) by simp
  let ?rest = "drop (value_end s start) s"
  have "redact_all needle s = redact_from needle ((take start s @ REDACTED) @ ?rest) (start + length REDACTED)"
    using assms by (simp add: redact_all_def redact_from.simps [of needle s] Let_def)
  also have "\<dots> = redact_from needle ((take start s @ REDACTED) @ ?rest)
      (length (take start s @ REDACTED) + 0)"
    using st by simp
  also have "\<dots> = (take start s @ REDACTED) @ redact_from needle ?rest 0"
    by (rule redact_from_shift)
  finally show ?thesis by (simp add: redact_all_def REDACTED_def)
qed

text \<open>In plain text, a \<open>key=\<close> or \<open>key:\<close> needle takes the value behind it out: at the first
  occurrence, in any letter case, what lies between the blanks behind the needle and the next
  terminator becomes the placeholder, and the scan goes on behind it.\<close>

theorem needle_redacts_value:
  assumes "needle \<noteq> []" and "find_sub (to_lower needle) (to_lower s) = Some i"
    and "start = value_start s (i + length needle)"
  shows "redact_all needle s =
    take start s @ ''[REDACTED]'' @ redact_all needle (drop (value_end s start) s)"
  using assms by (rule redact_all_step)

theorem needle_redacts_value_witness:
  "redact_all ''secret='' ''a=1&Secret=xyz&b=2'' = ''a=1&Secret=[REDACTED]&b=2''"
proof -
  have f: "find_sub (to_lower ''secret='') (to_lower ''a=1&Secret=xyz&b=2'') = Some 4"
  proof -
    have "lower1 CHR ''S'' = CHR ''s''" by code_simp
    then show ?thesis by (simp add: lower1_def [of "CHR ''a''"] lower1_def [of "CHR ''b''"]
      lower1_def [of "CHR ''=''"] is_upper_def to_lower_fixed [of "''secret=''"])
        (simp add: lower1_def is_upper_def)
  qed
  have v: "value_start ''a=1&Secret=xyz&b=2'' (4 + length ''secret='') = 11"
    "value_end ''a=1&Secret=xyz&b=2'' 11 = 14"
    by (simp_all add: value_start_def value_end_def is_ascii_ws_def terminator_def)
  have "redact_all ''secret='' ''&b=2'' = ''&b=2''"
    by (simp add: redact_all_def redact_from.simps lower1_def is_upper_def)
  with needle_redacts_value [OF _ f v(1) [symmetric]] show ?thesis by (simp add: v)
qed

lemma redact_all_absent:
  "\<not> contains (to_lower s) (to_lower needle) \<Longrightarrow> redact_all needle s = s"
  by (simp add: redact_all_def redact_from.simps contains_def)

text \<open>The needles the keys give, as a table.\<close>

lemma redact_needles_eq:
  "redact_needles =
    concat (map (\<lambda>k. [k @ ''='', k @ '':''])
      [''authorization'', ''authorization'', ''authorization'', ''cookie'', ''cookie'', ''cookie'',
       ''set-cookie'', ''set_cookie'', ''set-cookie'', ''x-api-key'', ''x_api_key'', ''x-api-key'',
       ''x-api_key'', ''x_api_key'', ''x-api-key'', ''access_token'', ''access_token'', ''access-token'',
       ''refresh_token'', ''refresh_token'', ''refresh-token'', ''password'', ''password'', ''password'',
       ''secret'', ''secret'', ''secret'', ''api_key'', ''api_key'', ''api-key'',
       ''apikey'', ''apikey'', ''apikey'', ''private_key'', ''private_key'', ''private-key'',
       ''client_secret'', ''client_secret'', ''client-secret''])"
  by (simp add: redact_needles_def REDACT_KEYS_def variants_def to_dash_def to_underscore_def)

lemma fold_one_needle:
  assumes "\<And>n. n \<in> set ns \<Longrightarrow> n \<noteq> k \<Longrightarrow> redact_all n s = s \<and> redact_all n t = t"
    and "redact_all k s = t" "redact_all k t = t"
  shows "fold redact_all ns t = t \<and> (k \<in> set ns \<longrightarrow> fold redact_all ns s = t)"
  using assms(1)
proof (induction ns)
  case (Cons n ns)
  then have "fold redact_all ns t = t \<and> (k \<in> set ns \<longrightarrow> fold redact_all ns s = t)" by simp
  with Cons.prems [of n] assms(2,3) show ?case by (cases "n = k") auto
qed simp

abbreviation quoted :: bytes where
  "quoted \<equiv> ''password: '' @ [CHR 0x22] @ ''x'' @ [CHR 0x22]"

abbreviation quoted' :: bytes where
  "quoted' \<equiv> ''password: [REDACTED]'' @ [CHR 0x22] @ ''x'' @ [CHR 0x22]"

lemma lower_quoted:
  "to_lower quoted = quoted"
  "to_lower quoted' = ''password: [redacted]'' @ [CHR 0x22] @ ''x'' @ [CHR 0x22]"
proof -
  show "to_lower quoted = quoted" by (simp add: lower1_def is_upper_def)
  have "map lower1 ''REDACTED'' = ''redacted''" by code_simp
  then show "to_lower quoted' = ''password: [redacted]'' @ [CHR 0x22] @ ''x'' @ [CHR 0x22]"
    by (simp add: lower1_def [of "CHR ''p''"] lower1_def [of "CHR ''a''"] lower1_def [of "CHR ''s''"]
      lower1_def [of "CHR ''w''"] lower1_def [of "CHR ''o''"] lower1_def [of "CHR ''r''"]
      lower1_def [of "CHR ''d''"] lower1_def [of "CHR '':''"] lower1_def [of "CHR '' ''"]
      lower1_def [of "CHR ''[''"] lower1_def [of "CHR '']''"] lower1_def [of "CHR 0x22"]
      lower1_def [of "CHR ''x''"] is_upper_def)
qed

lemma needles_lower: "n \<in> set redact_needles \<Longrightarrow> to_lower n = n"
  by (rule to_lower_fixed) (auto simp: redact_needles_eq is_upper_def)

lemma needles_absent:
  "n \<in> set redact_needles \<Longrightarrow> n \<noteq> ''password:'' \<Longrightarrow>
     \<not> contains quoted n \<and> \<not> contains (''password: [redacted]'' @ [CHR 0x22] @ ''x'' @ [CHR 0x22]) n"
proof -
  have "list_all (\<lambda>n. n = ''password:'' \<or> \<not> contains quoted n
      \<and> \<not> contains (''password: [redacted]'' @ [CHR 0x22] @ ''x'' @ [CHR 0x22]) n) redact_needles"
    unfolding redact_needles_eq by code_simp
  then show "n \<in> set redact_needles \<Longrightarrow> n \<noteq> ''password:'' \<Longrightarrow> ?thesis"
    unfolding list_all_iff by blast
qed

lemma quoted_steps:
  "redact_all ''password:'' quoted = quoted'" "redact_all ''password:'' quoted' = quoted'"
proof -
  have n: "to_lower ''password:'' = ''password:''" by (simp add: lower1_def is_upper_def)
  have none: "redact_all ''password:'' ([CHR 0x22] @ ''x'' @ [CHR 0x22]) = [CHR 0x22] @ ''x'' @ [CHR 0x22]"
    by (simp add: redact_all_def redact_from.simps lower1_def is_upper_def)
  have f: "find_sub (to_lower ''password:'') (to_lower quoted) = Some 0"
    "find_sub (to_lower ''password:'') (to_lower quoted') = Some 0"
    unfolding n lower_quoted by simp_all
  have s: "value_start quoted (0 + length ''password:'') = 10" "value_end quoted 10 = 10"
    "value_start quoted' (0 + length ''password:'') = 10" "value_end quoted' 10 = 20"
    by (simp_all add: value_start_def value_end_def is_ascii_ws_def terminator_def)
  have "''password:'' \<noteq> []" by simp
  note step = redact_all_step [OF this]
  show "redact_all ''password:'' quoted = quoted'"
    unfolding step [OF f(1) s(1) [symmetric]] s(2) using none by simp
  show "redact_all ''password:'' quoted' = quoted'"
    unfolding step [OF f(2) s(3) [symmetric]] s(4) using none by simp
qed

lemma redact_quoted: "redact_text quoted = quoted'"
proof -
  have "redact_all n quoted = quoted \<and> redact_all n quoted' = quoted'"
    if "n \<in> set redact_needles" "n \<noteq> ''password:''" for n
  proof -
    have "\<not> contains (to_lower quoted) (to_lower n)" "\<not> contains (to_lower quoted') (to_lower n)"
      unfolding lower_quoted needles_lower [OF that(1)] using needles_absent [OF that] by blast+
    then show ?thesis by (intro conjI redact_all_absent)
  qed
  moreover have "''password:'' \<in> set redact_needles" by (simp add: redact_needles_eq)
  ultimately show ?thesis
    using fold_one_needle [of redact_needles "''password:''" quoted quoted', OF _ quoted_steps]
    unfolding redact_text_def by blast
qed

text \<open>A quoted value behind a plain-text key survives redaction: the quote that opens it ends
  the value, so the placeholder is inserted before the secret. An error body that is not JSON, or
  JSON cut at the two-kibibyte cap, reaches the caller with it.\<close>

theorem quoted_value_survives:
  "redact_text (''password: '' @ [CHR 0x22] @ ''x'' @ [CHR 0x22])
   = ''password: [REDACTED]'' @ [CHR 0x22] @ ''x'' @ [CHR 0x22]"
  by (rule redact_quoted)

text \<open>A declared output schema is enforced: a result that is not an error, for a tool with an
  output schema and no image, carries a JSON value that the schema accepts, under a 2xx status;
  and any status outside 2xx is an error with the code of its class.\<close>

theorem output_schema_enforced:
  "(\<not> tr_is_error (map_success lib up kind (Some schema)) \<and> kind \<noteq> Image_Kind \<longrightarrow>
      200 \<le> up_status up \<and> up_status up < 300
      \<and> (\<exists>v. tr_structured (map_success lib up kind (Some schema)) = Some v
            \<and> rs_parse_json lib (up_body up) = Some v \<and> rs_validate lib schema v = None))
   \<and> (\<not> (200 \<le> up_status up \<and> up_status up < 300) \<longrightarrow>
      tr_is_error (map_success lib up kind sch)
      \<and> tr_error_code (map_success lib up kind sch)
        = Some (if up_status up \<ge> 500 then ''upstream_5xx'' else ''upstream_4xx''))"
  by (auto simp: map_success_def map_body_def map_upstream_error_def error_result_def Let_def
      split: if_splits option.splits)

definition sample_result_lib :: result_lib where
  "sample_result_lib =
     \<lparr> rs_parse_json = (\<lambda>s. if s = ''{}'' then Some (JObj []) else None), rs_show_json = (\<lambda>_. ''{}''),
       rs_b64 = id, rs_validate = (\<lambda>_ _. None) \<rparr>"

theorem output_schema_enforced_witness:
  "tr_structured (map_success sample_result_lib
      \<lparr> up_status = 200, up_content_type = None, up_body = ''{}'' \<rparr> Json_Kind (Some JNull))
   = Some (JObj [])"
  using output_schema_enforced
    [of sample_result_lib "\<lparr> up_status = 200, up_content_type = None, up_body = ''{}'' \<rparr>"
       Json_Kind JNull None]
  by (simp add: map_success_def map_body_def sample_result_lib_def)

text \<open>What is kept of a text is bounded: text that is not JSON is cut at the cap and, with
  replacement characters, at most three times as long; an error body is cut at two kibibytes
  before anything else is done with it.\<close>

theorem kept_text_bounded:
  "length (truncate_text body cap) \<le> 3 * cap
   \<and> length (filter_chars keep_char (truncate_text body ERROR_BODY_CAP)) \<le> 6144
   \<and> (\<forall>c \<in> set (filter_chars keep_char (truncate_text body cap)). c \<in> set (truncate_text body cap))"
proof -
  have t: "length (truncate_text body cap) \<le> 3 * cap" for cap
  proof -
    let ?b = "if length body > cap then take cap body else body"
    have "length (from_utf8_lossy ?b) \<le> 3 * length ?b" by (rule length_lossy)
    also have "\<dots> \<le> 3 * cap" by simp
    finally show ?thesis by (simp add: truncate_text_def)
  qed
  have "length (filter_chars keep_char (truncate_text body ERROR_BODY_CAP)) \<le> 6144"
    using length_filter_chars [of keep_char "truncate_text body ERROR_BODY_CAP"] t [of ERROR_BODY_CAP]
    by (simp add: ERROR_BODY_CAP_def)
  with t set_filter_chars show ?thesis by blast
qed

theorem kept_text_bounded_witness: "length (truncate_text ''abc'' 2) \<le> 6"
  using kept_text_bounded [of "''abc''" 2] by simp

end
