(* ===== verification/Server_Handler.thy ===== *)
theory Server_Handler
  imports Render Tool_Result
begin

text \<open>
  The MCP handler (\<open>mcp-gateway-server/src/handler.rs\<close>): which tools of a compiled bundle a
  gateway serves, the pages of \<open>tools/list\<close>, and a \<open>tools/call\<close> from the validation of its
  arguments over the rendered request to the tool result. The schema validator, the URL and header
  libraries and the network are the parameters of the theories this one builds on; the protocol
  versions that the rmcp crate knows are an argument.
\<close>

section \<open>The gateway\<close>

record local_gateway =
  lg_bundle :: compile_bundle
  lg_base_url :: bytes
  lg_credential :: "injected_credential option"
  lg_ssrf :: policy
  lg_enabled_tools :: "bytes list"
  lg_disabled_tools :: "bytes list"

definition tool_allowed :: "local_gateway \<Rightarrow> bytes \<Rightarrow> bool" where
  "tool_allowed gw name \<longleftrightarrow>
     (if lg_enabled_tools gw \<noteq> [] \<and> \<not> list_ex ((=) name) (lg_enabled_tools gw) then False
      else \<not> list_ex ((=) name) (lg_disabled_tools gw))"

definition operations :: "local_gateway \<Rightarrow> operation list" where
  "operations gw =
     filter (\<lambda>op. tool_allowed gw (mt_name (op_tool op))) (na_operations (cb_api (lg_bundle gw)))"

definition operation_named :: "local_gateway \<Rightarrow> bytes \<Rightarrow> operation option" where
  "operation_named gw name =
     (if \<not> tool_allowed gw name then None
      else find (\<lambda>op. mt_name (op_tool op) = name) (na_operations (cb_api (lg_bundle gw))))"

section \<open>Calls\<close>

text \<open>
  The executor of the code is a trait; a call of it is a log of the exchanges it made and a result,
  or no result when it ran out of fuel. The schema budget is a \<open>timeout\<close> around a block with no
  await point: its first poll validates to the end, so the deadline is never looked at.
\<close>

type_synonym executor =
  "rendered \<Rightarrow> policy \<Rightarrow> injected_credential option \<Rightarrow> hop_log \<times> (proxy_error + upstream_response) option"

definition live_executor :: "dial_env \<Rightarrow> executor" where
  "live_executor env rq policy cred = validate_and_dial (env\<lparr>de_policy := policy\<rparr>) cred rq"

record server_env =
  sv_render :: render_lib
  sv_hlib :: hlib
  sv_results :: result_lib

definition execute_operation ::
    "server_env \<Rightarrow> executor \<Rightarrow> local_gateway \<Rightarrow> operation \<Rightarrow> json \<Rightarrow> hop_log \<times> tool_result option" where
  "execute_operation env exec gw op arguments =
     (case rs_validate (sv_results env) (mt_input_schema (op_tool op)) arguments of
        Some msg \<Rightarrow> ([], Some (error_result ''invalid_arguments'' msg))
      | None \<Rightarrow>
          (case render (sv_render env) (sv_hlib env) (lg_base_url gw) (op_execution_plan op) arguments of
             Inl e \<Rightarrow> ([], Some (map_proxy_error (sv_results env) e None))
           | Inr rq \<Rightarrow>
               (case exec rq (lg_ssrf gw) (lg_credential gw) of
                  (log, r) \<Rightarrow>
                    (log, map_option (\<lambda>r. case r of
                       Inr up \<Rightarrow> map_success (sv_results env) up Json_Kind None
                     | Inl e \<Rightarrow> map_proxy_error (sv_results env) e None) r))))"

definition execute_named ::
    "server_env \<Rightarrow> executor \<Rightarrow> local_gateway \<Rightarrow> bytes \<Rightarrow> json \<Rightarrow> hop_log \<times> tool_result option" where
  "execute_named env exec gw name arguments =
     (case operation_named gw name of
        None \<Rightarrow> ([], Some (error_result ''unknown_tool'' ''Unknown tool''))
      | Some op \<Rightarrow> execute_operation env exec gw op arguments)"

datatype content_block = Text_Block bytes | Image_Block bytes bytes

record call_tool_result =
  ct_content :: "content_block list"
  ct_structured :: "json option"
  ct_is_error :: bool

fun is_obj :: "json \<Rightarrow> bool" where
  "is_obj (JObj m) = True"
| "is_obj _ = False"

definition tool_result_to_mcp :: "tool_result \<Rightarrow> call_tool_result" where
  "tool_result_to_mcp r =
     \<lparr>ct_content = Text_Block (tr_text r)
        # (case tr_image_b64 r of Some b64 \<Rightarrow> [Image_Block b64 ''image/png''] | None \<Rightarrow> []),
      ct_structured = (case tr_structured r of Some v \<Rightarrow> if is_obj v then Some v else None | None \<Rightarrow> None),
      ct_is_error = tr_is_error r\<rparr>"

definition call_tool ::
    "server_env \<Rightarrow> executor \<Rightarrow> local_gateway \<Rightarrow> bytes \<Rightarrow> (bytes \<times> json) list option
     \<Rightarrow> hop_log \<times> call_tool_result option" where
  "call_tool env exec gw name arguments =
     (case execute_named env exec gw name (JObj (case arguments of Some m \<Rightarrow> m | None \<Rightarrow> [])) of
        (log, r) \<Rightarrow> (log, map_option tool_result_to_mcp r))"

section \<open>Listing\<close>

definition PAGE_SIZE :: "64 word" where
  "PAGE_SIZE = 50"

record listed_tool =
  lt_name :: bytes
  lt_title :: bytes
  lt_description :: bytes
  lt_input_schema :: "(bytes \<times> json) list"
  lt_output_schema :: "(bytes \<times> json) list option"

definition object_output_schema :: "json option \<Rightarrow> (bytes \<times> json) list option" where
  "object_output_schema schema =
     Option.bind (Option.bind schema as_object) (\<lambda>obj.
       if Option.bind (map_of obj ''type'') as_str = Some ''object'' then Some obj else None)"

definition operation_to_tool :: "operation \<Rightarrow> listed_tool" where
  "operation_to_tool op =
     \<lparr>lt_name = mt_name (op_tool op), lt_title = mt_title (op_tool op),
      lt_description = mt_description (op_tool op),
      lt_input_schema = (case as_object (mt_input_schema (op_tool op)) of Some m \<Rightarrow> m | None \<Rightarrow> []),
      lt_output_schema = object_output_schema (mt_output_schema (op_tool op))\<rparr>"

text \<open>
  A page of \<open>tools/list\<close>. \<open>None\<close> is the panic of the slice \<open>ops[lo..end]\<close> with \<open>end < lo\<close>: the sum
  wraps in a release build (a debug build panics at the sum).
\<close>

definition list_tools :: "local_gateway \<Rightarrow> bytes option \<Rightarrow> (listed_tool list \<times> bytes option) option" where
  "list_tools gw cursor =
     (let start = (case Option.bind cursor parse_usize of Some n \<Rightarrow> of_nat n | None \<Rightarrow> 0) :: 64 word;
          ops = operations gw;
          len = of_nat (length ops);
          stop = min (start + PAGE_SIZE) len;
          lo = min start len
      in if stop < lo then None
         else Some (map operation_to_tool (take (unat stop - unat lo) (drop (unat lo) ops)),
                    if stop < len then Some (show_nat (unat stop)) else None))"

section \<open>Handshake\<close>

definition LATEST_PROTOCOL :: bytes where
  "LATEST_PROTOCOL = ''2026-07-28''"

definition initialize_version :: "bytes list \<Rightarrow> bytes \<Rightarrow> bytes" where
  "initialize_version known requested =
     (if requested \<in> set known then requested else LATEST_PROTOCOL)"

section \<open>The executor contract\<close>

text \<open>
  What the handler relies on: whatever an executor exchanges with a server, it has pinned under the
  policy it was given, and it comes back when the hop limit is below 255.
\<close>

locale upstream_executor =
  fixes exec :: executor and sh :: bool
  assumes exec_allowed: "x \<in> set (fst (exec rq policy cred)) \<Longrightarrow> exchange_allowed sh policy (fst x)"
    and exec_returns: "p_max_hops policy < 255 \<Longrightarrow> snd (exec rq policy cred) \<noteq> None"
begin

lemma call_exchanges:
  assumes "x \<in> set (fst (execute_named env exec gw name arguments))"
  obtains op rq where "operation_named gw name = Some op"
    "rs_validate (sv_results env) (mt_input_schema (op_tool op)) arguments = None"
    "render (sv_render env) (sv_hlib env) (lg_base_url gw) (op_execution_plan op) arguments = Inr rq"
    "x \<in> set (fst (exec rq (lg_ssrf gw) (lg_credential gw)))"
    "exchange_allowed sh (lg_ssrf gw) (fst x)"
  using assms exec_allowed
  by (auto simp: execute_named_def execute_operation_def split: option.splits sum.splits prod.splits)

lemma call_returns:
  "p_max_hops (lg_ssrf gw) < 255 \<Longrightarrow> snd (execute_named env exec gw name arguments) \<noteq> None"
  using exec_returns [of "lg_ssrf gw" _ "lg_credential gw"]
  by (auto simp: execute_named_def execute_operation_def split: option.splits sum.splits prod.splits)
     (metis option.distinct(1) snd_conv)

end

interpretation live: upstream_executor "live_executor env" "de_self_host env" for env
proof
  fix x rq policy cred
  assume "x \<in> set (fst (live_executor env rq policy cred))"
  with exchanges_allowed [of "env\<lparr>de_policy := policy\<rparr>" cred rq]
  show "exchange_allowed (de_self_host env) policy (fst x)" by (simp add: live_executor_def)
next
  fix policy :: policy and rq cred
  assume "p_max_hops policy < 255"
  then show "snd (live_executor env rq policy cred) \<noteq> None"
    using dial_returns [of "env\<lparr>de_policy := policy\<rparr>"] by (simp add: live_executor_def)
qed

lemma operation_named_Some:
  "operation_named gw name = Some op \<Longrightarrow> op \<in> set (operations gw) \<and> mt_name (op_tool op) = name"
  by (auto simp: operation_named_def operations_def find_Some_iff split: if_splits)

section \<open>Pages\<close>

lemma list_tools_page:
  assumes "length (operations gw) < 2 ^ 63" and "k \<le> length (operations gw)"
    and "Option.bind cursor parse_usize = Some k \<or> cursor = None \<and> k = 0"
  shows "list_tools gw cursor =
    Some (map operation_to_tool (take 50 (drop k (operations gw))),
      if k + 50 < length (operations gw) then Some (show_nat (k + 50)) else None)"
proof -
  let ?n = "length (operations gw)"
  have start: "(case Option.bind cursor parse_usize of Some n \<Rightarrow> of_nat n | None \<Rightarrow> 0) = (of_nat k :: 64 word)"
    using assms(3) by auto
  have uk: "unat (of_nat k :: 64 word) = k" and un: "unat (of_nat ?n :: 64 word) = ?n"
    and us: "unat (of_nat k + 50 :: 64 word) = k + 50"
    using assms(1,2) by (auto simp: unat_of_nat unat_word_ariths)
  have lo: "min (of_nat k) (of_nat ?n) = (of_nat k :: 64 word)"
    using assms(2) uk un by (simp add: min_def word_le_nat_alt)
  have stop: "min (of_nat k + 50) (of_nat ?n) = (of_nat (min (k + 50) ?n) :: 64 word)"
    using us un by (auto simp: min_def word_le_nat_alt)
  have ust: "unat (of_nat (min (k + 50) ?n) :: 64 word) = min (k + 50) ?n"
    using us un by (auto simp: min_def)
  show ?thesis
    unfolding list_tools_def Let_def start PAGE_SIZE_def lo stop
    using assms(2) uk un ust
    by (auto simp: word_less_nat_alt min_def)
qed

text \<open>A client that follows the cursors, for at most \<open>n\<close> pages.\<close>

fun all_pages :: "nat \<Rightarrow> local_gateway \<Rightarrow> bytes option \<Rightarrow> listed_tool list option" where
  "all_pages 0 gw cursor = None"
| "all_pages (Suc n) gw cursor =
     (case list_tools gw cursor of
        None \<Rightarrow> None
      | Some (tools, None) \<Rightarrow> Some tools
      | Some (tools, Some next) \<Rightarrow> map_option ((@) tools) (all_pages n gw (Some next)))"

lemma all_pages_from:
  assumes "length (operations gw) < 2 ^ 63" and "k \<le> length (operations gw)"
    and "Option.bind cursor parse_usize = Some k \<or> cursor = None \<and> k = 0"
    and "length (operations gw) - k < 50 * n"
  shows "all_pages n gw cursor = Some (map operation_to_tool (drop k (operations gw)))"
  using assms(2-)
proof (induction n arbitrary: k cursor)
  case (Suc n)
  note page = list_tools_page [OF assms(1) Suc.prems(1,2)]
  show ?case
  proof (cases "k + 50 < length (operations gw)")
    case True
    moreover have "Option.bind (Some (show_nat (k + 50))) parse_usize = Some (k + 50)"
      using True assms(1) by (simp add: parse_show_nat)
    ultimately have "all_pages n gw (Some (show_nat (k + 50)))
        = Some (map operation_to_tool (drop (k + 50) (operations gw)))"
      using Suc.prems(3) by (intro Suc.IH) auto
    moreover have "drop k (operations gw) = take 50 (drop k (operations gw)) @ drop (k + 50) (operations gw)"
      by (metis add.commute append_take_drop_id drop_drop)
    ultimately show ?thesis using page True by (simp del: drop_drop) (metis map_append)
  qed (use page in simp)
qed simp

section \<open>A sample gateway\<close>

definition sample_tool :: "bytes \<Rightarrow> bool \<Rightarrow> json option \<Rightarrow> operation" where
  "sample_tool name enabled out =
     \<lparr>op_id = name,
      op_tool = \<lparr>mt_name = name, mt_title = name, mt_description = name, mt_input_schema = JObj [],
        mt_output_schema = out,
        mt_annotations = \<lparr>ta_read_only_hint = True, ta_destructive_hint = None,
          ta_idempotent_hint = None, ta_open_world_hint = True\<rparr>\<rparr>,
      op_source = \<lparr>os_operation_id = None, os_method = ''GET'', os_path_template = ''/''\<rparr>,
      op_http = \<lparr>hb_method = ''GET'', hb_path_template = ''/'', hb_effective_servers = [],
        hb_parameters = [], hb_request_body = None, hb_responses = []\<rparr>,
      op_security = [], op_tags = [], op_category = [], op_deprecated = False,
      op_destructive = \<not> enabled, op_enabled_by_default = enabled,
      op_execution_plan = \<lparr>ep_method = ''GET'', ep_path_template = ''/'', ep_path_params = [],
        ep_query_params = [], ep_header_params = [], ep_cookie_params = [], ep_body = None,
        ep_accept = ''*/*'', ep_timeout_ms = 15000\<rparr>\<rparr>"

definition sample_bundle :: "operation list \<Rightarrow> compile_bundle" where
  "sample_bundle ops =
     \<lparr>cb_api = \<lparr>na_ir_version = IR_VERSION,
        na_gateway = \<lparr>gm_title = [], gm_description = None, gm_spec_version = [],
          gm_source = \<lparr>sm_kind = File, sm_locator = [], sm_sha256 = []\<rparr>\<rparr>,
        na_servers = [], na_security_schemes = [], na_operations = ops\<rparr>,
      cb_report = \<lparr>ar_spec_title = [], ar_spec_version = [], ar_operations_total = 0,
        ar_operations_compiled = 0, ar_operations_skipped = 0, ar_tools_enabled_by_default = 0,
        ar_compile_ms = 0, ar_warnings = [], ar_skipped = []\<rparr>\<rparr>"

definition sample_gateway :: "operation list \<Rightarrow> local_gateway" where
  "sample_gateway ops =
     \<lparr>lg_bundle = sample_bundle ops, lg_base_url = ''https://93.184.216.34/'', lg_credential = None,
      lg_ssrf = policy_default, lg_enabled_tools = [], lg_disabled_tools = []\<rparr>"

definition sample_server :: server_env where
  "sample_server =
     \<lparr>sv_render = sample_lib (https_url (Host_V4 ip_a)), sv_hlib = token_hlib,
      sv_results = sample_result_lib\<rparr>"

lemma sample_operations [simp]: "operations (sample_gateway ops) = ops"
  by (simp add: operations_def tool_allowed_def sample_gateway_def sample_bundle_def)

lemma sample_named:
  "operation_named (sample_gateway [sample_tool n e out]) n = Some (sample_tool n e out)"
  by (simp add: operation_named_def tool_allowed_def sample_gateway_def sample_bundle_def sample_tool_def)

lemma sample_renders:
  "\<exists>hs. render (sv_render sample_server) (sv_hlib sample_server) (lg_base_url (sample_gateway ops))
     (op_execution_plan (sample_tool n e out)) (JObj [])
   = Inr \<lparr>rq_method = ''GET'', rq_url = https_url (Host_V4 ip_a), rq_headers = hs, rq_body = [],
       rq_timeout_ms = 15000\<rparr>"
  by (simp add: render_def sample_tool_def sample_server_def sample_lib_def render_path_def contains_def
      render_origin_def https_url_def host_str_def join_openapi_server_def trim_end_slashes_def
      render_query_def render_headers_def MAX_BODY_def with_content_type_def Let_def)

lemma dialled:
  assumes "prepare env cred 0 None rq = Inr pr"
  shows "fst (validate_and_dial env cred rq) \<noteq> []"
proof -
  have "fst (execute_hops env cred (Suc fuel) rq 0 None) \<noteq> []" for fuel
    using assms by (cases rule: hop_cases [of env cred 0 None rq fuel]) (auto simp del: execute_hops.simps)
  then show ?thesis unfolding validate_and_dial_def hop_fuel_def add_2_eq_Suc' .
qed

lemma sample_call:
  "fst (execute_named sample_server (live_executor sample_env)
     (sample_gateway [sample_tool n e out]) n (JObj [])) \<noteq> []"
proof -
  let ?gw = "sample_gateway [sample_tool n e out]"
  obtain hs where r: "render (sv_render sample_server) (sv_hlib sample_server) (lg_base_url ?gw)
      (op_execution_plan (sample_tool n e out)) (JObj [])
    = Inr \<lparr>rq_method = ''GET'', rq_url = https_url (Host_V4 ip_a), rq_headers = hs, rq_body = [],
        rq_timeout_ms = 15000\<rparr>" (is "_ = Inr ?rq")
    using sample_renders by blast
  have env: "sample_env\<lparr>de_policy := policy_default\<rparr> = sample_env" by (simp add: sample_env_def)
  have p: "\<exists>rq'. prepare sample_env None 0 None ?rq = Inr (pin_of ip_a, rq')"
    using pin_sample [of 0 ip_a] by (simp add: prepare_def Let_def)
  then have "fst (validate_and_dial sample_env None ?rq) \<noteq> []"
    using dialled by blast
  moreover have "lg_ssrf ?gw = policy_default" "lg_credential ?gw = None"
    by (simp_all add: sample_gateway_def)
  ultimately show ?thesis
    using r by (simp add: execute_named_def sample_named execute_operation_def live_executor_def env
        sample_server_def sample_result_lib_def case_prod_unfold)
qed

section \<open>Properties\<close>

text \<open>C10: a call reaches a server only for a tool the gateway serves: what is exchanged belongs to a
  served tool of that name, after its arguments were valid and rendered; the rendered request goes
  to the configured base URL's server, and every exchange, redirects included, to a pin that the
  gateway's own policy allows.\<close>

theorem calls_stay_within_the_gateway:
  assumes "url_edits_documented (sv_render env)"
    and "x \<in> set (fst (execute_named env (live_executor de) gw name arguments))"
  shows "\<exists>op rq origin p q. op \<in> set (operations gw) \<and> mt_name (op_tool op) = name
    \<and> rs_validate (sv_results env) (mt_input_schema (op_tool op)) arguments = None
    \<and> render (sv_render env) (sv_hlib env) (lg_base_url gw) (op_execution_plan op) arguments = Inr rq
    \<and> rl_parse_url (sv_render env) (lg_base_url gw) = Inr origin
    \<and> rq_url rq = origin\<lparr>url_path := p, url_query := q\<rparr>
    \<and> exchange_allowed (de_self_host de) (lg_ssrf gw) (fst x)"
proof -
  from assms(2) obtain op rq where c: "operation_named gw name = Some op"
    "rs_validate (sv_results env) (mt_input_schema (op_tool op)) arguments = None"
    "render (sv_render env) (sv_hlib env) (lg_base_url gw) (op_execution_plan op) arguments = Inr rq"
    "exchange_allowed (de_self_host de) (lg_ssrf gw) (fst x)"
    by (rule live.call_exchanges)
  from render_within_origin [OF assms(1) c(3)] operation_named_Some [OF c(1)] c show ?thesis by blast
qed

theorem calls_stay_within_the_gateway_witness:
  "\<exists>x. x \<in> set (fst (execute_named sample_server (live_executor sample_env)
        (sample_gateway [sample_tool ''ping'' True None]) ''ping'' (JObj [])))
     \<and> exchange_allowed False policy_default (fst x)"
proof -
  from sample_call obtain x where x: "x \<in> set (fst (execute_named sample_server (live_executor sample_env)
      (sample_gateway [sample_tool ''ping'' True None]) ''ping'' (JObj [])))" by (meson last_in_set)
  have "url_edits_documented (sv_render sample_server)" by (simp add: sample_server_def sample_edits)
  from calls_stay_within_the_gateway [OF this x] have "exchange_allowed False policy_default (fst x)"
    by (auto simp: sample_gateway_def)
  with x show ?thesis by blast
qed

text \<open>C11: every call is answered: with a hop limit below 255 a \<open>tools/call\<close> has a result, its first
  block is text, an unknown, unlisted or disabled tool gives an error result and no exchange, and
  structured content is always an object.\<close>

theorem every_call_is_answered:
  assumes "p_max_hops (lg_ssrf gw) < 255"
  shows "\<exists>r s rest. snd (call_tool env (live_executor de) gw name arguments) = Some r
    \<and> ct_content r = Text_Block s # rest
    \<and> (\<forall>v. ct_structured r = Some v \<longrightarrow> is_obj v)
    \<and> (operation_named gw name = None \<longrightarrow>
         ct_is_error r \<and> fst (call_tool env (live_executor de) gw name arguments) = [])"
proof -
  let ?args = "JObj (case arguments of Some m \<Rightarrow> m | None \<Rightarrow> [])"
  obtain log t where t: "execute_named env (live_executor de) gw name ?args = (log, Some t)"
    using live.call_returns [OF assms, of env de name ?args] by (metis option.exhaust_sel prod.exhaust_sel)
  then have c: "call_tool env (live_executor de) gw name arguments = (log, Some (tool_result_to_mcp t))"
    by (simp add: call_tool_def)
  have "ct_is_error (tool_result_to_mcp t) \<and> log = []" if "operation_named gw name = None"
    using t that by (auto simp: execute_named_def error_result_def tool_result_to_mcp_def)
  with c show ?thesis
    by (auto simp: tool_result_to_mcp_def split: option.splits if_splits)
qed

theorem every_call_is_answered_witness:
  "\<exists>r. snd (call_tool sample_server (live_executor sample_env) (sample_gateway []) ''gone'' None) = Some r
     \<and> ct_is_error r"
  using every_call_is_answered [of "sample_gateway []" sample_server sample_env "''gone''" None]
  by (auto simp: sample_gateway_def policy_default_def operation_named_def sample_bundle_def tool_allowed_def)

text \<open>C12: following the cursors of \<open>tools/list\<close> from the start gives every served tool once, in the
  bundle's order, after one page more than there are full pages.\<close>

theorem pages_list_every_tool:
  assumes "length (operations gw) < 2 ^ 63"
  shows "all_pages (Suc (length (operations gw) div 50)) gw None
    = Some (map operation_to_tool (operations gw))"
proof -
  have "length (operations gw) < 50 * Suc (length (operations gw) div 50)"
    using dividend_less_times_div [of 50 "length (operations gw)"] by simp
  then show ?thesis using all_pages_from [OF assms, of 0 None] by (simp del: all_pages.simps)
qed

theorem pages_list_every_tool_witness:
  "all_pages 3 (sample_gateway (replicate 120 (sample_tool ''t'' True None))) None
   = Some (replicate 120 (operation_to_tool (sample_tool ''t'' True None)))"
  using pages_list_every_tool [of "sample_gateway (replicate 120 (sample_tool ''t'' True None))"] by simp

text \<open>A cursor near the end of the machine's integers makes the page's upper bound wrap: with more
  tools than a page holds the slice is out of order and the request panics.\<close>

theorem cursor_overflow_panics:
  assumes "50 \<le> length (operations gw)" and "length (operations gw) < 2 ^ 63"
  shows "list_tools gw (Some (show_nat (2 ^ 64 - 1))) = None"
proof -
  have start: "(case Option.bind (Some (show_nat (2 ^ 64 - 1))) parse_usize of
      Some n \<Rightarrow> of_nat n | None \<Rightarrow> 0) = (- 1 :: 64 word)"
    by (simp add: parse_show_nat)
  have stop: "(- 1 :: 64 word) + PAGE_SIZE = 49" by (simp add: PAGE_SIZE_def)
  have un: "unat (of_nat (length (operations gw)) :: 64 word) = length (operations gw)"
    using assms(2) by (simp add: unat_of_nat)
  have "(49 :: 64 word) < of_nat (length (operations gw))"
    using assms(1) un by (simp add: word_less_nat_alt)
  then have "min (49 :: 64 word) (of_nat (length (operations gw))) = 49" by simp
  moreover have "min (- 1 :: 64 word) (of_nat (length (operations gw))) = of_nat (length (operations gw))"
    by (rule min_absorb2) simp
  ultimately show ?thesis
    unfolding list_tools_def Let_def start stop using \<open>49 < of_nat (length (operations gw))\<close> by simp
qed

theorem cursor_overflow_panics_witness:
  "list_tools (sample_gateway (replicate 60 (sample_tool ''t'' True None))) (Some (show_nat (2 ^ 64 - 1))) = None"
  by (rule cursor_overflow_panics) simp_all

text \<open>The handler does not read \<open>enabled_by_default\<close>: a gateway with no tool lists serves every
  compiled operation, those that are destructive, deprecated or of unsupported security included,
  and calls of them are not refused as unknown.\<close>

theorem tools_off_by_default_are_served:
  assumes "lg_enabled_tools gw = []" and "lg_disabled_tools gw = []"
  shows "operations gw = na_operations (cb_api (lg_bundle gw))
    \<and> (\<forall>op \<in> set (na_operations (cb_api (lg_bundle gw))). operation_named gw (mt_name (op_tool op)) \<noteq> None)"
proof -
  have all: "tool_allowed gw name" for name using assms by (simp add: tool_allowed_def)
  then show ?thesis by (auto simp: operations_def operation_named_def find_None_iff)
qed

theorem tools_off_by_default_are_served_witness:
  "operations (sample_gateway [sample_tool ''drop_all'' False None]) = [sample_tool ''drop_all'' False None]
   \<and> \<not> op_enabled_by_default (sample_tool ''drop_all'' False None)"
  using tools_off_by_default_are_served [of "sample_gateway [sample_tool ''drop_all'' False None]"]
  by (simp add: sample_gateway_def sample_bundle_def sample_tool_def)

text \<open>The output schema a tool is listed with is not enforced: whatever it is, a successful answer
  that is JSON becomes the result's structured content.\<close>

theorem listed_output_schema_is_not_enforced:
  assumes "operation_named gw name = Some op"
    and "rs_validate (sv_results env) (mt_input_schema (op_tool op)) arguments = None"
    and "render (sv_render env) (sv_hlib env) (lg_base_url gw) (op_execution_plan op) arguments = Inr rq"
    and "exec rq (lg_ssrf gw) (lg_credential gw) = (log, Some (Inr up))"
    and "200 \<le> up_status up" "up_status up < 300" and "rs_parse_json (sv_results env) (up_body up) = Some v"
  shows "\<exists>t. execute_named env exec gw name arguments = (log, Some t)
    \<and> \<not> tr_is_error t \<and> tr_structured t = Some v"
  using assms by (simp add: execute_named_def execute_operation_def map_success_def map_body_def Let_def)

theorem listed_output_schema_is_not_enforced_witness:
  "\<exists>t. execute_named sample_server
        (\<lambda>_ _ _. ([], Some (Inr \<lparr>up_status = 200, up_content_type = None, up_body = ''{}''\<rparr>)))
        (sample_gateway [sample_tool ''ping'' True (Some (JObj [(''required'', JArr [JStr ''id''])]))])
        ''ping'' (JObj []) = ([], Some t)
     \<and> \<not> tr_is_error t \<and> tr_structured t = Some (JObj [])"
proof -
  obtain rq where "render (sv_render sample_server) (sv_hlib sample_server)
      (lg_base_url (sample_gateway [sample_tool ''ping'' True (Some (JObj [(''required'', JArr [JStr ''id''])]))]))
      (op_execution_plan (sample_tool ''ping'' True (Some (JObj [(''required'', JArr [JStr ''id''])])))) (JObj [])
    = Inr rq" using sample_renders by blast
  from listed_output_schema_is_not_enforced [OF sample_named _ this] show ?thesis
    by (simp add: sample_server_def sample_result_lib_def)
qed

end
