(* ===== verification/Cli_Config.thy ===== *)
theory Cli_Config
  imports Spec_Load Server_Handler
begin

text \<open>
  The configuration of a run (\<open>mcp-gateway-cli/src/config.rs\<close>, \<open>secrets.rs\<close>, \<open>ir_cache.rs\<close>,
  \<open>runtime.rs\<close>, the errors of \<open>main.rs\<close>): secret references, the checks of the file, the compiled
  bundle of a spec, the upstream URL and credential, and the gateway built from them. The
  environment, the files, the TOML and JSON text formats and the URL library are parameters.
\<close>

section \<open>Errors and exit codes (main.rs, exit.rs)\<close>

datatype cli_error =
    Cli_Usage bytes
  | Cli_Policy bytes
  | Cli_Supply bytes
  | Cli_Upstream bytes
  | Cli_Io bytes

datatype exit_status = Exit_Ok | Exit_Usage | Exit_Policy | Exit_Supply | Exit_Upstream | Exit_Interrupted

fun exit_number :: "exit_status \<Rightarrow> int" where
  "exit_number Exit_Ok = 0"
| "exit_number Exit_Usage = 1"
| "exit_number Exit_Policy = 2"
| "exit_number Exit_Supply = 3"
| "exit_number Exit_Upstream = 4"
| "exit_number Exit_Interrupted = 130"

fun cli_exit :: "cli_error \<Rightarrow> exit_status" where
  "cli_exit (Cli_Usage _) = Exit_Usage"
| "cli_exit (Cli_Io _) = Exit_Usage"
| "cli_exit (Cli_Policy _) = Exit_Policy"
| "cli_exit (Cli_Supply _) = Exit_Supply"
| "cli_exit (Cli_Upstream _) = Exit_Upstream"

section \<open>The machine\<close>

text \<open>
  Environment variables, text files, the names in a directory, and the text formats: \<open>os_debug\<close> is
  the quoted form of a string, \<open>os_bundle\<close> reads a compiled bundle, \<open>os_toml\<close> prints a
  configuration back.
\<close>

datatype secret_ref = Ref_Env bytes | Ref_File bytes | Ref_Interpolated bytes

record machine =
  os_var :: "bytes \<Rightarrow> bytes option"
  os_read :: "bytes \<Rightarrow> bytes + bytes"
  os_list :: "bytes \<Rightarrow> bytes list option"
  os_debug :: "bytes \<Rightarrow> bytes"
  os_bundle :: "bytes \<Rightarrow> bytes + compile_bundle"
  os_show_json :: "json \<Rightarrow> bytes"
  os_parse_url :: "bytes \<Rightarrow> bytes + url"
  os_join_url :: "url \<Rightarrow> bytes \<Rightarrow> bytes + url"
  os_show_url :: "url \<Rightarrow> bytes"

section \<open>Secrets (secrets.rs)\<close>

definition looks_like_secret_literal :: "bytes \<Rightarrow> bool" where
  "looks_like_secret_literal raw \<longleftrightarrow>
     contains raw ''fh_mcp_'' \<or> contains raw ''sk_live'' \<or> contains raw ''Bearer ''"

definition parse_interpolation :: "bytes \<Rightarrow> cli_error + bytes" where
  "parse_interpolation raw =
     (let trimmed = trim raw in
      case Option.bind (strip_prefix ''${'' trimmed)
             (\<lambda>s. if ends_with s ''}'' then Some (butlast s) else None) of
        Some inner \<Rightarrow>
          if inner = [] \<or> \<not> list_all (\<lambda>c. is_alnum c \<or> c = CHR ''_'') inner
          then Inl (Cli_Usage (''invalid interpolation: '' @ raw))
          else Inr inner
      | None \<Rightarrow>
          Inl (Cli_Usage (''secret references must be ${VAR}, { env = \"VAR\" }, or { file = \"PATH\" } (got ''
            @ raw @ '')'')))"

text \<open>One line end at the end of a secret file is dropped.\<close>

definition drop_newline :: "bytes \<Rightarrow> bytes" where
  "drop_newline raw =
     (if ends_with raw [CHR 0x0A]
      then (let r = butlast raw in if ends_with r [CHR 0x0D] then butlast r else r)
      else raw)"

definition read_file_secret :: "machine \<Rightarrow> bytes \<Rightarrow> cli_error + bytes" where
  "read_file_secret os path =
     (case os_read os path of
        Inl e \<Rightarrow> Inl (Cli_Usage (''cannot read secret file '' @ path @ '': '' @ e))
      | Inr raw \<Rightarrow> Inr (drop_newline raw))"

definition read_var :: "machine \<Rightarrow> bytes \<Rightarrow> cli_error + bytes" where
  "read_var os name = ok_or (Cli_Usage (name @ '' is not set in the environment'')) (os_var os name)"

fun secret_resolve :: "machine \<Rightarrow> secret_ref \<Rightarrow> cli_error + bytes" where
  "secret_resolve os (Ref_Env v) = read_var os v"
| "secret_resolve os (Ref_File f) = read_file_secret os f"
| "secret_resolve os (Ref_Interpolated raw) =
     (if looks_like_secret_literal raw
      then Inl (Cli_Usage
        ''inline secret literals are not allowed; use { env = \"VAR\" } or { file = \"PATH\" }'')
      else and_then (parse_interpolation raw) (read_var os))"

fun secret_display :: "secret_ref \<Rightarrow> bytes" where
  "secret_display (Ref_Env v) = ''env:'' @ v"
| "secret_display (Ref_File f) = ''file:'' @ f"
| "secret_display (Ref_Interpolated s) =
     (case parse_interpolation s of Inr v \<Rightarrow> ''env:'' @ v | Inl _ \<Rightarrow> ''invalid'')"

definition secret_present :: "machine \<Rightarrow> secret_ref \<Rightarrow> bool" where
  "secret_present os r = (case secret_resolve os r of Inr s \<Rightarrow> s \<noteq> [] | Inl _ \<Rightarrow> False)"

section \<open>The configuration file (config.rs)\<close>

record server_config =
  sc_bind :: bytes
  sc_path :: bytes
  sc_expose :: bool
  sc_allow_anonymous :: bool
  sc_token :: "secret_ref option"

definition server_config_default :: server_config where
  "server_config_default =
     \<lparr>sc_bind = ''127.0.0.1:8787'', sc_path = ''/mcp'', sc_expose = False, sc_allow_anonymous = False,
      sc_token = Some (Ref_Env ''MCP_GATEWAY_TOKEN'')\<rparr>"

record upstream_auth =
  ua_kind :: bytes
  ua_token :: "secret_ref option"
  ua_header :: "bytes option"
  ua_query :: "bytes option"
  ua_username :: "secret_ref option"
  ua_password :: "secret_ref option"
  ua_headers :: "(bytes \<times> secret_ref) list"

record spec_entry =
  se_name :: bytes
  se_url :: "bytes option"
  se_file :: "bytes option"
  se_base_url :: "bytes option"
  se_ir_pin :: "bytes option"
  se_enabled_tools :: "bytes list"
  se_disabled_tools :: "bytes list"
  se_upstream :: "upstream_auth option"

record gateway_config =
  gc_schema_version :: "32 word"
  gc_server :: server_config
  gc_ssrf :: ssrf_config
  gc_cache_dir :: bytes
  gc_cache_ttl :: bytes
  gc_log_file :: bytes
  gc_log_level :: bytes
  gc_relay_url :: bytes
  gc_specs :: "spec_entry list"

definition SCHEMA_VERSION :: "32 word" where
  "SCHEMA_VERSION = 1"

text \<open>The derived defaults of the tables are empty strings, not the defaults of their keys.\<close>

definition config_blank :: gateway_config where
  "config_blank =
     \<lparr>gc_schema_version = SCHEMA_VERSION, gc_server = server_config_default,
      gc_ssrf = \<lparr>c_allow_private_networks = False, c_allow_metadata = False, c_allow_insecure_http = False\<rparr>,
      gc_cache_dir = [], gc_cache_ttl = [], gc_log_file = [], gc_log_level = [], gc_relay_url = [], gc_specs = []\<rparr>"

text \<open>
  The file after the TOML reader: \<open>read_toml\<close> gives the configuration or an error, \<open>show_toml\<close> its
  text again.
\<close>

definition parse_config ::
    "(bytes \<Rightarrow> bytes + gateway_config) \<Rightarrow> (gateway_config \<Rightarrow> bytes) \<Rightarrow> bytes \<Rightarrow> cli_error + gateway_config" where
  "parse_config read_toml show_toml raw =
     (case read_toml raw of
        Inl e \<Rightarrow> Inl (Cli_Usage (''config parse: '' @ e))
      | Inr cfg \<Rightarrow>
          if SCHEMA_VERSION < gc_schema_version cfg
          then Inl (Cli_Usage (''config schema_version '' @ show_nat (unat (gc_schema_version cfg))
                 @ '' is newer than this CLI; run mcp-gateway upgrade''))
          else if gc_schema_version cfg = 0 then Inl (Cli_Usage ''config schema_version is required'')
          else if looks_like_secret_literal (show_toml cfg)
          then Inl (Cli_Usage
            ''config looks like it contains a live token (fh_mcp_, sk_live, or Bearer ); use env or file references'')
          else Inr cfg)"

definition config_spec :: "gateway_config \<Rightarrow> bytes \<Rightarrow> cli_error + spec_entry" where
  "config_spec cfg name =
     ok_or (Cli_Usage (''unknown spec '' @ [CHR 0x27] @ name @ [CHR 0x27])) (find (\<lambda>s. se_name s = name) (gc_specs cfg))"

section \<open>Compiled bundles on disk (ir_cache.rs)\<close>

definition cache_file :: "bytes \<Rightarrow> bytes \<Rightarrow> bytes" where
  "cache_file spec_name sha = spec_name @ ''-'' @ take 12 sha @ ''.ir.json''"

text \<open>
  The last name in the order of the paths of one directory, which is that of their bytes.
\<close>

definition find_cached :: "machine \<Rightarrow> bytes \<Rightarrow> bytes \<Rightarrow> bytes option" where
  "find_cached os cache_dir spec_name =
     Option.bind (os_list os cache_dir) (\<lambda>names.
       let matches = filter (\<lambda>n. starts_with n (spec_name @ ''-'') \<and> ends_with n ''.ir.json'') names
       in case sort matches of [] \<Rightarrow> None | ms \<Rightarrow> Some (last ms))"

definition load_bundle :: "machine \<Rightarrow> bytes \<Rightarrow> cli_error + compile_bundle" where
  "load_bundle os path =
     (case os_read os path of
        Inl e \<Rightarrow> Inl (Cli_Usage (''cannot read IR '' @ path @ '': '' @ e))
      | Inr raw \<Rightarrow>
          (case os_bundle os raw of
             Inl e \<Rightarrow> Inl (Cli_Usage (''invalid IR document: '' @ e))
           | Inr b \<Rightarrow> Inr b))"

section \<open>The gateway of a run (runtime.rs)\<close>

definition load_bundle_for_spec ::
    "machine \<Rightarrow> bytes \<Rightarrow> gateway_config \<Rightarrow> spec_entry \<Rightarrow> cli_error + compile_bundle" where
  "load_bundle_for_spec os default_dir cfg spec =
     (let cache = (if gc_cache_dir cfg = [] then default_dir else gc_cache_dir cfg) in
      case find_cached os cache (se_name spec) of
        None \<Rightarrow> Inl (Cli_Usage (''no IR cache for '' @ se_name spec @ ''; run mcp-gateway add-spec --name ''
                  @ se_name spec))
      | Some name \<Rightarrow>
          and_then (load_bundle os (cache @ ''/'' @ name)) (\<lambda>b.
            if na_ir_version (cb_api b) \<noteq> IR_VERSION
            then Inl (Cli_Usage (''IR version '' @ na_ir_version (cb_api b) @ '' is not supported''))
            else Inr b))"

definition require_absolute_http :: "machine \<Rightarrow> bytes \<Rightarrow> cli_error + unit" where
  "require_absolute_http os u =
     (if is_absolute_http_url (os_parse_url os) u then Inr ()
      else Inl (Cli_Usage ''--base-url must be an absolute http(s) URL (host + scheme)''))"

definition fill_variable :: "bytes \<times> server_variable \<Rightarrow> bytes \<Rightarrow> bytes" where
  "fill_variable v u =
     (case sv_default (snd v) of
        Some d \<Rightarrow> replace_all (''{'' @ fst v @ ''}'') d u
      | None \<Rightarrow> u)"

definition base_url :: "machine \<Rightarrow> compile_bundle \<Rightarrow> bytes option \<Rightarrow> cli_error + bytes" where
  "base_url os b override =
     (case override of
        Some u \<Rightarrow> and_then (require_absolute_http os u) (\<lambda>_. Inr u)
      | None \<Rightarrow>
          (case na_servers (cb_api b) of
             [] \<Rightarrow> Inl (Cli_Usage ''IR has no servers; pass --base-url'')
           | s # _ \<Rightarrow> Inr (fold fill_variable (srv_variables s) (srv_url_template s))))"

text \<open>The override of debug builds through a variable is left out.\<close>

definition upstream_base_url ::
    "machine \<Rightarrow> compile_bundle \<Rightarrow> spec_entry \<Rightarrow> bytes option \<Rightarrow> cli_error + bytes" where
  "upstream_base_url os b spec override =
     (let chosen = (case override of Some u \<Rightarrow> Some u | None \<Rightarrow> se_base_url spec) in
      and_then (base_url os b chosen) (\<lambda>raw.
        if is_absolute_http_url (os_parse_url os) raw then Inr raw
        else (let resolved = resolve_server_url (os_parse_url os) (os_join_url os) (os_show_url os) (se_url spec) raw in
              case require_absolute_http os resolved of
                Inr _ \<Rightarrow> Inr resolved
              | Inl _ \<Rightarrow> Inl (Cli_Usage (''upstream server URL '' @ os_debug os raw
                  @ '' is relative; pass --base-url https://host/api (or re-run add-spec with --url so it can be resolved against the OpenAPI document)'')))))"

definition require_token :: "machine \<Rightarrow> upstream_auth \<Rightarrow> cli_error + bytes" where
  "require_token os auth =
     and_then (ok_or (Cli_Usage ''auth token reference is required'') (ua_token auth)) (secret_resolve os)"

fun resolve_headers :: "machine \<Rightarrow> (bytes \<times> secret_ref) list \<Rightarrow> cli_error + json list" where
  "resolve_headers os [] = Inr []"
| "resolve_headers os ((name, v) # rest) =
     and_then (secret_resolve os v) (\<lambda>s.
     and_then (resolve_headers os rest) (\<lambda>items.
       Inr (JObj [(''name'', JStr name), (''value'', JStr s)] # items)))"

definition build_credential :: "machine \<Rightarrow> upstream_auth \<Rightarrow> cli_error + injected_credential" where
  "build_credential os auth =
     (let kind = ua_kind auth in
      if kind = ''none'' then Inr cred_none
      else if kind = ''bearer'' then and_then (require_token os auth) (\<lambda>t. Inr (cred_bearer t))
      else if kind = ''basic''
      then and_then (and_then (ok_or (Cli_Usage ''basic auth requires username'') (ua_username auth)) (secret_resolve os)) (\<lambda>u.
           and_then (and_then (ok_or (Cli_Usage ''basic auth requires password'') (ua_password auth)) (secret_resolve os)) (\<lambda>p.
             Inr (cred_basic (u @ '':'' @ p))))
      else if kind = ''api_key_header''
      then and_then (require_token os auth) (\<lambda>t.
             Inr (cred_api_key_header t (case ua_header auth of Some h \<Rightarrow> h | None \<Rightarrow> ''X-API-Key'')))
      else if kind = ''api_key_query''
      then and_then (require_token os auth) (\<lambda>t.
             Inr (cred_api_key_query t (case ua_query auth of Some q \<Rightarrow> q | None \<Rightarrow> ''api_key'')))
      else if kind = ''custom_headers''
      then and_then (resolve_headers os (ua_headers auth)) (\<lambda>items.
             Inr (cred_custom_headers (os_show_json os (JArr items))))
      else Inl (Cli_Usage (''unknown auth type '' @ kind)))"

definition credential_of :: "machine \<Rightarrow> upstream_auth option \<Rightarrow> cli_error + injected_credential option" where
  "credential_of os auth =
     (case auth of
        None \<Rightarrow> Inr None
      | Some a \<Rightarrow> and_then (build_credential os a) (\<lambda>c. Inr (Some c)))"

definition nonempty_secret :: "bytes \<Rightarrow> bytes option" where
  "nonempty_secret s = (if trim s = [] then None else Some s)"

text \<open>\<open>handler_for\<close>; its resolver is the parameter of the dialler.\<close>

definition handler_for ::
    "machine \<Rightarrow> bool \<Rightarrow> globals \<Rightarrow> gateway_config \<Rightarrow> spec_entry \<Rightarrow> bytes \<Rightarrow> bool \<Rightarrow> bytes option
     \<Rightarrow> cli_error + local_gateway" where
  "handler_for os sh g cfg spec default_dir allow_insecure base_override =
     and_then (load_bundle_for_spec os default_dir cfg spec) (\<lambda>b.
     and_then (upstream_base_url os b spec base_override) (\<lambda>u.
     and_then (credential_of os (se_upstream spec)) (\<lambda>cred.
       Inr \<lparr>lg_bundle = b, lg_base_url = u, lg_credential = cred,
            lg_ssrf = ssrf_policy sh g (gc_ssrf cfg) allow_insecure,
            lg_enabled_tools = se_enabled_tools spec, lg_disabled_tools = se_disabled_tools spec\<rparr>)))"

definition mcp_token :: "machine \<Rightarrow> gateway_config \<Rightarrow> bytes option \<Rightarrow> cli_error + bytes option" where
  "mcp_token os cfg token_file =
     (case token_file of
        Some path \<Rightarrow> and_then (read_file_secret os path) (\<lambda>s. Inr (nonempty_secret s))
      | None \<Rightarrow>
          (case sc_token (gc_server cfg) of
             None \<Rightarrow> Inr None
           | Some r \<Rightarrow>
               (case secret_resolve os r of
                  Inr s \<Rightarrow> Inr (nonempty_secret s)
                | Inl e \<Rightarrow> if sc_allow_anonymous (gc_server cfg) then Inr None else Inl e)))"

section \<open>Secrets are read as they were written\<close>

lemma interpolation_iff:
  "parse_interpolation raw = Inr v \<longleftrightarrow>
     trim raw = ''${'' @ v @ ''}'' \<and> v \<noteq> [] \<and> list_all (\<lambda>c. is_alnum c \<or> c = CHR ''_'') v"
proof -
  let ?inner = "Option.bind (strip_prefix ''${'' (trim raw)) (\<lambda>s. if ends_with s ''}'' then Some (butlast s) else None)"
  have eq: "?inner = Some i \<longleftrightarrow> trim raw = ''${'' @ i @ ''}''" for i
    by (auto simp: bind_eq_Some_conv suffix_def simp del: append.simps)
  show ?thesis
  proof (cases ?inner)
    case None
    with eq [of v] have "trim raw \<noteq> ''${'' @ v @ ''}''" by simp
    with None show ?thesis by (simp add: parse_interpolation_def Let_def del: append.simps)
  next
    case (Some i)
    with eq [of i] have "trim raw = ''${'' @ i @ ''}''" by simp
    with Some show ?thesis by (auto simp: parse_interpolation_def Let_def simp del: append.simps)
  qed
qed

text \<open>The three ways to name a secret read the same variable: a reference written \<open>${NAME}\<close> (spaces
  around it allowed) resolves exactly as one written with the key \<open>env\<close>, for every name of letters,
  digits and underscores, and is displayed as that variable, never as its value.\<close>

theorem interpolation_reads_the_variable:
  assumes "trim raw = ''${'' @ v @ ''}''" "v \<noteq> []" "list_all (\<lambda>c. is_alnum c \<or> c = CHR ''_'') v"
    and "\<not> looks_like_secret_literal raw"
  shows "secret_resolve os (Ref_Interpolated raw) = secret_resolve os (Ref_Env v)
    \<and> secret_display (Ref_Interpolated raw) = secret_display (Ref_Env v)"
proof -
  have "parse_interpolation raw = Inr v" using assms by (simp add: interpolation_iff)
  with assms(4) show ?thesis by simp
qed

section \<open>Bundles\<close>

lemma last_sort_in: "sort ms \<noteq> [] \<Longrightarrow> last (sort ms) \<in> set ms"
  by (metis last_in_set set_sort)

lemma cache_file_shape:
  "prefix (name @ ''-'') (cache_file name sha)" "suffix ''.ir.json'' (cache_file name sha)"
  "prefix (name @ ''-'') (cache_file (name @ ''-'' @ tail) sha)"
  unfolding cache_file_def by (simp_all add: suffix_def)

lemma find_cached_pair:
  assumes "os_list os dir = Some [cache_file name sha, cache_file (name @ ''-'' @ tail) sha']"
    and "cache_file name sha < cache_file (name @ ''-'' @ tail) sha'"
  shows "find_cached os dir name = Some (cache_file (name @ ''-'' @ tail) sha')"
  using assms cache_file_shape(3) [of name tail sha'] by (simp add: find_cached_def Let_def cache_file_shape(1,2))

text \<open>A spec can be served from another spec's bundle: when the cache holds a bundle of a spec whose
  name continues this one's with a hyphen, and that file sorts last, it is the one that is loaded
  for the shorter name.\<close>

theorem another_specs_bundle_is_found:
  assumes "os_list os dir = Some [cache_file name sha, cache_file (name @ ''-'' @ tail) sha']"
    and "cache_file name sha < cache_file (name @ ''-'' @ tail) sha'"
    and "gc_cache_dir cfg = dir" "dir \<noteq> []" "se_name spec = name"
    and "load_bundle os (dir @ ''/'' @ cache_file (name @ ''-'' @ tail) sha') = Inr b"
    and "na_ir_version (cb_api b) = IR_VERSION"
  shows "load_bundle_for_spec os default_dir cfg spec = Inr b"
  using find_cached_pair [OF assms(1,2)] assms(3-) by (simp add: load_bundle_for_spec_def)

section \<open>The upstream of a run\<close>

text \<open>A gateway is only built on an absolute http or https upstream URL, whatever mix of flag,
  configuration and servers of the document it comes from.\<close>

theorem upstream_is_absolute:
  assumes "handler_for os sh g cfg spec dir insecure override = Inr gw"
  shows "is_absolute_http_url (os_parse_url os) (lg_base_url gw)"
proof -
  have "is_absolute_http_url (os_parse_url os) u" if "upstream_base_url os b spec override = Inr u" for b u
    using that by (auto simp: upstream_base_url_def Let_def require_absolute_http_def split: if_splits sum.splits)
  with assms show ?thesis by (auto simp: handler_for_def)
qed

lemma handler_policy:
  "handler_for os sh g cfg spec dir insecure override = Inr gw \<Longrightarrow> lg_ssrf gw = ssrf_policy sh g (gc_ssrf cfg) insecure"
  by (auto simp: handler_for_def)

lemma policy_flags:
  "allow_metadata sh (ssrf_policy sh g c i) \<longleftrightarrow> sh \<and> (g_allow_metadata g \<or> c_allow_metadata c)"
  "p_allow_loopback (ssrf_policy sh g c i) \<longleftrightarrow> g_allow_private_networks g \<or> c_allow_private_networks c"
  "allow_private_networks sh (ssrf_policy sh g c i) \<longleftrightarrow> sh \<and> (g_allow_private_networks g \<or> c_allow_private_networks c)"
  by (simp_all add: ssrf_policy_def Let_def allow_metadata_def allow_private_networks_def with_private_networks_def
      with_allow_loopback_def with_metadata_def with_allow_insecure_http_def policy_default_def)

lemma default_flags [simp]:
  "\<not> allow_metadata sh policy_default" "\<not> p_allow_loopback policy_default" "\<not> allow_private_networks sh policy_default"
  by (simp_all add: policy_default_def allow_metadata_def allow_private_networks_def)

lemma blocked_cong:
  "p_allow_loopback p = p_allow_loopback q \<Longrightarrow> allow_metadata sh p = allow_metadata sh q \<Longrightarrow>
     allow_private_networks sh p = allow_private_networks sh q \<Longrightarrow>
     is_blocked_ip_with_policy sh p i = is_blocked_ip_with_policy sh q i"
  by (simp only: is_blocked_ip_with_policy_def)


section \<open>A machine\<close>

definition sample_machine :: machine where
  "sample_machine =
     \<lparr>os_var = (\<lambda>v. if v = ''TOKEN'' then Some ''tok'' else None), os_read = (\<lambda>_. Inr ''{}''),
      os_list = (\<lambda>_. Some [cache_file ''pet'' ''aa'', cache_file ''pet-store'' ''00'']), os_debug = (\<lambda>s. s),
      os_bundle = (\<lambda>_. Inr (sample_bundle [sample_tool ''ping'' True None])), os_show_json = (\<lambda>_. ''j''),
      os_parse_url = (\<lambda>_. Inr (https_url (Host_V4 ip_a))), os_join_url = (\<lambda>u _. Inr u), os_show_url = (\<lambda>_. ''u'')\<rparr>"

definition sample_spec_entry :: spec_entry where
  "sample_spec_entry =
     \<lparr>se_name = ''pet'', se_url = None, se_file = None, se_base_url = Some ''https://93.184.216.34/'', se_ir_pin = None,
      se_enabled_tools = [], se_disabled_tools = [], se_upstream = None\<rparr>"

lemma cached_order: "cache_file ''pet'' ''aa'' < cache_file ''pet-store'' ''00''"
  by (simp add: cache_file_def less_char_def)

theorem another_specs_bundle_is_found_witness:
  "load_bundle_for_spec sample_machine [] (config_blank\<lparr>gc_cache_dir := ''dir''\<rparr>) sample_spec_entry
     = Inr (sample_bundle [sample_tool ''ping'' True None])"
  using cached_order
  by (intro another_specs_bundle_is_found [where dir = "''dir''" and name = "''pet''" and sha = "''aa''"
        and tail = "''store''" and sha' = "''00''"])
     (simp_all add: sample_machine_def sample_spec_entry_def load_bundle_def sample_bundle_def)

theorem interpolation_reads_the_variable_witness:
  "secret_resolve sample_machine (Ref_Interpolated '' ${TOKEN} '') = Inr ''tok''"
proof -
  have "trim '' ${TOKEN} '' = ''${'' @ ''TOKEN'' @ ''}''" by code_simp
  moreover have "list_all (\<lambda>c. is_alnum c \<or> c = CHR ''_'') ''TOKEN''" by code_simp
  moreover have "\<not> looks_like_secret_literal '' ${TOKEN} ''" by code_simp
  ultimately have "secret_resolve sample_machine (Ref_Interpolated '' ${TOKEN} '') = secret_resolve sample_machine (Ref_Env ''TOKEN'')"
    using interpolation_reads_the_variable [of "'' ${TOKEN} ''" "''TOKEN''" sample_machine] by blast
  then show ?thesis by (simp add: read_var_def sample_machine_def ok_or_def)
qed

lemma cached_some: "\<exists>n. find_cached sample_machine dir ''pet'' = Some n"
  using find_cached_pair [of sample_machine dir "''pet''" "''aa''" "''store''" "''00''"] cached_order
  by (simp add: sample_machine_def)

lemma sample_handler:
  "\<exists>gw. handler_for sample_machine False no_globals config_blank sample_spec_entry ''dir'' False None = Inr gw
     \<and> na_operations (cb_api (lg_bundle gw)) = [sample_tool ''ping'' True None]
     \<and> gw = (sample_gateway [sample_tool ''ping'' True None])\<lparr>lg_ssrf := policy_default\<rparr>"
proof -
  obtain n where n: "find_cached sample_machine ''dir'' ''pet'' = Some n" using cached_some by blast
  have "is_absolute_http_url (os_parse_url sample_machine) u" for u
    by (simp add: is_absolute_http_url_def sample_machine_def https_url_def)
  then have "upstream_base_url sample_machine b sample_spec_entry None = Inr ''https://93.184.216.34/''" for b
    by (simp add: upstream_base_url_def base_url_def require_absolute_http_def sample_spec_entry_def)
  moreover have "load_bundle sample_machine path = Inr (sample_bundle [sample_tool ''ping'' True None])" for path
    by (simp add: load_bundle_def sample_machine_def)
  then have "load_bundle_for_spec sample_machine ''dir'' config_blank sample_spec_entry
      = Inr (sample_bundle [sample_tool ''ping'' True None])"
    using n by (simp add: load_bundle_for_spec_def config_blank_def sample_spec_entry_def sample_bundle_def)
  moreover have "credential_of sample_machine (se_upstream sample_spec_entry) = Inr None"
    by (simp add: credential_of_def sample_spec_entry_def)
  moreover have "ssrf_policy False no_globals (gc_ssrf config_blank) False = policy_default"
    by (simp add: ssrf_policy_def Let_def no_globals_def config_blank_def policy_default_def with_private_networks_def
        with_allow_loopback_def with_metadata_def with_allow_insecure_http_def)
  ultimately show ?thesis
    by (simp add: handler_for_def sample_gateway_def sample_bundle_def sample_spec_entry_def)
qed

theorem upstream_is_absolute_witness:
  "\<exists>gw. handler_for sample_machine False no_globals config_blank sample_spec_entry ''dir'' False None = Inr gw
     \<and> is_absolute_http_url (os_parse_url sample_machine) (lg_base_url gw)"
  using sample_handler upstream_is_absolute by blast


end
