(* ===== verification/Tool_Names.thy ===== *)
theory Tool_Names
  imports Json "HOL-Library.Product_Lexorder"
begin

text \<open>
  Tool names (\<open>crates/mcp-gateway-compile/src/names.rs\<close>): the name an operation proposes, and the
  assignment of distinct names. After \<open>camel_to_snake\<close> a name is ASCII, so its bytes are its
  characters; a byte of a longer character is no letter, digit or separator and is dropped there.
\<close>

section \<open>Candidate names\<close>

definition RESERVED :: "bytes list" where [enum_defs]:
  "RESERVED =
     [''initialize'', ''ping'', ''shutdown'', ''tools_list'', ''tools_call'', ''resources_list'',
      ''prompts_list'', ''rpc'', ''rpc.internal'']"

record name_source =
  ns_operation_id :: "bytes option"
  ns_summary :: "bytes option"
  ns_description :: "bytes option"
  ns_method :: bytes
  ns_path_template :: bytes

datatype name_kind = OperationId | Summary | Description | Fallback

record named_tool =
  nt_name :: bytes
  nt_source_kind :: name_kind

definition is_separator :: "char \<Rightarrow> bool" where
  "is_separator c \<longleftrightarrow> c = CHR ''_'' \<or> c = CHR ''-'' \<or> c = CHR ''.''"

text \<open>\<open>prev\<close> is the character before, none at the start.\<close>

fun snake_from :: "char option \<Rightarrow> bytes \<Rightarrow> bytes" where
  "snake_from prev [] = []"
| "snake_from prev (c # cs) =
     (if is_upper c then
        (if (case prev of Some p \<Rightarrow> is_lower p \<or> is_digit p | None \<Rightarrow> False) then [CHR ''_''] else [])
        @ [lower1 c]
      else if is_ascii c then [c] else [])
     @ snake_from (Some c) cs"

definition camel_to_snake :: "bytes \<Rightarrow> bytes" where
  "camel_to_snake s = snake_from None s"

fun collapse_from :: "bool \<Rightarrow> bytes \<Rightarrow> bytes" where
  "collapse_from last_sep [] = []"
| "collapse_from last_sep (c # cs) =
     (if is_separator c then (if last_sep then [] else [CHR ''_'']) @ collapse_from True cs
      else c # collapse_from False cs)"

definition collapse_separators :: "bytes \<Rightarrow> bytes" where
  "collapse_separators s = collapse_from False s"

definition trim_separators :: "bytes \<Rightarrow> bytes" where
  "trim_separators s = trim_matches is_separator s"

definition truncate_64 :: "bytes \<Rightarrow> bytes" where
  "truncate_64 s = trim_separators (take 64 s)"

definition keep_or_underscore :: "char \<Rightarrow> char" where
  "keep_or_underscore c =
     (if is_alnum c \<or> c = CHR ''.'' \<or> c = CHR ''-'' \<or> c = CHR ''_'' then lower1 c else CHR ''_'')"

definition normalize_raw :: "bytes \<Rightarrow> bool \<Rightarrow> bytes" where
  "normalize_raw source is_operation_id =
     (let s = (if is_operation_id
               then map (\<lambda>c. if c = CHR ''/'' \<or> c = CHR ''.'' then CHR ''_'' else c) source
               else source);
          out = trim_separators (collapse_separators (map keep_or_underscore (camel_to_snake s)))
      in if 64 < length out then truncate_64 out else out)"

definition finish_reserved :: "bytes \<Rightarrow> bytes" where
  "finish_reserved out =
     (if out = [] \<or> out \<in> set RESERVED \<or> starts_with out ''mcp.'' \<or> starts_with out ''mcp_''
      then (let out = (if out = [] then ''api_op'' else ''api_'' @ out)
            in if 128 < length out then trim_separators (take 128 out) else out)
      else out)"

definition normalize :: "bytes \<Rightarrow> bool \<Rightarrow> bytes" where
  "normalize source is_operation_id = finish_reserved (normalize_raw source is_operation_id)"

definition method_path_fallback :: "bytes \<Rightarrow> bytes \<Rightarrow> bytes" where
  "method_path_fallback method path =
     to_lower method @ ''_''
     @ map (\<lambda>c. if c \<in> {CHR ''{'', CHR ''}'', CHR ''/''} then CHR ''_'' else c)
         (dropWhile (\<lambda>c. c = CHR ''/'') path)"

text \<open>One source of a name: its trimmed text, when it is not empty and normalises to something.\<close>

definition try_source :: "bytes option \<Rightarrow> (bytes \<Rightarrow> bytes) \<Rightarrow> bytes option" where
  "try_source field norm =
     (case map_option trim field of
        None \<Rightarrow> None
      | Some s \<Rightarrow> if s = [] \<or> norm s = [] then None else Some (finish_reserved (norm s)))"

definition candidate_name :: "name_source \<Rightarrow> named_tool" where
  "candidate_name src =
     (case try_source (ns_operation_id src) (\<lambda>s. normalize_raw s True) of
        Some n \<Rightarrow> \<lparr>nt_name = n, nt_source_kind = OperationId\<rparr>
      | None \<Rightarrow>
     (case try_source (ns_summary src) (\<lambda>s. normalize_raw s False) of
        Some n \<Rightarrow> \<lparr>nt_name = n, nt_source_kind = Summary\<rparr>
      | None \<Rightarrow>
     (case try_source (ns_description src)
             (\<lambda>s. normalize_raw (take_chars 80 (takeWhile (\<lambda>c. c \<noteq> CHR ''.'' \<and> c \<noteq> CHR 0x0A) s)) False) of
        Some n \<Rightarrow> \<lparr>nt_name = n, nt_source_kind = Description\<rparr>
      | None \<Rightarrow>
          \<lparr>nt_name = normalize (method_path_fallback (ns_method src) (ns_path_template src)) False,
           nt_source_kind = Fallback\<rparr>)))"

section \<open>Distinct names\<close>

definition suffixed :: "bytes \<Rightarrow> 32 word \<Rightarrow> bytes" where
  "suffixed name k =
     (let candidate = name @ ''_'' @ show_nat (unat k)
      in if 128 < length candidate then trim_separators (take 128 candidate) else candidate)"

text \<open>The inner loop runs until it finds a free name, which it may never do.\<close>

partial_function (option) probe :: "bytes \<Rightarrow> bytes list \<Rightarrow> 32 word \<Rightarrow> bytes option" where
  "probe name taken k =
     (let candidate = suffixed name k in
      if candidate \<notin> set taken then Some candidate else probe name taken (k + 1))"

type_synonym name_key = "bytes \<times> bytes \<times> bytes"

definition groups :: "bytes list \<Rightarrow> (bytes \<times> nat list) list" where
  "groups candidates =
     map (\<lambda>name. (name, filter (\<lambda>i. candidates ! i = name) [0..<length candidates]))
       (sort (remdups candidates))"

text \<open>The members of a group after its first in key order, each with its first suffix.\<close>

definition renames :: "name_key list \<Rightarrow> bytes \<times> nat list \<Rightarrow> (nat \<times> bytes \<times> 32 word) list" where
  "renames keys g =
     (if length (snd g) = 1 then []
      else map (\<lambda>(n, idx). (idx, fst g, of_nat n + 1))
             (drop 1 (enumerate 0 (sort_key (\<lambda>i. keys ! i) (snd g)))))"

fun assign :: "(nat \<times> bytes \<times> 32 word) list \<Rightarrow> bytes list \<Rightarrow> bytes list \<Rightarrow> bytes list option" where
  "assign [] taken result = Some result"
| "assign ((idx, name, k) # jobs) taken result =
     (case probe name taken k of
        None \<Rightarrow> None
      | Some candidate \<Rightarrow> assign jobs (candidate # taken) (result[idx := candidate]))"

definition uniquify :: "bytes list \<Rightarrow> name_key list \<Rightarrow> bytes list option" where
  "uniquify candidates keys =
     (if length candidates \<noteq> length keys then None
      else assign (concat (map (renames keys) (groups candidates))) candidates candidates)"

section \<open>The shape of a name\<close>

definition name_char :: "char \<Rightarrow> bool" where
  "name_char c \<longleftrightarrow> is_lower c \<or> is_digit c \<or> c = CHR ''_''"

definition name_ok :: "bytes \<Rightarrow> bool" where
  "name_ok s \<longleftrightarrow>
     s \<noteq> [] \<and> length s \<le> 68 \<and> list_all name_char s \<and> s \<notin> set RESERVED
     \<and> \<not> starts_with s ''mcp.'' \<and> \<not> starts_with s ''mcp_''"

lemma snake_ascii: "c \<in> set (snake_from p s) \<Longrightarrow> is_ascii c"
proof (induction p s rule: snake_from.induct)
  case (2 p d cs)
  have "is_upper d \<Longrightarrow> is_ascii (lower1 d)" by (simp add: is_ascii_def of_char_lower1 is_upper_def)
  moreover have "is_ascii (CHR ''_'')" by (simp add: is_ascii_def)
  ultimately show ?case using 2 by (auto split: if_splits)
qed simp

lemma keep_char: "is_separator (keep_or_underscore c) \<or> name_char (keep_or_underscore c)"
proof -
  have "is_lower (lower1 c)" if "is_upper c"
    using that by (simp add: is_lower_def of_char_lower1 is_upper_def)
  moreover have "lower1 c = c" if "\<not> is_upper c" using that by (simp add: lower1_def)
  ultimately show ?thesis
    by (cases "is_upper c") (auto simp: keep_or_underscore_def is_separator_def name_char_def is_alnum_def)
qed

lemma collapse_chars:
  "c \<in> set (collapse_from b s) \<Longrightarrow> c = CHR ''_'' \<or> (c \<in> set s \<and> \<not> is_separator c)"
  by (induction b s rule: collapse_from.induct) (auto split: if_splits)

lemma set_trim_separators: "c \<in> set (trim_separators s) \<Longrightarrow> c \<in> set s"
  using set_trim_matches unfolding trim_separators_def by blast

lemma set_truncate_64: "c \<in> set (truncate_64 s) \<Longrightarrow> c \<in> set s"
  unfolding truncate_64_def by (auto dest: set_trim_separators in_set_takeD)

lemma length_trim_separators: "length (trim_separators s) \<le> length s"
proof -
  have "length (dropWhile p (rev (dropWhile p s))) \<le> length s" for p
    using length_dropWhile_le [of p "rev (dropWhile p s)"] length_dropWhile_le [of p s] by simp
  then show ?thesis by (simp add: trim_separators_def trim_matches_def)
qed

lemma normalize_raw_chars: "list_all name_char (normalize_raw s b)"
proof -
  have "name_char c" if "c \<in> set (normalize_raw s b)" for c
  proof -
    from that obtain t where "c \<in> set (collapse_separators (map keep_or_underscore t))"
      by (auto simp: normalize_raw_def Let_def split: if_splits dest!: set_truncate_64 set_trim_separators)
    then show ?thesis
      using collapse_chars keep_char by (fastforce simp: collapse_separators_def name_char_def)
  qed
  then show ?thesis by (simp add: list_all_iff)
qed

lemma normalize_raw_length: "length (normalize_raw s b) \<le> 64"
  using length_trim_separators [of "take 64 t" for t]
  by (auto simp: normalize_raw_def Let_def truncate_64_def intro: le_trans [OF length_trim_separators])

lemma finish_reserved_ok:
  assumes "length s \<le> 64" "list_all name_char s"
  shows "name_ok (finish_reserved s)"
proof -
  have api: "name_ok (''api_'' @ s)"
  proof -
    have "list_all name_char ''api_''" by (simp add: name_char_def is_lower_def)
    moreover have "\<not> prefix ''mcp.'' (''api_'' @ s)" "\<not> prefix ''mcp_'' (''api_'' @ s)" by simp_all
    moreover have "''api_'' @ s \<notin> set RESERVED" by (simp add: RESERVED_def)
    ultimately show ?thesis using assms unfolding name_ok_def list_all_append by simp
  qed
  have "name_ok ''api_op''" by (simp add: name_ok_def name_char_def is_lower_def RESERVED_def)
  with api assms show ?thesis
    by (cases "s = []") (auto simp: finish_reserved_def Let_def name_ok_def)
qed

lemma candidate_name_shape: "name_ok (nt_name (candidate_name src))"
proof -
  have norm: "name_ok (normalize s b)" "name_ok (finish_reserved (normalize_raw s b))" for s b
    using finish_reserved_ok [OF normalize_raw_length normalize_raw_chars] by (simp_all add: normalize_def)
  have attempt: "name_ok n" if "try_source field f = Some n" "\<And>s. \<exists>t b. f s = normalize_raw t b" for field f n
  proof -
    from that(1) obtain s where "n = finish_reserved (f s)"
      by (auto simp: try_source_def split: option.splits if_splits)
    with that(2) [of s] norm(2) show ?thesis by auto
  qed
  show ?thesis
    by (auto simp: candidate_name_def norm(1) split: option.split intro!: attempt)
qed

section \<open>Distinctness\<close>

lemma show_nat_length: "n < 10 ^ Suc d \<Longrightarrow> length (show_nat n) \<le> Suc d"
proof (induction d arbitrary: n)
  case 0
  then show ?case by (subst show_nat.simps) simp
next
  case (Suc d)
  show ?case
  proof (cases "n < 10")
    case True
    then show ?thesis by (subst show_nat.simps) simp
  next
    case False
    have "n div 10 < 10 ^ Suc d" using Suc.prems by (simp add: less_mult_imp_div_less)
    with Suc.IH False show ?thesis by (subst show_nat.simps) simp
  qed
qed

lemma unat_lt_32: "unat (k :: 32 word) < 2 ^ 32"
  by (rule order_less_le_trans, rule unsigned_less) simp

lemma suffixed_eq: "length name \<le> 117 \<Longrightarrow> suffixed name k = name @ ''_'' @ show_nat (unat k)"
  using show_nat_length [of "unat k" 9] unat_lt_32 [of k] by (simp add: suffixed_def Let_def)

lemma probe_reaches:
  "suffixed name (k + of_nat j) \<notin> set taken \<Longrightarrow>
     \<exists>c m. probe name taken k = Some c \<and> c \<notin> set taken \<and> c = suffixed name m"
proof (induction j arbitrary: k)
  case 0
  then show ?case by (subst probe.simps) (auto simp: Let_def)
next
  case (Suc j)
  then have "suffixed name (k + 1 + of_nat j) \<notin> set taken" by (simp add: algebra_simps)
  from Suc.IH [OF this] show ?case
    by (cases "suffixed name k \<in> set taken") (subst probe.simps, auto simp: Let_def)+
qed

lemma probe_finds:
  assumes "length name \<le> 117" "unat k + length taken < 2 ^ 32"
  shows "\<exists>c m. probe name taken k = Some c \<and> c \<notin> set taken \<and> c = suffixed name m"
proof -
  let ?f = "\<lambda>j. suffixed name (k + of_nat j)"
  have un: "unat (k + of_nat j) = unat k + j" if "j \<le> length taken" for j
    using that assms(2) by (simp add: unat_word_ariths unat_of_nat)
  have "inj_on ?f {0..length taken}"
    by (rule inj_onI) (simp add: suffixed_eq [OF assms(1)] un)
  then have "card (?f ` {0..length taken}) = Suc (length taken)" by (simp add: card_image)
  moreover have "card (set taken) \<le> length taken" by (rule card_length)
  ultimately have "\<not> ?f ` {0..length taken} \<subseteq> set taken"
    using card_mono [of "set taken" "?f ` {0..length taken}"] by fastforce
  then obtain j where "?f j \<notin> set taken" by blast
  then show ?thesis by (rule probe_reaches)
qed

text \<open>What holds of the result when the indices in \<open>D\<close> have been renamed.\<close>

definition renamed :: "bytes list \<Rightarrow> nat set \<Rightarrow> bytes list \<Rightarrow> bytes list \<Rightarrow> bool" where
  "renamed cands D taken r \<longleftrightarrow>
     length r = length cands \<and> set cands \<subseteq> set taken
     \<and> (\<forall>i<length cands. if i \<in> D then r ! i \<notin> set cands \<and> r ! i \<in> set taken
                                        \<and> (\<exists>m. r ! i = suffixed (cands ! i) m)
                         else r ! i = cands ! i)
     \<and> inj_on ((!) r) (D \<inter> {..<length cands})"

lemma renamed_step:
  assumes "renamed cands D taken r" "i < length cands" "i \<notin> D" "c \<notin> set taken"
    "c = suffixed (cands ! i) m"
  shows "renamed cands (insert i D) (c # taken) (r[i := c])"
proof -
  from assms(1) have len: "length r = length cands" and sub: "set cands \<subseteq> set taken"
    and old: "\<And>j. j < length cands \<Longrightarrow> if j \<in> D then r ! j \<notin> set cands \<and> r ! j \<in> set taken
                 \<and> (\<exists>m. r ! j = suffixed (cands ! j) m) else r ! j = cands ! j"
    and inj: "inj_on ((!) r) (D \<inter> {..<length cands})"
    by (auto simp: renamed_def)
  have "inj_on ((!) (r[i := c])) (insert i D \<inter> {..<length cands})"
  proof (rule inj_onI)
    fix a b
    assume a: "a \<in> insert i D \<inter> {..<length cands}" and b: "b \<in> insert i D \<inter> {..<length cands}"
      and eq: "r[i := c] ! a = r[i := c] ! b"
    have taken: "r ! j \<noteq> c" if "j \<in> D" "j < length cands" for j
      using old [of j] that assms(4) by auto
    show "a = b"
      using a b eq taken [of a] taken [of b] inj len
      by (cases "a = i"; cases "b = i") (auto simp: inj_on_def)
  qed
  moreover have "c \<notin> set cands" using assms(4) sub by blast
  ultimately show ?thesis
    using len sub old assms(2,3,5) unfolding renamed_def by (auto simp: nth_list_update)
qed

lemma assign_renames:
  assumes "renamed cands D taken r" "distinct (map fst jobs)" "D \<inter> fst ` set jobs = {}"
    and "\<And>i name k. (i, name, k) \<in> set jobs \<Longrightarrow>
           i < length cands \<and> name = cands ! i \<and> length name \<le> 117
           \<and> unat k + length taken + length jobs < 2 ^ 32"
  shows "\<exists>t r'. assign jobs taken r = Some r' \<and> renamed cands (D \<union> fst ` set jobs) t r'"
  using assms
proof (induction jobs arbitrary: D taken r)
  case Nil
  then show ?case by auto
next
  case (Cons job jobs)
  obtain i name k where job: "job = (i, name, k)" by (cases job)
  from Cons.prems(4) [of i name k] job have i: "i < length cands" "name = cands ! i" "length name \<le> 117"
    "unat k + length taken < 2 ^ 32" by auto
  obtain c m where c: "probe name taken k = Some c" "c \<notin> set taken" "c = suffixed name m"
    using probe_finds [OF i(3,4)] by blast
  have "i \<notin> D" using Cons.prems(3) job by auto
  from renamed_step [OF Cons.prems(1) i(1) this c(2)] c(3) i(2)
  have step: "renamed cands (insert i D) (c # taken) (r[i := c])" by simp
  have dis: "insert i D \<inter> fst ` set jobs = {}" using Cons.prems(2,3) job by auto
  have "\<exists>t r'. assign jobs (c # taken) (r[i := c]) = Some r'
      \<and> renamed cands (insert i D \<union> fst ` set jobs) t r'"
    by (rule Cons.IH [OF step _ dis]) (use Cons.prems(2,4) job in fastforce)+
  then show ?case using job c(1) by (simp add: insert_commute)
qed

text \<open>The jobs of \<open>uniquify\<close>: every index but the first of its group.\<close>

lemma renames_idx: "map fst (renames keys g) = drop 1 (sort_key (\<lambda>i. keys ! i) (snd g))"
proof -
  have "map fst (map (\<lambda>(n, idx). (idx, fst g, of_nat n + 1 :: 32 word)) (drop 1 (enumerate 0 xs)))
      = drop 1 xs" for xs :: "nat list"
    by (simp add: drop_map [symmetric] split_beta comp_def del: drop_map)
  moreover have "drop 1 (sort_key (\<lambda>i. keys ! i) (snd g)) = []" if "length (snd g) = 1"
    using that by simp
  ultimately show ?thesis by (auto simp: renames_def)
qed

lemma renames_job:
  assumes "(i, name, k) \<in> set (renames keys g)"
  shows "i \<in> set (snd g) \<and> name = fst g \<and> unat k \<le> length (snd g)"
proof -
  from assms obtain n where n: "(n, i) \<in> set (drop 1 (enumerate 0 (sort_key (\<lambda>i. keys ! i) (snd g))))"
    "name = fst g" "k = of_nat n + 1"
    by (auto simp: renames_def split: if_splits)
  then have "(n, i) \<in> set (enumerate 0 (sort_key (\<lambda>i. keys ! i) (snd g)))" by (meson in_set_dropD)
  then have "n < length (sort_key (\<lambda>i. keys ! i) (snd g))" "i = sort_key (\<lambda>i. keys ! i) (snd g) ! n"
    by (auto simp: in_set_enumerate_eq)
  then have "n < length (snd g)" "i \<in> set (snd g)"
    using nth_mem [of n "sort_key (\<lambda>i. keys ! i) (snd g)"] by simp_all
  moreover have "unat (of_nat (Suc n) :: 32 word) \<le> Suc n" by (simp only: unat_of_nat) (rule mod_less_eq_dividend)
  ultimately show ?thesis using n by (simp add: add.commute)
qed

lemma groups_mem:
  "g \<in> set (groups cands) \<longleftrightarrow>
     fst g \<in> set cands \<and> snd g = filter (\<lambda>i. cands ! i = fst g) [0..<length cands]"
  by (cases g) (auto simp: groups_def)

lemma distinct_groups: "distinct (map fst (groups cands))"
  by (simp add: groups_def comp_def)

definition rename_jobs :: "bytes list \<Rightarrow> name_key list \<Rightarrow> (nat \<times> bytes \<times> 32 word) list" where
  "rename_jobs cands keys = concat (map (renames keys) (groups cands))"

lemma job_facts:
  assumes "(i, name, k) \<in> set (rename_jobs cands keys)"
  shows "i < length cands \<and> name = cands ! i \<and> unat k \<le> length cands"
proof -
  from assms obtain g where g: "g \<in> set (groups cands)" "(i, name, k) \<in> set (renames keys g)"
    by (auto simp: rename_jobs_def)
  moreover from g(1) have "length (snd g) \<le> length cands"
    using length_filter_le [of "\<lambda>i. cands ! i = fst g" "[0..<length cands]"]
    by (simp add: groups_mem)
  ultimately show ?thesis using renames_job [OF g(2)] by (auto simp: groups_mem)
qed

lemma distinct_jobs: "distinct (map fst (rename_jobs cands keys))"
proof -
  have "distinct (concat (map (\<lambda>g. drop 1 (sort_key (\<lambda>i. keys ! i) (snd g))) gs))"
    if "set gs \<subseteq> set (groups cands)" "distinct (map fst gs)" for gs
    using that
  proof (induction gs)
    case (Cons g gs)
    have "snd g = filter (\<lambda>i. cands ! i = fst g) [0..<length cands]"
      using Cons.prems(1) by (simp add: groups_mem)
    then have "distinct (drop 1 (sort_key (\<lambda>i. keys ! i) (snd g)))" by simp
    moreover have "set (drop 1 (sort_key (\<lambda>i. keys ! i) (snd g)))
        \<inter> set (concat (map (\<lambda>g. drop 1 (sort_key (\<lambda>i. keys ! i) (snd g))) gs)) = {}"
    proof -
      have mem: "cands ! i = fst h" if "i \<in> set (drop 1 (sort_key (\<lambda>i. keys ! i) (snd h)))"
        "h \<in> set (g # gs)" for i h
      proof -
        from that(2) Cons.prems(1) have "snd h = filter (\<lambda>i. cands ! i = fst h) [0..<length cands]"
          by (auto simp: groups_mem)
        moreover from that(1) have "i \<in> set (snd h)" by (auto dest: in_set_dropD)
        ultimately show ?thesis by simp
      qed
      have "fst g \<noteq> fst h" if "h \<in> set gs" for h using that Cons.prems(2) by auto
      then have "i \<notin> set (drop 1 (sort_key (\<lambda>i. keys ! i) (snd h)))"
        if "i \<in> set (drop 1 (sort_key (\<lambda>i. keys ! i) (snd g)))" "h \<in> set gs" for i h
        using mem [OF that(1)] mem [of i h] that(2) by auto
      then show ?thesis by auto
    qed
    ultimately show ?case using Cons by simp
  qed simp
  from this [OF subset_refl distinct_groups] show ?thesis
    by (simp add: rename_jobs_def map_concat comp_def renames_idx)
qed

text \<open>Two indices with one candidate: at least one of them is renamed.\<close>

lemma not_both_first:
  assumes "i < length cands" "j < length cands" "i \<noteq> j" "cands ! i = cands ! j"
  shows "i \<in> fst ` set (rename_jobs cands keys) \<or> j \<in> fst ` set (rename_jobs cands keys)"
proof -
  let ?is = "filter (\<lambda>x. cands ! x = cands ! i) [0..<length cands]"
  let ?g = "(cands ! i, ?is)"
  let ?s = "sort_key (\<lambda>i. keys ! i) ?is"
  have g: "?g \<in> set (groups cands)" using assms(1) by (simp add: groups_mem)
  have "i \<in> set ?s" "j \<in> set ?s" using assms by simp_all
  then have "i \<in> set (drop 1 ?s) \<or> j \<in> set (drop 1 ?s)"
    using assms(3) by (cases ?s) auto
  then have "i \<in> set (map fst (renames keys ?g)) \<or> j \<in> set (map fst (renames keys ?g))"
    unfolding renames_idx by simp
  with g show ?thesis by (auto simp: rename_jobs_def image_iff)
qed

lemma jobs_length: "length (rename_jobs cands keys) \<le> length cands"
proof -
  have "set (map fst (rename_jobs cands keys)) \<subseteq> {..<length cands}" using job_facts by fastforce
  from card_mono [OF _ this] show ?thesis
    using distinct_card [OF distinct_jobs [of cands keys]] by simp
qed

lemma uniquify_result:
  assumes "length candidates = length keys" "length candidates < 2 ^ 30"
    and "\<forall>c\<in>set candidates. length c \<le> 117"
  shows "\<exists>t r. uniquify candidates keys = Some r
     \<and> renamed candidates (fst ` set (rename_jobs candidates keys)) t r"
proof -
  have start: "renamed candidates {} candidates candidates" by (simp add: renamed_def)
  have "i < length candidates \<and> name = candidates ! i \<and> length name \<le> 117
      \<and> unat k + length candidates + length (rename_jobs candidates keys) < 2 ^ 32"
    if "(i, name, k) \<in> set (rename_jobs candidates keys)" for i name k
    using job_facts [OF that] jobs_length [of candidates keys] assms(2,3) by auto
  from assign_renames [OF start distinct_jobs [of candidates keys] _ this]
  show ?thesis using assms(1) by (auto simp: uniquify_def rename_jobs_def)
qed

lemma renamed_distinct:
  assumes "renamed cands (fst ` set (rename_jobs cands keys)) t r"
  shows "distinct r"
proof -
  let ?D = "fst ` set (rename_jobs cands keys)"
  from assms have len: "length r = length cands"
    and old: "\<And>j. j < length cands \<Longrightarrow> if j \<in> ?D then r ! j \<notin> set cands else r ! j = cands ! j"
    and inj: "inj_on ((!) r) (?D \<inter> {..<length cands})"
    by (auto simp: renamed_def split: if_splits)
  have "r ! i \<noteq> r ! j" if ij: "i < length cands" "j < length cands" "i \<noteq> j" for i j
  proof (cases "i \<in> ?D \<and> j \<in> ?D")
    case True
    with inj ij show ?thesis unfolding inj_on_def by blast
  next
    case False
    then show ?thesis
      using old [OF ij(1)] old [OF ij(2)] not_both_first [OF ij, of keys] ij(1,2)
        nth_mem [of i cands] nth_mem [of j cands]
      by (cases "i \<in> ?D"; cases "j \<in> ?D") metis+
  qed
  with len show ?thesis by (simp add: distinct_conv_nth)
qed

section \<open>Properties\<close>

text \<open>The interface the compiler relies on: a way of naming that keeps a list's length, makes its
  entries distinct and leaves a proposal nobody else makes alone.\<close>

locale naming =
  fixes ok :: "bytes list \<Rightarrow> bool" and assign_names :: "bytes list \<Rightarrow> bytes list option"
  assumes named: "ok cands \<Longrightarrow> \<exists>r. assign_names cands = Some r"
    and named_length: "ok cands \<Longrightarrow> assign_names cands = Some r \<Longrightarrow> length r = length cands"
    and named_distinct: "ok cands \<Longrightarrow> assign_names cands = Some r \<Longrightarrow> distinct r"
    and named_origin: "ok cands \<Longrightarrow> assign_names cands = Some r \<Longrightarrow> i < length cands \<Longrightarrow>
       r ! i = cands ! i \<or> (\<exists>m. r ! i = suffixed (cands ! i) m)"
    and named_kept: "ok cands \<Longrightarrow> assign_names cands = Some r \<Longrightarrow> i < length cands \<Longrightarrow>
       (\<And>j. j < length cands \<Longrightarrow> cands ! j = cands ! i \<Longrightarrow> j = i) \<Longrightarrow> r ! i = cands ! i"
begin

lemma named_lookup: "ok cands \<Longrightarrow> assign_names cands = Some r \<Longrightarrow> i < length cands \<Longrightarrow>
    j < length cands \<Longrightarrow> r ! i = r ! j \<Longrightarrow> i = j"
  by (metis named_distinct named_length nth_eq_iff_index_eq)

lemma already_distinct: "ok cands \<Longrightarrow> distinct cands \<Longrightarrow> assign_names cands = Some cands"
proof -
  assume ok: "ok cands" and d: "distinct cands"
  then obtain r where r: "assign_names cands = Some r" using named by blast
  have "r ! i = cands ! i" if "i < length cands" for i
    by (rule named_kept [OF ok r that]) (use d that nth_eq_iff_index_eq in blast)
  with named_length [OF ok r] r show ?thesis by (metis nth_equalityI)
qed

end

definition nameable :: "name_key list \<Rightarrow> bytes list \<Rightarrow> bool" where
  "nameable keys cands \<longleftrightarrow>
     length cands = length keys \<and> length cands < 2 ^ 30 \<and> (\<forall>c\<in>set cands. length c \<le> 117)"

lemma unique_not_renamed:
  assumes "i < length cands" "\<And>j. j < length cands \<Longrightarrow> cands ! j = cands ! i \<Longrightarrow> j = i"
  shows "i \<notin> fst ` set (rename_jobs cands keys)"
proof
  assume "i \<in> fst ` set (rename_jobs cands keys)"
  then obtain name k g where g: "g \<in> set (groups cands)" "(i, name, k) \<in> set (renames keys g)"
    by (auto simp: rename_jobs_def)
  then have "i \<in> set (snd g)" using renames_job by blast
  with g(1) have "snd g = filter (\<lambda>j. cands ! j = cands ! i) [0..<length cands]"
    by (auto simp: groups_mem)
  also have "\<dots> = filter (\<lambda>j. j = i) [0..<length cands]"
    using assms by (intro filter_cong) auto
  finally have eq: "snd g = filter (\<lambda>j. j = i) [0..<length cands]" .
  have "distinct (snd g)" "set (snd g) = {i}" using eq assms(1) by auto
  then have "length (snd g) = 1" by (metis One_nat_def card_1_singleton_iff distinct_card)
  with g(2) show False by (simp add: renames_def)
qed

interpretation unique_names: naming "nameable keys" "\<lambda>cands. uniquify cands keys" for keys
proof (unfold_locales, goal_cases)
  case (1 cands)
  then show ?case using uniquify_result [of cands keys] by (auto simp: nameable_def)
next
  case (2 cands r)
  then show ?case using uniquify_result [of cands keys] by (auto simp: nameable_def renamed_def)
next
  case (3 cands r)
  then show ?case using uniquify_result [of cands keys] by (auto simp: nameable_def dest: renamed_distinct)
next
  case (4 cands r i)
  then show ?case
    using uniquify_result [of cands keys] by (auto simp: nameable_def renamed_def split: if_splits)
next
  case (5 cands r i)
  then have "i \<notin> fst ` set (rename_jobs cands keys)" by (intro unique_not_renamed)
  with 5 show ?case
    using uniquify_result [of cands keys] by (auto simp: nameable_def renamed_def split: if_splits)
qed

lemma suffixed_shape: "name_ok n \<Longrightarrow> suffixed n k \<noteq> [] \<and> length (suffixed n k) \<le> 79 \<and> list_all name_char (suffixed n k)"
proof -
  assume n: "name_ok n"
  have "list_all name_char (show_nat m)" for m
    using show_nat_digits by (fastforce simp: list_all_iff name_char_def)
  moreover have "name_char (CHR ''_'')" by (simp add: name_char_def)
  ultimately show ?thesis
    using n show_nat_length [of "unat k" 9] unat_lt_32 [of k] by (simp add: name_ok_def suffixed_eq)
qed

lemma candidates_nameable:
  assumes "length srcs = length keys" "length srcs < 2 ^ 30"
  shows "nameable keys (map (\<lambda>s. nt_name (candidate_name s)) srcs)"
proof -
  have "length (nt_name (candidate_name s)) \<le> 117" for s
    using candidate_name_shape [of s] by (simp add: name_ok_def)
  then show ?thesis using assms by (auto simp: nameable_def)
qed

text \<open>Every compiled operation gets a name of its own. For any operations (fewer than a thousand
  million), whatever their operation ids, summaries, descriptions and paths, naming returns, the
  names are pairwise distinct, and each is a non-empty string of at most 79 lower-case letters,
  digits and underscores; an operation whose proposed name no other proposes keeps it.\<close>

theorem tool_names_distinct:
  assumes "length srcs = length keys" "length srcs < 2 ^ 30"
  defines "cands \<equiv> map (\<lambda>s. nt_name (candidate_name s)) srcs"
  shows "\<exists>r. uniquify cands keys = Some r \<and> length r = length srcs \<and> distinct r
     \<and> list_all (\<lambda>n. n \<noteq> [] \<and> length n \<le> 79 \<and> list_all name_char n) r
     \<and> (\<forall>i<length srcs. (\<forall>j<length srcs. cands ! j = cands ! i \<longrightarrow> j = i) \<longrightarrow> r ! i = cands ! i)"
proof -
  have ok: "nameable keys cands" unfolding cands_def by (rule candidates_nameable [OF assms(1,2)])
  have len: "length cands = length srcs" by (simp add: cands_def)
  obtain r where r: "uniquify cands keys = Some r" using unique_names.named [OF ok] by blast
  have shape: "name_ok (cands ! i)" if "i < length srcs" for i
    using that candidate_name_shape by (simp add: cands_def)
  have "r ! i \<noteq> [] \<and> length (r ! i) \<le> 79 \<and> list_all name_char (r ! i)" if "i < length srcs" for i
  proof -
    from unique_names.named_origin [OF ok r, of i] that len
    have "r ! i = cands ! i \<or> (\<exists>m. r ! i = suffixed (cands ! i) m)" by simp
    then show ?thesis
      using shape [OF that] suffixed_shape [OF shape [OF that]]
      by (elim disjE exE) (simp_all add: name_ok_def)
  qed
  then have "list_all (\<lambda>n. n \<noteq> [] \<and> length n \<le> 79 \<and> list_all name_char n) r"
    using unique_names.named_length [OF ok r] len by (simp add: list_all_length)
  moreover have "\<forall>i<length srcs. (\<forall>j<length srcs. cands ! j = cands ! i \<longrightarrow> j = i) \<longrightarrow> r ! i = cands ! i"
    using unique_names.named_kept [OF ok r] len by auto
  moreover have "length r = length srcs" "distinct r"
    using unique_names.named_length [OF ok r] unique_names.named_distinct [OF ok r] len by simp_all
  ultimately show ?thesis using r by (intro exI [of _ r] conjI)
qed

definition sample_source :: "bytes \<Rightarrow> name_source" where
  "sample_source i = \<lparr>ns_operation_id = Some i, ns_summary = None, ns_description = None,
     ns_method = ''GET'', ns_path_template = ''/a''\<rparr>"

lemma tool_names_distinct_witness:
  "\<exists>r. uniquify [''a_b'', ''a_b''] [(''GET'', ''/a'', []), (''GET'', ''/b'', [])] = Some r \<and> distinct r"
proof -
  let ?srcs = "[sample_source ''aB'', sample_source ''a_b'']"
  have "nt_name (candidate_name (sample_source ''aB'')) = ''a_b''"
    "nt_name (candidate_name (sample_source ''a_b'')) = ''a_b''"
    by code_simp+
  with tool_names_distinct [of ?srcs "[(''GET'', ''/a'', []), (''GET'', ''/b'', [])]"]
  show ?thesis by auto
qed

text \<open>A proposed name never is a reserved one and never starts with \<open>mcp_\<close> or \<open>mcp.\<close>, but the
  suffix that makes names distinct can bring the reserved prefix back: two operations that
  propose \<open>mcp\<close> are named \<open>mcp\<close> and \<open>mcp_2\<close>.\<close>

theorem reserved_prefix_reappears:
  "name_ok (nt_name (candidate_name src))
   \<and> nt_name (candidate_name (sample_source ''mcp'')) = ''mcp''
   \<and> uniquify [''mcp'', ''mcp''] [(''GET'', ''/a'', []), (''GET'', ''/b'', [])] = Some [''mcp'', ''mcp_2'']"
proof (intro conjI)
  show "name_ok (nt_name (candidate_name src))" by (rule candidate_name_shape)
  show "nt_name (candidate_name (sample_source ''mcp'')) = ''mcp''" by code_simp
  have jobs: "concat (map (renames [(''GET'', ''/a'', []), (''GET'', ''/b'', [])]) (groups [''mcp'', ''mcp'']))
      = [(1, ''mcp'', 2)]"
  proof -
    have "(''GET'', ''/a'', []) \<le> (''GET'', ''/b'', [] :: bytes)" by code_simp
    then show ?thesis by (simp add: groups_def renames_def upt_rec)
  qed
  have "suffixed ''mcp'' 2 = ''mcp_2''"
  proof -
    have "show_nat 2 = ''2''" by code_simp
    then show ?thesis by (simp add: suffixed_eq)
  qed
  then have "probe ''mcp'' [''mcp'', ''mcp''] 2 = Some ''mcp_2''" by (subst probe.simps) simp
  with jobs show "uniquify [''mcp'', ''mcp''] [(''GET'', ''/a'', []), (''GET'', ''/b'', [])]
      = Some [''mcp'', ''mcp_2'']"
    by (simp add: uniquify_def)
qed

lemma probe_Some: "probe name taken k = Some c \<Longrightarrow> c \<notin> set taken \<and> (\<exists>m. c = suffixed name m)"
  by (erule probe.raw_induct [rotated, where P = "\<lambda>name taken k c. c \<notin> set taken \<and> (\<exists>m. c = suffixed name m)"])
    (auto simp: Let_def split: if_splits)

text \<open>Two equal names of 128 characters would never be told apart: the suffix is cut off again.\<close>

lemma long_duplicates_never_named:
  assumes "length name = 128" "\<not> is_separator (hd name)" "\<not> is_separator (last name)" "name \<in> set taken"
  shows "probe name taken k = None"
proof -
  have "trim_separators name = name"
  proof -
    have "dropWhile is_separator name = name" using assms(2) by (cases name) simp_all
    moreover have "dropWhile is_separator (rev name) = rev name"
      using assms(3) by (cases name rule: rev_cases) simp_all
    ultimately show ?thesis by (simp add: trim_separators_def trim_matches_def)
  qed
  then have "suffixed name m = name" for m using assms(1) by (simp add: suffixed_def Let_def)
  then have "c \<notin> set taken \<and> c = name" if "probe name taken k = Some c" for c
    using probe_Some [OF that] by metis
  with assms(4) show ?thesis by (cases "probe name taken k") simp_all
qed

end
