(* ===== verification/Operation_Class.thy ===== *)
theory Operation_Class
  imports Ir_Types Tool_Names
begin

text \<open>
  What the compiler says of an operation from its method, path and names:
  \<open>destructive.rs\<close>, \<open>category.rs\<close>, \<open>style.rs\<close> and \<open>lower/media.rs\<close> of
  \<open>crates/mcp-gateway-compile/src\<close>. On bytes, a character that is not ASCII separates words at
  each of its bytes, which adds empty words only.
\<close>

section \<open>Destructive operations (destructive.rs)\<close>

definition DESTRUCTIVE_KEYWORDS :: "bytes list" where [enum_defs]:
  "DESTRUCTIVE_KEYWORDS =
     [''delete'', ''cancel'', ''remove'', ''revoke'', ''terminate'', ''destroy'', ''refund'',
      ''transfer'', ''purge'', ''reset'']"

record classification =
  cl_read_only :: bool
  cl_destructive :: bool
  cl_idempotent :: bool
  cl_skip :: bool

definition keyword_hit :: "bytes \<Rightarrow> bytes option \<Rightarrow> bool" where
  "keyword_hit path_template operation_id =
     (let blob = to_lower path_template
                 @ (case operation_id of Some i \<Rightarrow> '' '' @ to_lower i | None \<Rightarrow> [])
      in list_ex (\<lambda>tok. tok \<in> set DESTRUCTIVE_KEYWORDS) (split_by (\<lambda>c. \<not> is_alnum c) blob))"

definition classify :: "bytes \<Rightarrow> bytes \<Rightarrow> bytes option \<Rightarrow> classification" where
  "classify method path_template operation_id =
     (let m = to_upper method; keyword = keyword_hit path_template operation_id in
      if m = ''GET'' \<or> m = ''HEAD'' then
        \<lparr>cl_read_only = \<not> keyword, cl_destructive = keyword, cl_idempotent = True, cl_skip = False\<rparr>
      else if m = ''PUT'' \<or> m = ''PATCH'' then
        \<lparr>cl_read_only = False, cl_destructive = keyword, cl_idempotent = True, cl_skip = False\<rparr>
      else if m = ''POST'' then
        \<lparr>cl_read_only = False, cl_destructive = keyword, cl_idempotent = False, cl_skip = False\<rparr>
      else if m = ''DELETE'' then
        \<lparr>cl_read_only = False, cl_destructive = True, cl_idempotent = True, cl_skip = False\<rparr>
      else
        \<lparr>cl_read_only = False, cl_destructive = False, cl_idempotent = False, cl_skip = True\<rparr>)"

definition annotations :: "classification \<Rightarrow> tool_annotations" where
  "annotations c =
     (if cl_read_only c then
        \<lparr>ta_read_only_hint = True, ta_destructive_hint = None, ta_idempotent_hint = None,
         ta_open_world_hint = True\<rparr>
      else
        \<lparr>ta_read_only_hint = False, ta_destructive_hint = Some (cl_destructive c),
         ta_idempotent_hint = Some (cl_idempotent c), ta_open_world_hint = True\<rparr>)"

section \<open>Categories (category.rs)\<close>

definition GENERIC_SEGMENTS :: "bytes list" where [enum_defs]:
  "GENERIC_SEGMENTS = [''v1'', ''v2'', ''v3'', ''api'', ''rest'']"

definition path_prefix :: "bytes \<Rightarrow> bytes option" where
  "path_prefix path =
     find (\<lambda>seg. to_lower seg \<notin> set GENERIC_SEGMENTS)
       (filter (\<lambda>s. s \<noteq> [] \<and> \<not> starts_with s ''{'') (split_by (\<lambda>c. c = CHR ''/'') path))"

definition category :: "bytes list \<Rightarrow> bytes \<Rightarrow> bytes option \<Rightarrow> bytes" where
  "category tags path_template schema_ref_name =
     (case find (\<lambda>t. t \<noteq> []) (map trim tags) of
        Some tag \<Rightarrow> tag
      | None \<Rightarrow>
          (case path_prefix path_template of
             Some seg \<Rightarrow> seg
           | None \<Rightarrow>
               (case map_option trim schema_ref_name of
                  Some name \<Rightarrow> if name \<noteq> [] then normalize name False else ''untagged''
                | None \<Rightarrow> ''untagged'')))"

section \<open>Parameter styles (style.rs)\<close>

datatype style_support = Style_Ok style bool | Unsupported bool

definition parse_style :: "bytes \<Rightarrow> bytes option \<Rightarrow> bool option \<Rightarrow> style_support" where
  "parse_style location st expl =
     (let loc = to_lower location;
          default_style = (if loc = ''query'' \<or> loc = ''cookie'' then ''form'' else ''simple'');
          style_name = (case st of Some s \<Rightarrow> s | None \<Rightarrow> default_style);
          explode = (case expl of Some e \<Rightarrow> e | None \<Rightarrow> style_name = ''form'')
      in if style_name = ''simple'' \<and> (loc = ''path'' \<or> loc = ''header'') then Style_Ok Simple explode
         else if style_name = ''form'' \<and> (loc = ''query'' \<or> loc = ''cookie'') then Style_Ok Form explode
         else if style_name = ''spaceDelimited'' \<and> loc = ''query'' then Style_Ok SpaceDelimited explode
         else if style_name = ''pipeDelimited'' \<and> loc = ''query'' then Style_Ok PipeDelimited explode
         else if (style_name = ''label'' \<or> style_name = ''matrix'') \<and> loc = ''path'' then
           Style_Ok (if style_name = ''label'' then Label else Matrix) explode
         else Unsupported True)"

section \<open>Media types (lower/media.rs)\<close>

definition media_type_base :: "bytes \<Rightarrow> bytes" where
  "media_type_base ct = to_lower (trim (hd (split_by (\<lambda>c. c = CHR '';'') ct)))"

definition is_json_media_type :: "bytes \<Rightarrow> bool" where
  "is_json_media_type ct \<longleftrightarrow>
     media_type_base ct = ''application/json'' \<or> ends_with (media_type_base ct) ''+json''"

definition FORM_URLENCODED :: bytes where
  "FORM_URLENCODED = ''application/x-www-form-urlencoded''"

definition select_json_content :: "(bytes \<times> json) list \<Rightarrow> (bytes \<times> json) option" where
  "select_json_content content =
     (case find (\<lambda>(ct, _). is_json_media_type ct) content of
        Some r \<Rightarrow> Some r
      | None \<Rightarrow> find (\<lambda>(ct, _). media_type_base ct = FORM_URLENCODED) content)"

definition object_has_streaming_content :: "json option \<Rightarrow> bool" where
  "object_has_streaming_content obj =
     (case Option.bind (Option.bind obj (jget ''content'')) as_object of
        None \<Rightarrow> False
      | Some content \<Rightarrow>
          list_ex (\<lambda>(ct, _). media_type_base ct
                     \<in> {''text/event-stream'', ''application/json-seq'', ''application/websocket''})
            content)"

definition is_streaming :: "json \<Rightarrow> bool" where
  "is_streaming op \<longleftrightarrow>
     object_has_streaming_content (jget ''requestBody'' op)
     \<or> (case Option.bind (jget ''responses'' op) as_object of
          Some responses \<Rightarrow> list_ex (\<lambda>(_, r). object_has_streaming_content (Some r)) responses
        | None \<Rightarrow> False)"

definition is_binary_body :: "json \<Rightarrow> bool" where
  "is_binary_body op =
     (case Option.bind (Option.bind (jget ''requestBody'' op) (jget ''content'')) as_object of
        None \<Rightarrow> False
      | Some content \<Rightarrow>
          list_ex (\<lambda>(ct, _). starts_with (media_type_base ct) ''multipart/''
                     \<or> media_type_base ct = ''application/octet-stream''
                     \<or> starts_with (media_type_base ct) ''image/'') content)"

section \<open>Properties\<close>

text \<open>A tool is announced read-only exactly when its method is \<open>GET\<close> or \<open>HEAD\<close> and neither its
  path nor its operation id has a destructive word; it is classed destructive exactly when it is a
  \<open>DELETE\<close>, or another compiled method with such a word; and it is skipped exactly when its method
  is none of these.\<close>

theorem annotations_exact:
  "(ta_read_only_hint (annotations (classify m p i)) \<longleftrightarrow>
      to_upper m \<in> {''GET'', ''HEAD''} \<and> \<not> keyword_hit p i)
   \<and> (cl_destructive (classify m p i) \<longleftrightarrow>
        to_upper m = ''DELETE''
        \<or> to_upper m \<in> {''GET'', ''HEAD'', ''PUT'', ''PATCH'', ''POST''} \<and> keyword_hit p i)
   \<and> (cl_skip (classify m p i) \<longleftrightarrow>
        to_upper m \<notin> {''GET'', ''HEAD'', ''PUT'', ''PATCH'', ''POST'', ''DELETE''})"
  by (simp add: annotations_def classify_def Let_def)

text \<open>A destructive word inside a camel-case operation id is not seen: words are split at
  characters that are no letter or digit, after lower-casing. \<open>POST /orders\<close> with the id
  \<open>cancelOrder\<close> is announced as not destructive, though its tool is named \<open>cancel_order\<close>, and with
  that spelling as the id the word would be found.\<close>

theorem camel_case_word_missed:
  "ta_destructive_hint (annotations (classify ''POST'' ''/orders'' (Some ''cancelOrder''))) = Some False
   \<and> normalize_raw ''cancelOrder'' True = ''cancel_order''
   \<and> keyword_hit ''/orders'' (Some ''cancel_order'')"
proof (intro conjI)
  have "\<not> keyword_hit ''/orders'' (Some ''cancelOrder'')"
    by code_simp
  then show "ta_destructive_hint (annotations (classify ''POST'' ''/orders'' (Some ''cancelOrder''))) = Some False"
    by (simp add: annotations_def classify_def Let_def to_upper_def upper1_def is_lower_def)
  show "normalize_raw ''cancelOrder'' True = ''cancel_order''" by code_simp
  show "keyword_hit ''/orders'' (Some ''cancel_order'')" by code_simp
qed

lemma parse_style_never_deep: "parse_style loc st e = Style_Ok s x \<Longrightarrow> s \<noteq> DeepObject"
  by (auto simp: parse_style_def Let_def split: if_splits)

end
