(* ===== verification/Lower_Parts.thy ===== *)
theory Lower_Parts
  imports Schema_Shape Operation_Class
begin

text \<open>
  Lowering one operation, part by part (\<open>crates/mcp-gateway-compile/src/lower\<close>): its security
  and servers, its parameters, its request body and its responses, each with the tool schema it
  contributes and the warnings it leaves. The retriever is shared by reference and its state
  threaded through; the schema bundler, the printers and the digest are parameters.
\<close>

section \<open>The draft, the sink and the warnings (lower/mod.rs)\<close>

record draft =
  dr_method :: bytes
  dr_path :: bytes
  dr_operation_id :: "bytes option"
  dr_summary :: "bytes option"
  dr_description :: "bytes option"
  dr_tags :: "bytes list"
  dr_deprecated :: bool
  dr_op :: json
  dr_path_item :: json
  dr_class :: classification
  dr_candidate_name :: bytes

record schema_sink =
  si_properties :: "(bytes \<times> json) list"
  si_required :: "bytes list"
  si_defs :: "(bytes \<times> json) list"
  si_had_cycle :: bool
  si_warnings :: "warning list"
  si_blocking :: "warning_code list"

record lower_env =
  le_bundle :: bundler
  le_order :: "bytes set \<Rightarrow> bytes list"
  le_refs :: ref_env
  le_debug :: "bytes \<Rightarrow> bytes"
  le_show :: "json \<Rightarrow> bytes"
  le_sha256_hex :: "bytes \<Rightarrow> bytes"

definition warn ::
    "warning_code \<Rightarrow> bytes option \<Rightarrow> bytes option \<Rightarrow> bytes option \<Rightarrow> bytes \<Rightarrow> warning" where
  "warn code operation_id method path message =
     \<lparr>w_code = code, w_severity = default_severity code, w_operation_id = operation_id,
      w_method = method, w_path = path, w_message = message, w_pointer = None\<rparr>"

text \<open>The warning of a draft, as every caller builds it.\<close>

definition draft_warn :: "draft \<Rightarrow> warning_code \<Rightarrow> bytes \<Rightarrow> warning" where
  "draft_warn d code message =
     warn code (dr_operation_id d) (Some (dr_method d)) (Some (dr_path d)) message"

definition sink_warn :: "warning \<Rightarrow> schema_sink \<Rightarrow> schema_sink" where
  "sink_warn w sink = sink\<lparr>si_warnings := si_warnings sink @ [w]\<rparr>"

definition sink_block :: "warning_code \<Rightarrow> schema_sink \<Rightarrow> schema_sink" where
  "sink_block c sink = sink\<lparr>si_blocking := si_blocking sink @ [c]\<rparr>"

definition str_field :: "json \<Rightarrow> bytes \<Rightarrow> bytes option" where
  "str_field v k = Option.bind (jget k v) as_str"

definition bool_field :: "json \<Rightarrow> bytes \<Rightarrow> bool" where
  "bool_field v k = (Option.bind (jget k v) as_bool = Some True)"

definition strings :: "json list \<Rightarrow> bytes list" where
  "strings xs = List.map_filter as_str xs"

definition string_array :: "json option \<Rightarrow> bytes list" where
  "string_array v = (case Option.bind v as_array of Some a \<Rightarrow> strings a | None \<Rightarrow> [])"

text \<open>\<open>BTreeMap::insert\<close>: the entries stay in key order.\<close>

fun bt_insert :: "bytes \<Rightarrow> 'a \<Rightarrow> (bytes \<times> 'a) list \<Rightarrow> (bytes \<times> 'a) list" where
  "bt_insert k v [] = [(k, v)]"
| "bt_insert k v ((j, w) # m) =
     (if k < j then (k, v) # (j, w) # m else if k = j then (k, v) # m else (j, w) # bt_insert k v m)"

lemma map_of_bt_insert [simp]: "map_of (bt_insert k v m) j = (if j = k then Some v else map_of m j)"
  by (induction m) auto

section \<open>Security (lower/security.rs)\<close>

definition requirement_of :: "json \<Rightarrow> security_requirement option" where
  "requirement_of v =
     (case as_object v of
        None \<Rightarrow> None
      | Some obj \<Rightarrow>
          Some \<lparr>sr_schemes = fold (\<lambda>(k, w) m. bt_insert k (string_array (Some w)) m) obj []\<rparr>)"

definition effective_security :: "json \<Rightarrow> json \<Rightarrow> security_requirement list" where
  "effective_security doc op =
     (case Option.bind (case jget ''security'' op of Some l \<Rightarrow> Some l | None \<Rightarrow> jget ''security'' doc) as_array of
        None \<Rightarrow> []
      | Some l \<Rightarrow> List.map_filter requirement_of l)"

definition scheme_supported :: "json \<Rightarrow> bool" where
  "scheme_supported scheme =
     (case str_field scheme ''type'' of
        Some ty \<Rightarrow>
          if ty = ''http'' then (case str_field scheme ''scheme'' of Some s \<Rightarrow> eq_ci s ''bearer'' | None \<Rightarrow> False)
          else if ty = ''apiKey'' then str_field scheme ''in'' = Some ''header''
          else False
      | None \<Rightarrow> False)"

definition security_schemes_of :: "json \<Rightarrow> (bytes \<times> json) list option" where
  "security_schemes_of doc = Option.bind (json_pointer ''/components/securitySchemes'' doc) as_object"

definition security_supported :: "json \<Rightarrow> security_requirement list \<Rightarrow> bool" where
  "security_supported doc reqs \<longleftrightarrow>
     reqs = []
     \<or> list_ex (\<lambda>r. list_all (\<lambda>(name, _).
           case Option.bind (security_schemes_of doc) (\<lambda>m. map_of m name) of
             None \<Rightarrow> False
           | Some scheme \<Rightarrow> scheme_supported scheme) (sr_schemes r)) reqs"

definition parse_security_scheme :: "bytes \<Rightarrow> json \<Rightarrow> security_scheme option" where
  "parse_security_scheme name scheme =
     (case str_field scheme ''type'' of
        None \<Rightarrow> None
      | Some ty \<Rightarrow>
          if ty = ''apiKey'' then
            Some (Api_Key (case str_field scheme ''name'' of Some n \<Rightarrow> n | None \<Rightarrow> name)
              (case str_field scheme ''in'' of
                 Some l \<Rightarrow> if l = ''query'' then In_Query else if l = ''cookie'' then In_Cookie else In_Header
               | None \<Rightarrow> In_Header))
          else if ty = ''http'' then
            Some (Http_Scheme (case str_field scheme ''scheme'' of Some s \<Rightarrow> s | None \<Rightarrow> ''bearer'')
              (str_field scheme ''bearerFormat''))
          else if ty = ''oauth2'' then
            Some (OAuth2 (case jget ''flows'' scheme of Some f \<Rightarrow> f | None \<Rightarrow> JObj []))
          else if ty = ''openIdConnect'' then
            Some (OpenIdConnect (case str_field scheme ''openIdConnectUrl'' of Some u \<Rightarrow> u | None \<Rightarrow> []))
          else if ty = ''mutualTLS'' then Some MutualTls
          else None)"

definition parse_security_schemes :: "json \<Rightarrow> (bytes \<times> security_scheme) list" where
  "parse_security_schemes doc =
     (case security_schemes_of doc of
        None \<Rightarrow> []
      | Some m \<Rightarrow>
          fold (\<lambda>(name, scheme) out.
                  case parse_security_scheme name scheme of Some p \<Rightarrow> bt_insert name p out | None \<Rightarrow> out) m [])"

section \<open>Servers (lower/servers.rs)\<close>

definition parse_server :: "json \<Rightarrow> server option" where
  "parse_server v =
     (case str_field v ''url'' of
        None \<Rightarrow> None
      | Some u \<Rightarrow>
          Some \<lparr>srv_url_template = u,
            srv_variables =
              (case Option.bind (jget ''variables'' v) as_object of
                 None \<Rightarrow> []
               | Some vars \<Rightarrow>
                   fold (\<lambda>(k, w) m.
                     bt_insert k
                       \<lparr>sv_default = str_field w ''default'',
                        sv_enum_values = map_option strings (Option.bind (jget ''enum'' w) as_array)\<rparr> m)
                     vars []),
            srv_description = str_field v ''description''\<rparr>)"

definition effective_servers :: "json \<Rightarrow> json \<Rightarrow> json \<Rightarrow> server list" where
  "effective_servers doc path_item op =
     (case Option.bind
             (case jget ''servers'' op of
                Some l \<Rightarrow> Some l
              | None \<Rightarrow> (case jget ''servers'' path_item of Some l \<Rightarrow> Some l | None \<Rightarrow> jget ''servers'' doc))
             as_array of
        None \<Rightarrow> []
      | Some arr \<Rightarrow> List.map_filter parse_server arr)"

section \<open>Schemas of parts (lower/mod.rs)\<close>

definition apply_bundle ::
    "bundle_outcome \<Rightarrow> (bytes \<times> json) list \<Rightarrow> bool \<Rightarrow> (bytes list + json \<times> bool) \<times> (bytes \<times> json) list \<times> bool" where
  "apply_bundle bundled defs had_cycle =
     (let had_cycle' = (had_cycle \<or> bo_had_cycle bundled) in
      if bo_unresolved bundled \<noteq> [] then (Inl (bo_unresolved bundled), defs, had_cycle')
      else (let (schema, defs') = hoist_defs (bo_schema bundled) defs;
                (schema', leftover) = flatten_allof schema
            in (Inr (schema', leftover), defs', had_cycle')))"

definition note_schema :: "json \<Rightarrow> bool \<Rightarrow> draft \<Rightarrow> warning list" where
  "note_schema schema leftover_allof d =
     (if leftover_allof \<or> jget ''allOf'' schema \<noteq> None
      then [draft_warn d AllOfUnflattened ''allOf retained''] else [])
     @ (if jget ''discriminator'' schema \<noteq> None
        then [draft_warn d Discriminator ''discriminator present''] else [])"

text \<open>
  Bundling a schema into the sink, as parameters and bodies do: the warnings of the schema go to
  the sink, or the error blocks the operation under the given message.
\<close>

definition sink_schema ::
    "lower_env \<Rightarrow> json \<Rightarrow> draft \<Rightarrow> json \<Rightarrow> bytes \<Rightarrow> schema_sink \<Rightarrow> retriever \<Rightarrow>
       json option \<times> schema_sink \<times> retriever" where
  "sink_schema env doc d schema message sink rt =
     (let (bundled, rt') = bundle_schema (le_bundle env) (le_order env) doc schema rt;
          (r, defs', cyc') = apply_bundle bundled (si_defs sink) (si_had_cycle sink);
          sink' = sink\<lparr>si_defs := defs', si_had_cycle := cyc'\<rparr>
      in case r of
           Inr (s, leftover) \<Rightarrow>
             (Some s, sink'\<lparr>si_warnings := si_warnings sink' @ note_schema s leftover d\<rparr>, rt')
         | Inl _ \<Rightarrow>
             (None, sink_warn (draft_warn d UnresolvedRef message) (sink_block UnresolvedRef sink'), rt'))"

section \<open>Parameters (lower/params.rs)\<close>

record params_out =
  po_ir_params :: "parameter list"
  po_path_bindings :: "arg_binding list"
  po_query_bindings :: "arg_binding list"
  po_header_bindings :: "arg_binding list"
  po_cookie_bindings :: "arg_binding list"

definition resolve_param ::
    "lower_env \<Rightarrow> json \<Rightarrow> draft \<Rightarrow> json \<Rightarrow> retriever \<Rightarrow> json \<times> warning list \<times> retriever" where
  "resolve_param env doc d raw rt =
     (case resolve_openapi_object (le_refs env) doc raw rt of
        (Inr v, rt') \<Rightarrow> (v, [], rt')
      | (Inl _, rt') \<Rightarrow> (raw, [draft_warn d UnresolvedRef ''unresolved parameter $ref''], rt'))"

definition same_parameter :: "json \<Rightarrow> json \<Rightarrow> bool" where
  "same_parameter a b \<longleftrightarrow>
     str_field a ''name'' = str_field b ''name'' \<and> str_field a ''in'' = str_field b ''in''"

fun merge_path_params ::
    "lower_env \<Rightarrow> json \<Rightarrow> draft \<Rightarrow> json list \<Rightarrow> json list \<times> warning list \<times> retriever \<Rightarrow>
       json list \<times> warning list \<times> retriever" where
  "merge_path_params env doc d [] acc = acc"
| "merge_path_params env doc d (p # ps) (out, ws, rt) =
     (case resolve_param env doc d p rt of
        (v, w, rt') \<Rightarrow> merge_path_params env doc d ps (out @ [v], ws @ w, rt'))"

fun merge_op_params ::
    "lower_env \<Rightarrow> json \<Rightarrow> draft \<Rightarrow> json list \<Rightarrow> json list \<times> warning list \<times> retriever \<Rightarrow>
       json list \<times> warning list \<times> retriever" where
  "merge_op_params env doc d [] acc = acc"
| "merge_op_params env doc d (p # ps) (out, ws, rt) =
     (case resolve_param env doc d p rt of
        (v, w, rt') \<Rightarrow>
          merge_op_params env doc d ps
            (filter (\<lambda>e. \<not> same_parameter e v) out @ [v], ws @ w, rt'))"

definition merge_parameters ::
    "lower_env \<Rightarrow> json \<Rightarrow> draft \<Rightarrow> retriever \<Rightarrow> json list \<times> warning list \<times> retriever" where
  "merge_parameters env doc d rt =
     (let params_of = \<lambda>v. (case Option.bind (jget ''parameters'' v) as_array of Some a \<Rightarrow> a | None \<Rightarrow> [])
      in merge_op_params env doc d (params_of (dr_op d))
           (merge_path_params env doc d (params_of (dr_path_item d)) ([], [], rt)))"

definition location_of :: "bytes \<Rightarrow> param_location option" where
  "location_of l =
     (if l = ''path'' then Some Loc_Path else if l = ''header'' then Some Loc_Header
      else if l = ''cookie'' then Some Loc_Cookie else if l = ''query'' then Some Loc_Query else None)"

definition push_binding :: "param_location \<Rightarrow> arg_binding \<Rightarrow> params_out \<Rightarrow> params_out" where
  "push_binding loc b out =
     (case loc of
        Loc_Path \<Rightarrow> out\<lparr>po_path_bindings := po_path_bindings out @ [b]\<rparr>
      | Loc_Query \<Rightarrow> out\<lparr>po_query_bindings := po_query_bindings out @ [b]\<rparr>
      | Loc_Header \<Rightarrow> out\<lparr>po_header_bindings := po_header_bindings out @ [b]\<rparr>
      | Loc_Cookie \<Rightarrow> out\<lparr>po_cookie_bindings := po_cookie_bindings out @ [b]\<rparr>)"

text \<open>The end of the loop body: the parameter, its binding and its property are recorded.\<close>

definition record_param ::
    "json \<Rightarrow> bytes \<Rightarrow> param_location \<Rightarrow> bool \<Rightarrow> style \<Rightarrow> bool \<Rightarrow> json \<Rightarrow> params_out \<Rightarrow> schema_sink \<Rightarrow>
       params_out \<times> schema_sink" where
  "record_param param name loc required st expl schema out sink =
     (let b = \<lparr>ab_arg_name = name, ab_wire_name = name, ab_style = st, ab_explode = expl,
                ab_required = required\<rparr>;
          p = \<lparr>pm_name = name, pm_location = loc, pm_required = required, pm_schema = schema,
                pm_style = st, pm_explode = expl, pm_description = str_field param ''description''\<rparr>
      in (push_binding loc b (out\<lparr>po_ir_params := po_ir_params out @ [p]\<rparr>),
          sink\<lparr>si_properties := obj_insert name schema (si_properties sink),
               si_required := si_required sink @ (if required then [name] else [])\<rparr>))"

text \<open>The part of the loop body for a style that is supported, for a known location, and all of it.\<close>

definition lower_styled ::
    "lower_env \<Rightarrow> json \<Rightarrow> draft \<Rightarrow> json \<Rightarrow> bytes \<Rightarrow> param_location \<Rightarrow> bool \<Rightarrow> style \<Rightarrow> bool \<Rightarrow>
       params_out \<times> schema_sink \<times> retriever \<Rightarrow> params_out \<times> schema_sink \<times> retriever" where
  "lower_styled env doc d param name loc required st expl acc =
     (case acc of (out, sink, rt) \<Rightarrow>
      let schema = (case jget ''schema'' param of Some s \<Rightarrow> s | None \<Rightarrow> JObj [(''type'', JStr ''string'')])
      in case sink_schema env doc d schema (''unresolved $ref in parameter '' @ name) sink rt of
           (None, sink', rt') \<Rightarrow> (out, sink', rt')
         | (Some s, sink', rt') \<Rightarrow>
             (case record_param param name loc required st expl s out sink' of
                (out', sink'') \<Rightarrow> (out', sink'', rt')))"

definition lower_located ::
    "lower_env \<Rightarrow> json \<Rightarrow> draft \<Rightarrow> json \<Rightarrow> bytes \<Rightarrow> bytes \<Rightarrow> param_location \<Rightarrow> bool \<Rightarrow>
       params_out \<times> schema_sink \<times> retriever \<Rightarrow> params_out \<times> schema_sink \<times> retriever" where
  "lower_located env doc d param name location loc required acc =
     (case parse_style location (str_field param ''style'') (Option.bind (jget ''explode'' param) as_bool) of
        Unsupported blocking_if_required \<Rightarrow>
          (case acc of (out, sink, rt) \<Rightarrow>
           let block = (blocking_if_required \<and> required);
               w = (draft_warn d UnsupportedStyle (''unsupported style for parameter '' @ name))
                     \<lparr>w_severity := (if block then Blocking else Warn)\<rparr>
           in (out, sink_warn w (if block then sink_block UnsupportedStyle sink else sink), rt))
      | Style_Ok st expl \<Rightarrow> lower_styled env doc d param name loc required st expl acc)"

definition lower_parameter ::
    "lower_env \<Rightarrow> json \<Rightarrow> draft \<Rightarrow> json \<Rightarrow> params_out \<times> schema_sink \<times> retriever \<Rightarrow>
       params_out \<times> schema_sink \<times> retriever" where
  "lower_parameter env doc d param acc =
     (case acc of (out, sink, rt) \<Rightarrow>
      let name = (case str_field param ''name'' of Some n \<Rightarrow> n | None \<Rightarrow> []);
          location = (case str_field param ''in'' of Some l \<Rightarrow> l | None \<Rightarrow> [])
      in if name = [] then
           (out, sink_warn (draft_warn d UnresolvedRef ''parameter is missing name (unresolved $ref?)'')
                   (sink_block UnresolvedRef sink), rt)
         else
           (let required = (bool_field param ''required'' \<or> location = ''path'') in
            case location_of location of
              None \<Rightarrow>
                (out, (if required \<or> location = [] then sink_block UnsupportedStyle else (\<lambda>s. s))
                   (sink_warn (draft_warn d UnsupportedStyle
                      (''unknown parameter in='' @ le_debug env location @ '' for '' @ name)) sink), rt)
            | Some loc \<Rightarrow> lower_located env doc d param name location loc required acc))"

definition empty_params :: params_out where
  "empty_params = \<lparr>po_ir_params = [], po_path_bindings = [], po_query_bindings = [],
     po_header_bindings = [], po_cookie_bindings = []\<rparr>"

definition lower_parameters ::
    "lower_env \<Rightarrow> json \<Rightarrow> draft \<Rightarrow> schema_sink \<Rightarrow> retriever \<Rightarrow> params_out \<times> schema_sink \<times> retriever" where
  "lower_parameters env doc d sink rt =
     (case merge_parameters env doc d rt of
        (params, ws, rt') \<Rightarrow>
          fold (lower_parameter env doc d) params
            (empty_params, sink\<lparr>si_warnings := si_warnings sink @ ws\<rparr>, rt'))"

section \<open>The request body (lower/body.rs)\<close>

text \<open>
  The search for a free argument name counts \<open>n\<close> up from 2; the counter is a \<open>u32\<close>, and a free
  name comes before it wraps as there are fewer properties than numbers. The fuel is one more
  than the properties.
\<close>

fun free_name :: "nat \<Rightarrow> (bytes \<times> json) list \<Rightarrow> bytes \<Rightarrow> nat \<Rightarrow> bytes option" where
  "free_name 0 props key n = None"
| "free_name (Suc fuel) props key n =
     (let candidate = ''body_'' @ key @ ''_'' @ show_nat n in
      if \<not> has_key candidate props then Some candidate else free_name fuel props key (n + 1))"

definition body_arg :: "(bytes \<times> json) list \<Rightarrow> bytes \<Rightarrow> bytes option" where
  "body_arg props key =
     (if \<not> has_key key props then Some key
      else if \<not> has_key (''body_'' @ key) props then Some (''body_'' @ key)
      else free_name (Suc (length props)) props key 2)"

text \<open>The properties of the body, folded into the arguments.\<close>

fun fold_props ::
    "draft \<Rightarrow> (bytes \<times> json) list \<Rightarrow> schema_sink \<Rightarrow> folded_key list \<Rightarrow> (schema_sink \<times> folded_key list) option" where
  "fold_props d [] sink keys = Some (sink, keys)"
| "fold_props d ((key, v) # props) sink keys =
     (case body_arg (si_properties sink) key of
        None \<Rightarrow> None
      | Some arg \<Rightarrow>
          (let sink1 = (if has_key key (si_properties sink)
                        then sink_warn (draft_warn d NameCollision
                               (''body property '' @ key @ '' collided; renamed '' @ arg)) sink
                        else sink)
           in fold_props d props
                (sink1\<lparr>si_properties := obj_insert arg v (si_properties sink1)\<rparr>)
                (keys @ [\<lparr>fk_arg_name = arg, fk_wire_name = key\<rparr>])))"

definition require_folded :: "folded_key list \<Rightarrow> json \<Rightarrow> bytes list \<Rightarrow> bytes list" where
  "require_folded keys r required =
     (case as_str r of
        None \<Rightarrow> required
      | Some wname \<Rightarrow>
          (let name = (case find (\<lambda>k. fk_wire_name k = wname) keys of
                         Some k \<Rightarrow> fk_arg_name k | None \<Rightarrow> wname)
           in if name \<in> set required then required else required @ [name]))"

definition body_is_object :: "json \<Rightarrow> bool" where
  "body_is_object schema \<longleftrightarrow>
     str_field schema ''type'' = Some ''object'' \<or> jget ''properties'' schema \<noteq> None"

definition fold_body ::
    "draft \<Rightarrow> bytes \<Rightarrow> bool \<Rightarrow> json \<Rightarrow> schema_sink \<Rightarrow>
       ((request_body option \<times> body_binding option) \<times> schema_sink) option" where
  "fold_body d content_type required schema sink =
     (case fold_props d
             (case Option.bind (jget ''properties'' schema) as_object of Some p \<Rightarrow> p | None \<Rightarrow> []) sink [] of
        None \<Rightarrow> None
      | Some (sink1, keys) \<Rightarrow>
          (let sink2 =
             (case Option.bind (jget ''required'' schema) as_array of
                None \<Rightarrow> sink1
              | Some reqs \<Rightarrow> sink1\<lparr>si_required := fold (require_folded keys) reqs (si_required sink1)\<rparr>)
           in Some
             ((Some \<lparr>rb_required = required, rb_content_type = content_type, rb_schema = schema,
                 rb_folded_into_input = True\<rparr>,
               Some \<lparr>bb_mode = Fold, bb_content_type = content_type, bb_arg_name = None,
                 bb_folded_keys = keys\<rparr>), sink2)))"

definition whole_body ::
    "bytes \<Rightarrow> bool \<Rightarrow> bool \<Rightarrow> json \<Rightarrow> schema_sink \<Rightarrow>
       (request_body option \<times> body_binding option) \<times> schema_sink" where
  "whole_body content_type is_form required schema sink =
     ((Some \<lparr>rb_required = required, rb_content_type = content_type, rb_schema = schema,
         rb_folded_into_input = False\<rparr>,
       Some \<lparr>bb_mode = (if is_form then FormUrlencoded else Whole), bb_content_type = content_type,
         bb_arg_name = Some ''body'', bb_folded_keys = []\<rparr>),
      sink\<lparr>si_properties := obj_insert ''body'' schema (si_properties sink),
           si_required := si_required sink @ (if required then [''body''] else [])\<rparr>)"

text \<open>\<open>None\<close> would be a name search that ran out of fuel.\<close>

definition lower_body ::
    "lower_env \<Rightarrow> json \<Rightarrow> draft \<Rightarrow> schema_sink \<Rightarrow> retriever \<Rightarrow>
       ((request_body option \<times> body_binding option) \<times> schema_sink \<times> retriever) option" where
  "lower_body env doc d sink rt =
     (case jget ''requestBody'' (dr_op d) of
        None \<Rightarrow> Some ((None, None), sink, rt)
      | Some body \<Rightarrow>
          (case Option.bind (jget ''content'' body) as_object of
             None \<Rightarrow>
               Some ((None, None),
                 sink_warn (draft_warn d MissingRequestSchema ''request body has no content'') sink, rt)
           | Some content \<Rightarrow>
               (case select_json_content content of
                  None \<Rightarrow> Some ((None, None), sink, rt)
                | Some (content_type, media) \<Rightarrow>
                    (let required = bool_field body ''required'';
                         schema = jget ''schema'' media;
                         sink1 = (if schema = None \<and> required
                                  then sink_warn (draft_warn d MissingRequestSchema
                                         ''body required but schema absent'') sink
                                  else sink);
                         schema1 = (case schema of Some s \<Rightarrow> s | None \<Rightarrow> JObj [(''type'', JStr ''object'')])
                     in case sink_schema env doc d schema1 ''unresolved $ref in request body'' sink1 rt of
                          (None, sink2, rt') \<Rightarrow> Some ((None, None), sink2, rt')
                        | (Some s, sink2, rt') \<Rightarrow>
                            (let is_form = (media_type_base content_type = FORM_URLENCODED) in
                             if body_is_object s \<and> \<not> is_form
                             then map_option (\<lambda>(b, sink3). (b, sink3, rt')) (fold_body d content_type required s sink2)
                             else (let (b, sink3) = whole_body content_type is_form required s sink2
                                   in Some (b, sink3, rt')))))))"

section \<open>Responses (lower/responses.rs)\<close>

record responses_out =
  ro_responses :: "(bytes \<times> response_body) list"
  ro_output_schema :: "json option"
  ro_json_response :: bool
  ro_blocking :: "warning_code list option"

record responses_acc =
  ra_out :: "(bytes \<times> response_body) list"
  ra_json_ok :: bool
  ra_blocking :: "warning_code list"
  ra_defs :: "(bytes \<times> json) list"
  ra_had_cycle :: bool

definition lower_response ::
    "lower_env \<Rightarrow> json \<Rightarrow> draft \<Rightarrow> bytes \<times> json \<Rightarrow> responses_acc \<times> warning list \<times> retriever \<Rightarrow>
       responses_acc \<times> warning list \<times> retriever" where
  "lower_response env doc d response acc =
     (case (response, acc) of ((status, resp), (ra, ws, rt)) \<Rightarrow>
      let selected = Option.bind (Option.bind (jget ''content'' resp) as_object) select_json_content;
          ra1 = (if selected \<noteq> None
                 then ra\<lparr>ra_json_ok := ra_json_ok ra \<or> starts_with status ''2'' \<or> status = ''default''\<rparr> else ra);
          put = \<lambda>ct s r. r\<lparr>ra_out := bt_insert status \<lparr>rsb_content_type = ct, rsb_schema = s\<rparr> (ra_out r)\<rparr>
      in case selected of
           None \<Rightarrow> (put None None ra1, ws, rt)
         | Some (ct, media) \<Rightarrow>
             (case jget ''schema'' media of
                None \<Rightarrow> (put (Some ct) None ra1, ws, rt)
              | Some s \<Rightarrow>
                  (let (bundled, rt') = bundle_schema (le_bundle env) (le_order env) doc s rt;
                       (r, defs', cyc') = apply_bundle bundled (ra_defs ra1) (ra_had_cycle ra1);
                       ra2 = ra1\<lparr>ra_defs := defs', ra_had_cycle := cyc'\<rparr>
                   in case r of
                        Inr (schema, leftover) \<Rightarrow>
                          (put (Some ct) (Some schema) ra2, ws @ note_schema schema leftover d, rt')
                      | Inl _ \<Rightarrow>
                          (put (Some ct) None (ra2\<lparr>ra_blocking := ra_blocking ra2 @ [UnresolvedRef]\<rparr>),
                           ws @ [draft_warn d UnresolvedRef (''unresolved $ref in response '' @ status)], rt'))))"

definition graft_response :: "(bytes \<times> json) list \<Rightarrow> response_body \<Rightarrow> response_body" where
  "graft_response defs b = b\<lparr>rsb_schema := map_option (\<lambda>s. graft_defs s defs) (rsb_schema b)\<rparr>"

text \<open>The schema of 200, of 201, or of the first 2xx status that has one.\<close>

definition output_schema_of :: "(bytes \<times> response_body) list \<Rightarrow> json option" where
  "output_schema_of out =
     (case List.map_filter (\<lambda>k. Option.bind (map_of out k) rsb_schema)
             ([''200'', ''201''] @ filter (\<lambda>k. starts_with k ''2'') (map fst out)) of
        s # _ \<Rightarrow> Some s
      | [] \<Rightarrow> None)"

definition lower_responses ::
    "lower_env \<Rightarrow> json \<Rightarrow> draft \<Rightarrow> warning list \<Rightarrow> retriever \<Rightarrow> responses_out \<times> warning list \<times> retriever" where
  "lower_responses env doc d ws rt =
     (case Option.bind (jget ''responses'' (dr_op d)) as_object of
        None \<Rightarrow>
          (\<lparr>ro_responses = [], ro_output_schema = None, ro_json_response = False, ro_blocking = None\<rparr>, ws, rt)
      | Some responses \<Rightarrow>
          (case fold (lower_response env doc d) responses
                  (\<lparr>ra_out = [], ra_json_ok = False, ra_blocking = [], ra_defs = [], ra_had_cycle = False\<rparr>, ws, rt) of
             (ra, ws', rt') \<Rightarrow>
               (let out = map (\<lambda>(k, b). (k, graft_response (ra_defs ra) b)) (ra_out ra)
                in (\<lparr>ro_responses = out, ro_output_schema = output_schema_of out,
                     ro_json_response = ra_json_ok ra,
                     ro_blocking = (if ra_blocking ra = [] then None else Some (ra_blocking ra))\<rparr>, ws', rt'))))"

section \<open>Folding is total and keeps the arguments apart\<close>

lemma free_name_Some: "free_name fuel props key n = Some a \<Longrightarrow> \<not> has_key a props"
  by (induction fuel props key n rule: free_name.induct) (auto simp: Let_def split: if_splits)

lemma free_name_None:
  "free_name fuel props key n = None \<Longrightarrow> i < fuel \<Longrightarrow> has_key (''body_'' @ key @ ''_'' @ show_nat (n + i)) props"
proof (induction fuel props key n arbitrary: i rule: free_name.induct)
  case (2 fuel props key n)
  then show ?case by (cases i) (auto simp: Let_def split: if_splits)
qed simp

lemma free_name_total: "length props < fuel \<Longrightarrow> free_name fuel props key n \<noteq> None"
proof
  assume l: "length props < fuel" and none: "free_name fuel props key n = None"
  let ?f = "\<lambda>i. ''body_'' @ key @ ''_'' @ show_nat (n + i)"
  have "?f ` {..<fuel} \<subseteq> fst ` set props"
  proof
    fix x assume "x \<in> ?f ` {..<fuel}"
    then obtain i where "x = ?f i" "i < fuel" by auto
    with free_name_None [OF none, of i] have "map_of props x \<noteq> None" unfolding has_key_def by blast
    then show "x \<in> fst ` set props" by (simp add: map_of_eq_None_iff del: not_None_eq)
  qed
  then have "card (?f ` {..<fuel}) \<le> card (fst ` set props)" by (rule card_mono [OF finite_imageI [OF finite_set]])
  also have "\<dots> \<le> length props" by (metis card_length length_map set_map)
  finally have "card (?f ` {..<fuel}) \<le> length props" .
  moreover have "inj_on ?f {..<fuel}" by (rule inj_onI) simp
  ultimately show False using l by (simp add: card_image)
qed

lemma body_arg_total: "\<exists>a. body_arg props key = Some a \<and> \<not> has_key a props"
proof (cases "has_key key props \<and> has_key (''body_'' @ key) props")
  case True
  obtain a where "free_name (Suc (length props)) props key 2 = Some a"
    using free_name_total [of props "Suc (length props)" key 2] by auto
  with free_name_Some [OF this] True show ?thesis by (simp add: body_arg_def)
qed (auto simp: body_arg_def)

lemma has_key_insert [simp]: "has_key j (obj_insert k v m) \<longleftrightarrow> j = k \<or> has_key j m"
  by (simp add: has_key_def)

lemma fold_props_total: "\<exists>r. fold_props d props sink keys = Some r"
proof (induction props arbitrary: sink keys)
  case (Cons p props)
  obtain key v where p: "p = (key, v)" by (cases p)
  obtain a where "body_arg (si_properties sink) key = Some a" using body_arg_total by blast
  with Cons p show ?case by (simp add: Let_def)
qed simp

text \<open>The properties of a body get arguments of their own.\<close>

lemma fold_props_apart:
  assumes "fold_props d props sink keys = Some (sink', keys')"
  shows "(\<forall>k v. map_of (si_properties sink) k = Some v \<longrightarrow> map_of (si_properties sink') k = Some v)
    \<and> (\<exists>new. keys' = keys @ new \<and> map fk_wire_name new = map fst props
         \<and> distinct (map fk_arg_name new)
         \<and> (\<forall>a \<in> set (map fk_arg_name new). \<not> has_key a (si_properties sink))
         \<and> list_all2 (\<lambda>k p. map_of (si_properties sink') (fk_arg_name k) = Some (snd p)) new props)
    \<and> si_required sink' = si_required sink \<and> si_defs sink' = si_defs sink"
  using assms
proof (induction props arbitrary: sink keys)
  case (Cons p props)
  obtain key v where p: "p = (key, v)" by (cases p)
  obtain a where a: "body_arg (si_properties sink) key = Some a" "\<not> has_key a (si_properties sink)"
    using body_arg_total by blast
  define s1 where "s1 = (if has_key key (si_properties sink)
      then sink_warn (draft_warn d NameCollision (''body property '' @ key @ '' collided; renamed '' @ a)) sink else sink)"
  have s1: "si_properties s1 = si_properties sink" "si_required s1 = si_required sink" "si_defs s1 = si_defs sink"
    by (simp_all add: s1_def sink_warn_def)
  let ?s2 = "s1\<lparr>si_properties := obj_insert a v (si_properties s1)\<rparr>"
  let ?k = "\<lparr>fk_arg_name = a, fk_wire_name = key\<rparr>"
  have "fold_props d props ?s2 (keys @ [?k]) = Some (sink', keys')"
    using Cons.prems p a by (simp add: Let_def s1_def)
  from Cons.IH [OF this] obtain new where new:
    "\<forall>k w. map_of (si_properties ?s2) k = Some w \<longrightarrow> map_of (si_properties sink') k = Some w"
    "keys' = (keys @ [?k]) @ new" "map fk_wire_name new = map fst props" "distinct (map fk_arg_name new)"
    "\<forall>b \<in> set (map fk_arg_name new). \<not> has_key b (si_properties ?s2)"
    "list_all2 (\<lambda>k p. map_of (si_properties sink') (fk_arg_name k) = Some (snd p)) new props"
    "si_required sink' = si_required ?s2" "si_defs sink' = si_defs ?s2" by blast
  have keep: "\<forall>k w. map_of (si_properties sink) k = Some w \<longrightarrow> map_of (si_properties sink') k = Some w"
  proof (intro allI impI)
    fix k w
    assume "map_of (si_properties sink) k = Some w"
    moreover with a(2) have "k \<noteq> a" by (auto simp: has_key_def)
    ultimately have "map_of (si_properties ?s2) k = Some w" by (simp add: s1 del: map_of_eq_Some_iff)
    with new(1) show "map_of (si_properties sink') k = Some w" by blast
  qed
  have "map_of (si_properties sink') a = Some v" using new(1) by simp
  with keep new s1 p a(2) show ?case
    by (intro conjI exI [of _ "?k # new"]) (auto simp del: map_of_eq_Some_iff)
qed simp

lemma require_folded_grows: "set required \<subseteq> set (fold (require_folded keys) rs required)"
proof (induction rs arbitrary: required)
  case (Cons r rs)
  have "set required \<subseteq> set (require_folded keys r required)"
    by (auto simp: require_folded_def Let_def split: option.split)
  with Cons [of "require_folded keys r required"] show ?case by auto
qed simp

lemma require_folded_adds:
  assumes "JStr k \<in> set rs" "find (\<lambda>f. fk_wire_name f = k) keys = Some f"
  shows "fk_arg_name f \<in> set (fold (require_folded keys) rs required)"
  using assms(1)
proof (induction rs arbitrary: required)
  case (Cons r rs)
  show ?case
  proof (cases "r = JStr k")
    case True
    with assms(2) have "fk_arg_name f \<in> set (require_folded keys r required)"
      by (simp add: require_folded_def Let_def)
    then show ?thesis using require_folded_grows [of "require_folded keys r required" keys rs] by auto
  next
    case False
    with Cons show ?thesis by simp
  qed
qed simp

definition body_props :: "json \<Rightarrow> (bytes \<times> json) list" where
  "body_props schema = (case Option.bind (jget ''properties'' schema) as_object of Some p \<Rightarrow> p | None \<Rightarrow> [])"

definition sample_draft :: "(bytes \<times> json) list \<Rightarrow> draft" where
  "sample_draft op = \<lparr>dr_method = ''POST'', dr_path = ''/pets'', dr_operation_id = None, dr_summary = None,
     dr_description = None, dr_tags = [], dr_deprecated = False, dr_op = JObj op, dr_path_item = JObj [],
     dr_class = classify ''POST'' ''/pets'' None, dr_candidate_name = ''post_pets''\<rparr>"

definition sample_sink :: "(bytes \<times> json) list \<Rightarrow> schema_sink" where
  "sample_sink props = \<lparr>si_properties = props, si_required = [], si_defs = [], si_had_cycle = False,
     si_warnings = [], si_blocking = []\<rparr>"

text \<open>Folding a request body keeps its arguments apart: it always succeeds, each property of the
  body gets one argument with the property's schema, in order, the arguments are distinct and none
  is the argument of a parameter, the parameters' schemas and required names stay, and the
  argument of every required property of the body is required.\<close>

theorem folded_body_arguments_are_apart:
  assumes "distinct (map fst (body_props schema))"
  shows "\<exists>rb keys sink'.
      fold_body d content_type required schema sink
        = Some ((Some rb, Some \<lparr>bb_mode = Fold, bb_content_type = content_type, bb_arg_name = None,
            bb_folded_keys = keys\<rparr>), sink')
    \<and> map fk_wire_name keys = map fst (body_props schema)
    \<and> distinct (map fk_arg_name keys)
    \<and> (\<forall>a \<in> set (map fk_arg_name keys). \<not> has_key a (si_properties sink))
    \<and> list_all2 (\<lambda>k p. map_of (si_properties sink') (fk_arg_name k) = Some (snd p)) keys (body_props schema)
    \<and> (\<forall>k v. map_of (si_properties sink) k = Some v \<longrightarrow> map_of (si_properties sink') k = Some v)
    \<and> set (si_required sink) \<subseteq> set (si_required sink')
    \<and> (\<forall>k \<in> set keys. (\<exists>rs. jget ''required'' schema = Some (JArr rs) \<and> JStr (fk_wire_name k) \<in> set rs)
         \<longrightarrow> fk_arg_name k \<in> set (si_required sink'))"
proof -
  obtain sink1 keys where f: "fold_props d (body_props schema) sink [] = Some (sink1, keys)"
    using fold_props_total [of d "body_props schema" sink "[]"] by auto
  note apart = fold_props_apart [OF f, simplified append_Nil]
  define sink2 where "sink2 = (case Option.bind (jget ''required'' schema) as_array of
      None \<Rightarrow> sink1 | Some reqs \<Rightarrow> sink1\<lparr>si_required := fold (require_folded keys) reqs (si_required sink1)\<rparr>)"
  have s2: "si_properties sink2 = si_properties sink1" by (simp add: sink2_def split: option.split)
  have req: "set (si_required sink) \<subseteq> set (si_required sink2)"
    using apart require_folded_grows by (auto simp: sink2_def split: option.split)
  have wires: "map fk_wire_name keys = map fst (body_props schema)" using apart by auto
  have found: "find (\<lambda>f. fk_wire_name f = fk_wire_name k) keys = Some k" if "k \<in> set keys" for k
  proof -
    have "distinct (map fk_wire_name keys)" using wires assms by simp
    with that show ?thesis by (induction keys) auto
  qed
  have "fk_arg_name k \<in> set (si_required sink2)"
    if "k \<in> set keys" "jget ''required'' schema = Some (JArr rs)" "JStr (fk_wire_name k) \<in> set rs" for k rs
    using require_folded_adds [OF that(3) found [OF that(1)]] that(2) by (simp add: sink2_def)
  then have reqs: "\<forall>k \<in> set keys. (\<exists>rs. jget ''required'' schema = Some (JArr rs) \<and> JStr (fk_wire_name k) \<in> set rs)
      \<longrightarrow> fk_arg_name k \<in> set (si_required sink2)" by blast
  have "fold_body d content_type required schema sink
      = Some ((Some \<lparr>rb_required = required, rb_content_type = content_type, rb_schema = schema,
                 rb_folded_into_input = True\<rparr>,
               Some \<lparr>bb_mode = Fold, bb_content_type = content_type, bb_arg_name = None,
                 bb_folded_keys = keys\<rparr>), sink2)"
    using f by (simp add: fold_body_def sink2_def Let_def flip: body_props_def)
  with apart s2 req wires reqs show ?thesis by (auto simp del: map_of_eq_Some_iff)
qed

theorem folded_body_arguments_are_apart_witness:
  "\<exists>keys sink' b.
      fold_body (sample_draft []) ''application/json'' True
        (JObj [(''properties'', JObj [(''id'', JObj []), (''tag'', JNull)]), (''required'', JArr [JStr ''id''])])
        (sample_sink [(''id'', JNull)]) = Some ((b, Some \<lparr>bb_mode = Fold, bb_content_type = ''application/json'',
          bb_arg_name = None, bb_folded_keys = keys\<rparr>), sink')
    \<and> map fk_wire_name keys = [''id'', ''tag''] \<and> map_of (si_properties sink') ''id'' = Some JNull"
proof -
  let ?s = "JObj [(''properties'', JObj [(''id'', JObj []), (''tag'', JNull)]), (''required'', JArr [JStr ''id''])]"
  have p: "body_props ?s = [(''id'', JObj []), (''tag'', JNull)]" by (simp add: body_props_def)
  have "map_of (si_properties (sample_sink [(''id'', JNull)])) ''id'' = Some JNull" by (simp add: sample_sink_def)
  with folded_body_arguments_are_apart [of ?s "sample_draft []" "''application/json''" True "sample_sink [(''id'', JNull)]"]
  show ?thesis unfolding p by fastforce
qed

text \<open>Two things the schema of a body can do to a tool. A required name that is no property of the
  body becomes a required argument although the tool admits no argument of that name; and a body
  that is not an object takes the argument \<open>body\<close> even when a parameter has that name, whose
  schema it replaces.\<close>

theorem body_schema_breaks_arguments:
  "(case fold_body (sample_draft []) ''application/json'' True
      (JObj [(''type'', JStr ''object''), (''required'', JArr [JStr ''id''])]) (sample_sink []) of
      Some (_, sink') \<Rightarrow> si_properties sink' = [] \<and> si_required sink' = [''id'']
    | None \<Rightarrow> False)
   \<and> si_properties (snd (whole_body ''application/json'' False False (JObj [(''type'', JStr ''array'')])
        (sample_sink [(''body'', JObj [(''type'', JStr ''string'')])])))
     = [(''body'', JObj [(''type'', JStr ''array'')])]"
  by (simp add: fold_body_def body_props_def require_folded_def sample_sink_def whole_body_def obj_insert_def)

end
