(* ===== verification/Compile.thy ===== *)
theory Compile
  imports Lower_Parts Spec_Load
begin

text \<open>
  The compiler (\<open>crates/mcp-gateway-compile/src/lower/collect.rs\<close>, \<open>lower/mod.rs\<close>,
  \<open>compile.rs\<close>): the operations of a document are collected as drafts, named, lowered one by one
  into tools, and reported on. The counters are \<open>u32\<close>; the clock is a parameter.
\<close>

section \<open>Collecting (lower/collect.rs)\<close>

definition METHODS :: "bytes list" where [enum_defs]:
  "METHODS = [''get'', ''put'', ''post'', ''delete'', ''options'', ''head'', ''patch'', ''trace'']"

record lowering =
  lo_drafts :: "draft list"
  lo_warnings :: "warning list"
  lo_skipped :: "skipped_operation list"
  lo_operations_total :: "32 word"
  lo_seen_ids :: "bytes list"
  lo_retriever :: retriever

definition skip_op ::
    "bytes \<Rightarrow> bytes \<Rightarrow> bytes option \<Rightarrow> warning_code \<Rightarrow> bytes \<Rightarrow> lowering \<Rightarrow> lowering" where
  "skip_op method path operation_id code message lo =
     lo\<lparr>lo_warnings := lo_warnings lo @ [warn code operation_id (Some method) (Some path) message],
        lo_skipped := lo_skipped lo @
          [\<lparr>sk_method = method, sk_path = path, sk_operation_id = operation_id, sk_codes = [code]\<rparr>]\<rparr>"

definition count_op :: "lowering \<Rightarrow> lowering" where
  "count_op lo = lo\<lparr>lo_operations_total := lo_operations_total lo + 1\<rparr>"

definition is_json_object :: "json option \<Rightarrow> bool" where
  "is_json_object v \<longleftrightarrow> Option.bind v as_object \<noteq> None"

definition skip_webhooks :: "json \<Rightarrow> lowering \<Rightarrow> lowering" where
  "skip_webhooks doc lo =
     (case Option.bind (jget ''webhooks'' doc) as_object of
        None \<Rightarrow> lo
      | Some hooks \<Rightarrow>
          fold (\<lambda>(name, item). fold (\<lambda>method lo.
                  if is_json_object (jget method item)
                  then skip_op (to_upper method) (''webhooks/'' @ name) None Streaming
                         ''webhook is not compiled'' (count_op lo)
                  else lo) METHODS) hooks lo)"

text \<open>The responses with their references resolved, in order; the first failure ends the loop.\<close>

fun resolve_responses ::
    "ref_env \<Rightarrow> json \<Rightarrow> (bytes \<times> json) list \<Rightarrow> (bytes \<times> json) list \<Rightarrow> retriever \<Rightarrow>
       (bytes \<times> json) list option \<times> retriever" where
  "resolve_responses env doc [] out rt = (Some out, rt)"
| "resolve_responses env doc ((status, resp) # rest) out rt =
     (case resolve_openapi_object env doc resp rt of
        (Inl _, rt') \<Rightarrow> (None, rt')
      | (Inr v, rt') \<Rightarrow> resolve_responses env doc rest (obj_insert status v out) rt')"

definition obj_set :: "bytes \<Rightarrow> json \<Rightarrow> json \<Rightarrow> json" where
  "obj_set k v op = (case op of JObj m \<Rightarrow> JObj (obj_insert k v m) | other \<Rightarrow> other)"

text \<open>The two references an operation may hold: its request body and its responses.\<close>

definition resolve_op ::
    "ref_env \<Rightarrow> json \<Rightarrow> json \<Rightarrow> retriever \<Rightarrow> (bytes + json) \<times> retriever" where
  "resolve_op env doc op rt =
     (case (case jget ''requestBody'' op of
              None \<Rightarrow> (Inr op, rt)
            | Some body \<Rightarrow>
                (case resolve_openapi_object env doc body rt of
                   (Inr resolved, rt') \<Rightarrow> (Inr (obj_set ''requestBody'' resolved op), rt')
                 | (Inl _, rt') \<Rightarrow> (Inl ''unresolved requestBody $ref'', rt'))) of
        (Inl m, rt1) \<Rightarrow> (Inl m, rt1)
      | (Inr op1, rt1) \<Rightarrow>
          (case jget ''responses'' op1 of
             Some (JObj responses) \<Rightarrow>
               (case resolve_responses env doc responses [] rt1 of
                  (None, rt2) \<Rightarrow> (Inl ''unresolved response $ref'', rt2)
                | (Some r, rt2) \<Rightarrow> (Inr (obj_set ''responses'' (JObj r) op1), rt2))
           | _ \<Rightarrow> (Inr op1, rt1)))"

definition note_duplicate :: "bytes option \<Rightarrow> bytes \<Rightarrow> bytes \<Rightarrow> lowering \<Rightarrow> lowering" where
  "note_duplicate operation_id method path lo =
     (case operation_id of
        None \<Rightarrow> lo
      | Some i \<Rightarrow>
          if i \<in> set (lo_seen_ids lo)
          then lo\<lparr>lo_warnings := lo_warnings lo @
                 [warn DuplicateOperationId operation_id (Some method) (Some path) (''duplicate operationId '' @ i)]\<rparr>
          else lo\<lparr>lo_seen_ids := i # lo_seen_ids lo\<rparr>)"

definition push_draft :: "json \<Rightarrow> bytes \<Rightarrow> bytes \<Rightarrow> json \<Rightarrow> classification \<Rightarrow> lowering \<Rightarrow> lowering" where
  "push_draft op method path path_item cls lo =
     (let operation_id = str_field op ''operationId'';
          summary = str_field op ''summary'';
          description = str_field op ''description'';
          named = candidate_name \<lparr>ns_operation_id = operation_id, ns_summary = summary,
                    ns_description = description, ns_method = method, ns_path_template = path\<rparr>;
          lo1 = note_duplicate operation_id method path lo;
          lo2 = (if nt_source_kind named \<noteq> OperationId
                 then lo1\<lparr>lo_warnings := lo_warnings lo1 @
                        [warn MissingOperationId operation_id (Some method) (Some path)
                           ''no operationId; name synthesised'']\<rparr>
                 else lo1)
      in lo2\<lparr>lo_drafts := lo_drafts lo2 @
           [\<lparr>dr_method = method, dr_path = path, dr_operation_id = operation_id, dr_summary = summary,
             dr_description = description, dr_tags = string_array (jget ''tags'' op),
             dr_deprecated = bool_field op ''deprecated'', dr_op = op, dr_path_item = path_item,
             dr_class = cls, dr_candidate_name = nt_name named\<rparr>]\<rparr>)"

definition collect_op :: "ref_env \<Rightarrow> json \<Rightarrow> bytes \<Rightarrow> json \<Rightarrow> bytes \<Rightarrow> lowering \<Rightarrow> lowering" where
  "collect_op env doc path path_item meth lo =
     (if \<not> is_json_object (jget meth path_item) then lo
      else
        (let method = to_upper meth;
             op0 = the (jget meth path_item);
             lo1 = count_op lo
         in case resolve_op env doc op0 (lo_retriever lo1) of
              (Inl m, rt) \<Rightarrow>
                skip_op method path (str_field op0 ''operationId'') UnresolvedRef m (lo1\<lparr>lo_retriever := rt\<rparr>)
            | (Inr op, rt) \<Rightarrow>
                (let lo2 = lo1\<lparr>lo_retriever := rt\<rparr>;
                     operation_id = str_field op ''operationId'';
                     cls = classify method path operation_id
                 in if cl_skip cls
                    then skip_op method path operation_id UnsupportedMethod ''method is not compiled'' lo2
                    else if is_streaming op
                    then skip_op method path operation_id Streaming
                           ''streaming / websocket / event-stream is not compiled'' lo2
                    else if is_binary_body op
                    then skip_op method path operation_id BinaryBody
                           ''binary or multipart request body is not compiled'' lo2
                    else push_draft op method path path_item cls lo2)))"

definition collect_path :: "ref_env \<Rightarrow> json \<Rightarrow> bytes \<times> json \<Rightarrow> lowering \<Rightarrow> lowering" where
  "collect_path env doc entry lo =
     (case entry of (path, item) \<Rightarrow>
      case resolve_openapi_object env doc item (lo_retriever lo) of
        (Inl _, rt) \<Rightarrow>
          count_op (skip_op ''GET'' path None UnresolvedRef ''unresolved path item $ref'' (lo\<lparr>lo_retriever := rt\<rparr>))
      | (Inr path_item, rt) \<Rightarrow>
          fold (collect_op env doc path path_item) METHODS (lo\<lparr>lo_retriever := rt\<rparr>))"

definition collect :: "ref_env \<Rightarrow> json \<Rightarrow> retriever \<Rightarrow> lowering" where
  "collect env doc rt =
     (let lo = skip_webhooks doc
                 \<lparr>lo_drafts = [], lo_warnings = [], lo_skipped = [], lo_operations_total = 0,
                  lo_seen_ids = [], lo_retriever = rt\<rparr>
      in case Option.bind (jget ''paths'' doc) as_object of
           None \<Rightarrow> lo
         | Some paths \<Rightarrow> fold (collect_path env doc) paths lo)"

section \<open>Lowering an operation (lower/mod.rs)\<close>

definition operation_id :: "lower_env \<Rightarrow> bytes \<Rightarrow> bytes \<Rightarrow> bytes" where
  "operation_id env method path =
     ''op_'' @ take 16 (le_sha256_hex env (method @ [CHR 0x0A] @ path))"

definition title_case :: "bytes \<Rightarrow> bytes" where
  "title_case name =
     join_with '' ''
       (map (\<lambda>s. case s of [] \<Rightarrow> [] | c # cs \<Rightarrow> upper1 c # cs)
         (filter (\<lambda>s. s \<noteq> []) (split_by (\<lambda>c. c = CHR ''_'') name)))"

definition first_schema_name :: "json \<Rightarrow> bytes option" where
  "first_schema_name op =
     (case Option.bind
             (case json_pointer ''/requestBody/content/application~1json/schema/$ref'' op of
                Some v \<Rightarrow> Some v
              | None \<Rightarrow> json_pointer ''/responses/200/content/application~1json/schema/$ref'' op)
             as_str of
        None \<Rightarrow> None
      | Some r \<Rightarrow> Some (last (split_by (\<lambda>c. c = CHR ''/'') r)))"

definition skipped_with :: "draft \<Rightarrow> warning_code list \<Rightarrow> skipped_operation" where
  "skipped_with d codes =
     \<lparr>sk_method = dr_method d, sk_path = dr_path d, sk_operation_id = dr_operation_id d, sk_codes = codes\<rparr>"

definition input_schema_of :: "schema_sink \<Rightarrow> json" where
  "input_schema_of sink =
     JObj ([(''$schema'', JStr ''https://json-schema.org/draft/2020-12/schema''),
            (''type'', JStr ''object''), (''additionalProperties'', JBool False),
            (''properties'', JObj (si_properties sink)),
            (''required'', JArr (map JStr (si_required sink)))]
           @ (if si_defs sink = [] then [] else [(''$defs'', JObj (si_defs sink))]))"

definition tool_title :: "draft \<Rightarrow> bytes \<Rightarrow> bytes" where
  "tool_title d tool_name =
     (case dr_summary d of Some s \<Rightarrow> if s \<noteq> [] then s else title_case tool_name | None \<Rightarrow> title_case tool_name)"

definition tool_description :: "draft \<Rightarrow> bytes" where
  "tool_description d =
     (case (case dr_description d of Some s \<Rightarrow> if trim s \<noteq> [] then Some s else None | None \<Rightarrow> None) of
        Some s \<Rightarrow> s
      | None \<Rightarrow>
          (case dr_summary d of Some s \<Rightarrow> s | None \<Rightarrow> dr_method d @ '' '' @ dr_path d))"

text \<open>The warnings that follow the responses, in order.\<close>

definition late_warnings ::
    "draft \<Rightarrow> bytes \<Rightarrow> responses_out \<Rightarrow> server list \<Rightarrow> bool \<Rightarrow> warning list" where
  "late_warnings d tool_name ro servers auth_ok =
     (if ro_json_response ro then [] else [draft_warn d NoJsonResponse ''success response is not JSON''])
     @ (if ro_output_schema ro = None then [draft_warn d MissingResponseSchema ''no JSON 2xx schema''] else [])
     @ (if servers = [] then [draft_warn d NoServers ''no effective servers''] else [])
     @ (if auth_ok then [] else [draft_warn d AuthUnsupported ''security scheme is not bearer/apiKey header''])
     @ (if dr_deprecated d then [draft_warn d Deprecated ''operation is deprecated''] else [])
     @ (if cl_destructive (dr_class d) then [draft_warn d Destructive ''classified as destructive''] else [])
     @ (if length (tool_description d) < 24 \<or> tool_description d = tool_name
        then [draft_warn d WeakDescription ''weak description''] else [])"

definition build_operation ::
    "lower_env \<Rightarrow> json \<Rightarrow> draft \<Rightarrow> bytes \<Rightarrow> params_out \<Rightarrow> request_body option \<Rightarrow> body_binding option \<Rightarrow>
       json \<Rightarrow> responses_out \<Rightarrow> operation" where
  "build_operation env doc d tool_name po rb bb input_schema ro =
     (let security = effective_security doc (dr_op d);
          auth_ok = security_supported doc security
      in \<lparr>op_id = operation_id env (dr_method d) (dr_path d),
          op_tool = \<lparr>mt_name = tool_name, mt_title = tool_title d tool_name,
            mt_description = tool_description d, mt_input_schema = input_schema,
            mt_output_schema = ro_output_schema ro, mt_annotations = annotations (dr_class d)\<rparr>,
          op_source = \<lparr>os_operation_id = dr_operation_id d, os_method = dr_method d,
            os_path_template = dr_path d\<rparr>,
          op_http = \<lparr>hb_method = dr_method d, hb_path_template = dr_path d,
            hb_effective_servers = effective_servers doc (dr_path_item d) (dr_op d),
            hb_parameters = po_ir_params po, hb_request_body = rb, hb_responses = ro_responses ro\<rparr>,
          op_security = security, op_tags = dr_tags d,
          op_category = category (dr_tags d) (dr_path d) (first_schema_name (dr_op d)),
          op_deprecated = dr_deprecated d, op_destructive = cl_destructive (dr_class d),
          op_enabled_by_default = (\<not> cl_destructive (dr_class d) \<and> \<not> dr_deprecated d \<and> auth_ok),
          op_execution_plan = \<lparr>ep_method = dr_method d, ep_path_template = dr_path d,
            ep_path_params = po_path_bindings po, ep_query_params = po_query_bindings po,
            ep_header_params = po_header_bindings po, ep_cookie_params = po_cookie_bindings po,
            ep_body = bb, ep_accept = ''application/json'', ep_timeout_ms = 15000\<rparr>\<rparr>)"

definition empty_sink :: "warning list \<Rightarrow> schema_sink" where
  "empty_sink ws = \<lparr>si_properties = [], si_required = [], si_defs = [], si_had_cycle = False,
     si_warnings = ws, si_blocking = []\<rparr>"

definition lower_operation ::
    "lower_env \<Rightarrow> json \<Rightarrow> draft \<Rightarrow> bytes \<Rightarrow> warning list \<Rightarrow> retriever \<Rightarrow>
       ((skipped_operation + operation) \<times> warning list \<times> retriever) option" where
  "lower_operation env doc d tool_name ws rt =
     (case lower_parameters env doc d (empty_sink ws) rt of (po, sink1, rt1) \<Rightarrow>
      case lower_body env doc d sink1 rt1 of
        None \<Rightarrow> None
      | Some ((rb, bb), sink, rt2) \<Rightarrow>
          if si_blocking sink \<noteq> []
          then Some (Inl (skipped_with d (si_blocking sink)), si_warnings sink, rt2)
          else
            (let ws1 = si_warnings sink @
                   (if si_had_cycle sink then [draft_warn d RecursiveSchema ''circular $ref left in $defs''] else []);
                 input_schema = input_schema_of sink;
                 ws2 = ws1 @
                   (if 64 * 1024 < length (le_show env input_schema)
                    then [draft_warn d LargeSchema ''inlined input_schema exceeds 64 KiB''] else [])
             in case lower_responses env doc d ws2 rt2 of
                  (ro, ws3, rt3) \<Rightarrow>
                    (case ro_blocking ro of
                       Some codes \<Rightarrow> Some (Inl (skipped_with d codes), ws3, rt3)
                     | None \<Rightarrow>
                         Some (Inr (build_operation env doc d tool_name po rb bb input_schema ro),
                           ws3 @ late_warnings d tool_name ro
                                  (effective_servers doc (dr_path_item d) (dr_op d))
                                  (security_supported doc (effective_security doc (dr_op d))),
                           rt3))))"

section \<open>The compiler (compile.rs)\<close>

text \<open>What \<open>lower_operation\<close> does to every draft in turn, with its name.\<close>

fun lower_all ::
    "lower_env \<Rightarrow> json \<Rightarrow> (draft \<times> bytes) list \<Rightarrow> warning list \<Rightarrow> retriever \<Rightarrow>
       (operation list \<times> skipped_operation list \<times> warning list) option" where
  "lower_all env doc [] ws rt = Some ([], [], ws)"
| "lower_all env doc ((d, name) # rest) ws rt =
     (case lower_operation env doc d name ws rt of
        None \<Rightarrow> None
      | Some (r, ws1, rt1) \<Rightarrow>
          (case lower_all env doc rest ws1 rt1 of
             None \<Rightarrow> None
           | Some (ops, skips, ws2) \<Rightarrow>
               (case r of
                  Inr op \<Rightarrow> Some (op # ops, skips, ws2)
                | Inl s \<Rightarrow> Some (ops, s # skips, ws2))))"

definition renamed_warnings :: "(draft \<times> bytes) list \<Rightarrow> warning list" where
  "renamed_warnings named =
     List.map_filter (\<lambda>(d, n). if n \<noteq> dr_candidate_name d
                          then Some (draft_warn d NameCollision (''name collision; assigned '' @ n)) else None) named"

definition explosion_warnings :: "32 word \<Rightarrow> warning list" where
  "explosion_warnings compiled =
     (let w = warn ToolExplosion None None None (show_nat (unat compiled) @ '' tools compiled'')
      in if 128 < compiled then [w]
         else if 64 < compiled then [w\<lparr>w_severity := Info\<rparr>] else [])"

definition draft_key :: "draft \<Rightarrow> bytes \<times> bytes \<times> bytes" where
  "draft_key d = (dr_method d, dr_path d, (case dr_operation_id d of Some i \<Rightarrow> i | None \<Rightarrow> []))"

record compile_env =
  ce_load :: load_env
  ce_lower :: lower_env
  ce_typed_3_0 :: "bytes \<Rightarrow> spec_format \<Rightarrow> json \<Rightarrow> bytes + unit"
  ce_typed_3_1 :: "json \<Rightarrow> bytes + unit"
  ce_join_url :: "url \<Rightarrow> bytes \<Rightarrow> bytes + url"
  ce_elapsed_ms :: "64 word"

definition api_servers :: "compile_env \<Rightarrow> json \<Rightarrow> bytes option \<Rightarrow> server list" where
  "api_servers env doc document_url =
     (let parsed = (case Option.bind (jget ''servers'' doc) as_array of
                      Some a \<Rightarrow> List.map_filter parse_server a | None \<Rightarrow> []);
          servers = (if parsed = [] \<and> document_url \<noteq> None
                     then [\<lparr>srv_url_template = ''/'', srv_variables = [], srv_description = None\<rparr>]
                     else parsed)
      in map (\<lambda>s. s\<lparr>srv_url_template :=
             resolve_server_url (ln_parse_url (ce_load env)) (ce_join_url env) (ln_show_url (ce_load env))
               document_url (srv_url_template s)\<rparr>) servers)"

text \<open>\<open>Retriever::with_safety\<close>: references are checked under the caller's options.\<close>

definition with_safety :: "lower_env \<Rightarrow> safety_opts \<Rightarrow> lower_env" where
  "with_safety lenv safety = lenv\<lparr>le_refs := (le_refs lenv)\<lparr>re_safety := safety\<rparr>\<rparr>"

definition compile_doc ::
    "compile_env \<Rightarrow> nat option \<Rightarrow> safety_opts \<Rightarrow> loaded_spec \<Rightarrow> json \<Rightarrow> bytes \<Rightarrow> compile_bundle option" where
  "compile_doc env max_ops safety loaded doc spec_version =
     (let lenv = with_safety (ce_lower env) safety;
          lo = collect (le_refs lenv) doc retriever_new;
          drafts = (case max_ops of Some n \<Rightarrow> take n (lo_drafts lo) | None \<Rightarrow> lo_drafts lo)
      in case uniquify (map dr_candidate_name drafts) (map draft_key drafts) of
           None \<Rightarrow> None
         | Some names \<Rightarrow>
             (let named = zip drafts names in
              case lower_all lenv doc named (lo_warnings lo @ renamed_warnings named) (lo_retriever lo) of
                None \<Rightarrow> None
              | Some (operations, extra_skipped, ws) \<Rightarrow>
                  (let skipped = lo_skipped lo @ extra_skipped;
                       compiled = of_nat (length operations) :: 32 word;
                       title = (case Option.bind (json_pointer ''/info/title'' doc) as_str of
                                  Some t \<Rightarrow> t | None \<Rightarrow> ''Untitled'');
                       description = Option.bind (json_pointer ''/info/description'' doc) as_str;
                       document_url = (if sm_kind (ls_source loaded) = Url_Source
                                       then Some (sm_locator (ls_source loaded)) else None)
                   in Some
                     \<lparr>cb_api = \<lparr>na_ir_version = IR_VERSION,
                        na_gateway = \<lparr>gm_title = title, gm_description = description,
                          gm_spec_version = spec_version, gm_source = ls_source loaded\<rparr>,
                        na_servers = api_servers env doc document_url,
                        na_security_schemes = parse_security_schemes doc,
                        na_operations = operations\<rparr>,
                      cb_report = \<lparr>ar_spec_title = title, ar_spec_version = ls_spec_version loaded,
                        ar_operations_total = lo_operations_total lo, ar_operations_compiled = compiled,
                        ar_operations_skipped = of_nat (length skipped),
                        ar_tools_enabled_by_default = of_nat (length (filter op_enabled_by_default operations)),
                        ar_compile_ms = ce_elapsed_ms env,
                        ar_warnings = ws @ explosion_warnings compiled, ar_skipped = skipped\<rparr>\<rparr>)))"

definition compile_loaded ::
    "compile_env \<Rightarrow> nat option \<Rightarrow> safety_opts \<Rightarrow> loaded_spec \<Rightarrow> (compile_error + compile_bundle) option" where
  "compile_loaded env max_ops safety loaded =
     (case parse_to_value (ce_load env) (ce_typed_3_0 env) (ce_typed_3_1 env) (ls_bytes loaded)
             (ls_format loaded) (ls_family loaded) of
        Inl e \<Rightarrow> Some (Inl (Err_Parse e))
      | Inr (doc, spec_version) \<Rightarrow> map_option Inr (compile_doc env max_ops safety loaded doc spec_version))"

definition compile_with ::
    "compile_env \<Rightarrow> spec_source \<Rightarrow> nat option \<Rightarrow> safety_opts \<Rightarrow> (compile_error + compile_bundle) option" where
  "compile_with env source max_ops opts =
     (case load_with (ce_load env) source opts of
        Inl e \<Rightarrow> Some (Inl (Err_Load e))
      | Inr loaded \<Rightarrow> compile_loaded env max_ops opts loaded)"

section \<open>What is collected\<close>

definition plain_draft :: "draft \<Rightarrow> bool" where
  "plain_draft d \<longleftrightarrow>
     dr_class d = classify (dr_method d) (dr_path d) (dr_operation_id d) \<and> \<not> cl_skip (dr_class d)
     \<and> \<not> is_streaming (dr_op d) \<and> \<not> is_binary_body (dr_op d)
     \<and> dr_deprecated d = bool_field (dr_op d) ''deprecated'' \<and> name_ok (dr_candidate_name d)"

definition collected :: "lowering \<Rightarrow> bool" where
  "collected lo \<longleftrightarrow>
     lo_operations_total lo = of_nat (length (lo_drafts lo) + length (lo_skipped lo))
     \<and> (\<forall>d \<in> set (lo_drafts lo). plain_draft d)"

lemma collected_skip: "collected lo \<Longrightarrow> collected (skip_op m p i c msg (count_op (lo\<lparr>lo_retriever := rt\<rparr>)))"
  "collected lo \<Longrightarrow> collected (count_op (skip_op m p i c msg (lo\<lparr>lo_retriever := rt\<rparr>)))"
  "collected lo \<Longrightarrow> collected (skip_op m p i c msg (count_op lo))"
  "collected lo \<Longrightarrow> collected (skip_op m p i c msg ((count_op lo)\<lparr>lo_retriever := rt\<rparr>))"
  by (simp_all add: collected_def skip_op_def count_op_def)

lemma note_duplicate_fields:
  "lo_drafts (note_duplicate i m p lo) = lo_drafts lo" "lo_skipped (note_duplicate i m p lo) = lo_skipped lo"
  "lo_operations_total (note_duplicate i m p lo) = lo_operations_total lo"
  by (simp_all add: note_duplicate_def split: option.split)

lemma collected_push:
  assumes "collected lo" "\<not> is_streaming op" "\<not> is_binary_body op"
    "cls = classify method path (str_field op ''operationId'')" "\<not> cl_skip cls"
  shows "collected (push_draft op method path item cls ((count_op lo)\<lparr>lo_retriever := rt\<rparr>))"
  using assms candidate_name_shape
  by (auto simp: collected_def push_draft_def count_op_def Let_def note_duplicate_fields plain_draft_def)

lemma collected_op: "collected lo \<Longrightarrow> collected (collect_op env doc path item meth lo)"
  by (auto simp: collect_op_def Let_def collected_skip collected_push split: prod.split sum.split)

lemma collected_retriever [simp]: "collected (lo\<lparr>lo_retriever := rt\<rparr>) = collected lo"
  by (simp add: collected_def)

lemma collected_path: "collected lo \<Longrightarrow> collected (collect_path env doc entry lo)"
  unfolding collect_path_def
  by (auto simp: collected_skip split: prod.split sum.split
      intro!: fold_invariant [where P = collected and Q = "\<lambda>_. True"] collected_op)

lemma collected_collect: "collected (collect env doc rt)"
proof -
  have skips: "collected (skip_webhooks doc lo)" if "collected lo" for lo
    using that unfolding skip_webhooks_def
    by (auto simp: collected_skip split: option.split prod.split
        intro!: fold_invariant [where P = collected and Q = "\<lambda>_. True"])
  have start: "collected \<lparr>lo_drafts = [], lo_warnings = [], lo_skipped = [], lo_operations_total = 0,
      lo_seen_ids = [], lo_retriever = rt\<rparr>" by (simp add: collected_def)
  show ?thesis
    unfolding collect_def Let_def
    by (auto split: option.split intro!: skips [OF start] collected_path
        fold_invariant [where P = collected and Q = "\<lambda>_. True"])
qed

section \<open>What is lowered\<close>

lemma lower_body_total: "\<exists>r. lower_body env doc d sink rt = Some r"
proof -
  have "\<exists>r. fold_body d ct req schema s = Some r" for ct req schema s
    using fold_props_total by (auto simp: fold_body_def split: option.split)
  then show ?thesis
    by (auto simp: lower_body_def Let_def split: option.split prod.split)
qed

lemma lower_operation_total: "\<exists>r. lower_operation env doc d n ws rt = Some r"
proof -
  obtain po sink1 rt1 where p: "lower_parameters env doc d (empty_sink ws) rt = (po, sink1, rt1)"
    by (cases "lower_parameters env doc d (empty_sink ws) rt") auto
  obtain rb bb sink rt2 where b: "lower_body env doc d sink1 rt1 = Some ((rb, bb), sink, rt2)"
    using lower_body_total [of env doc d sink1 rt1] by auto
  show ?thesis unfolding lower_operation_def p prod.case b option.case Let_def
    by (auto split: prod.split option.split)
qed

lemma lower_all_total: "\<exists>r. lower_all env doc named ws rt = Some r"
proof (induction named arbitrary: ws rt)
  case (Cons p named)
  obtain d n where p: "p = (d, n)" by (cases p)
  obtain r ws1 rt1 where l: "lower_operation env doc d n ws rt = Some (r, ws1, rt1)"
    using lower_operation_total [of env doc d n ws rt] by auto
  from Cons [of ws1 rt1] obtain a b c where "lower_all env doc named ws1 rt1 = Some (a, b, c)" by auto
  with p l show ?case by (cases r) simp_all
qed simp

text \<open>How a tool stands to the draft it was lowered from.\<close>

definition lowered_from :: "lower_env \<Rightarrow> json \<Rightarrow> draft \<Rightarrow> bytes \<Rightarrow> operation \<Rightarrow> bool" where
  "lowered_from env doc d name op \<longleftrightarrow>
     mt_name (op_tool op) = name
     \<and> op_security op = effective_security doc (dr_op d)
     \<and> op_destructive op = cl_destructive (dr_class d) \<and> op_deprecated op = dr_deprecated d
     \<and> mt_annotations (op_tool op) = annotations (dr_class d)
     \<and> ep_method (op_execution_plan op) = dr_method d \<and> ep_path_template (op_execution_plan op) = dr_path d
     \<and> (op_enabled_by_default op \<longleftrightarrow>
          \<not> op_destructive op \<and> \<not> op_deprecated op \<and> security_supported doc (op_security op))"

lemma lower_operation_from:
  "lower_operation env doc d n ws rt = Some (Inr op, ws', rt') \<Longrightarrow> lowered_from env doc d n op"
  by (auto simp: lower_operation_def lowered_from_def build_operation_def Let_def
      split: prod.splits option.splits if_splits)

lemma lower_all_from:
  "lower_all env doc named ws rt = Some (ops, skips, ws') \<Longrightarrow>
     length ops + length skips = length named
     \<and> (\<exists>sub. subseq sub named \<and> list_all2 (\<lambda>p op. lowered_from env doc (fst p) (snd p) op) sub ops)"
proof (induction env doc named ws rt arbitrary: ops skips ws' rule: lower_all.induct)
  case (2 env doc d name rest ws rt)
  from "2.prems" obtain r ws1 rt1 ops1 skips1 where l: "lower_operation env doc d name ws rt = Some (r, ws1, rt1)"
    "lower_all env doc rest ws1 rt1 = Some (ops1, skips1, ws')"
    "case r of Inr op \<Rightarrow> ops = op # ops1 \<and> skips = skips1 | Inl s \<Rightarrow> ops = ops1 \<and> skips = s # skips1"
    by (auto split: option.splits prod.splits sum.splits)
  from "2.IH" [OF l(1) refl refl l(2)] obtain sub where
    s: "length ops1 + length skips1 = length rest" "subseq sub rest"
      "list_all2 (\<lambda>p op. lowered_from env doc (fst p) (snd p) op) sub ops1" by blast
  show ?case
  proof (cases r)
    case (Inr op)
    with l lower_operation_from have "lowered_from env doc d name op" by blast
    with l(3) Inr s show ?thesis by (auto intro!: exI [of _ "(d, name) # sub"])
  qed (use l s in \<open>auto intro!: exI [of _ sub]\<close>)
qed simp

lemma compile_docE:
  assumes "compile_doc env max_ops safety loaded doc ver = Some b"
  obtains drafts names ops skips ws where
    "drafts = (case max_ops of
       Some n \<Rightarrow> take n (lo_drafts (collect (le_refs (with_safety (ce_lower env) safety)) doc retriever_new))
     | None \<Rightarrow> lo_drafts (collect (le_refs (with_safety (ce_lower env) safety)) doc retriever_new))"
    "uniquify (map dr_candidate_name drafts) (map draft_key drafts) = Some names"
    "lower_all (with_safety (ce_lower env) safety) doc (zip drafts names)
       (lo_warnings (collect (le_refs (with_safety (ce_lower env) safety)) doc retriever_new)
         @ renamed_warnings (zip drafts names))
       (lo_retriever (collect (le_refs (with_safety (ce_lower env) safety)) doc retriever_new))
     = Some (ops, skips, ws)"
    "na_operations (cb_api b) = ops"
    "ar_operations_total (cb_report b)
       = lo_operations_total (collect (le_refs (with_safety (ce_lower env) safety)) doc retriever_new)"
    "ar_operations_compiled (cb_report b) = of_nat (length ops)"
    "ar_skipped (cb_report b)
       = lo_skipped (collect (le_refs (with_safety (ce_lower env) safety)) doc retriever_new) @ skips"
    "ar_operations_skipped (cb_report b) = of_nat (length (ar_skipped (cb_report b)))"
    "ar_tools_enabled_by_default (cb_report b) = of_nat (length (filter op_enabled_by_default ops))"
  using assms that unfolding compile_doc_def Let_def
  by (auto split: option.splits prod.splits)

lemma drafts_plain:
  "d \<in> set (case max_ops of Some n \<Rightarrow> take n (lo_drafts (collect env doc rt)) | None \<Rightarrow> lo_drafts (collect env doc rt))
     \<Longrightarrow> plain_draft d"
  using collected_collect [of env doc rt] by (auto simp: collected_def split: option.splits dest: in_set_takeD)

lemma drafts_nameable:
  assumes "\<forall>d \<in> set drafts. plain_draft d" "length drafts < 2 ^ 30"
  shows "nameable (map draft_key drafts) (map dr_candidate_name drafts)"
  using assms by (auto simp: nameable_def plain_draft_def name_ok_def)

lemma lowered_names:
  "list_all2 (\<lambda>p op. lowered_from env doc (fst p) (snd p) op) sub ops \<Longrightarrow>
     map (\<lambda>op. mt_name (op_tool op)) ops = map snd sub"
  by (induction rule: list_all2_induct) (auto simp: lowered_from_def)

lemma set_subseq: "subseq xs ys \<Longrightarrow> set xs \<subseteq> set ys"
  by (induction rule: list_emb.induct) auto

lemma distinct_subseq: "subseq xs ys \<Longrightarrow> distinct ys \<Longrightarrow> distinct xs"
  by (induction rule: list_emb.induct) (auto dest: set_subseq)

lemma assign_length: "assign jobs taken result = Some r \<Longrightarrow> length r = length result"
  by (induction jobs taken result rule: assign.induct) (auto split: option.splits)

lemma uniquify_length: "uniquify cands keys = Some r \<Longrightarrow> length r = length cands"
  by (auto simp: uniquify_def split: if_splits dest: assign_length)

text \<open>C29: the report accounts for every operation: without a limit, the operations counted in the
  document are the compiled ones and the skipped ones together, the counters being \<open>u32\<close>, and both
  counters are those of the lists in the bundle.\<close>

theorem every_operation_is_accounted_for:
  assumes "compile_doc env None safety loaded doc ver = Some b"
  shows "ar_operations_total (cb_report b) = ar_operations_compiled (cb_report b) + ar_operations_skipped (cb_report b)
    \<and> ar_operations_compiled (cb_report b) = of_nat (length (na_operations (cb_api b)))
    \<and> ar_operations_skipped (cb_report b) = of_nat (length (ar_skipped (cb_report b)))"
  using assms
proof (rule compile_docE)
  fix drafts names ops skips ws
  let ?lo = "collect (le_refs (with_safety (ce_lower env) safety)) doc retriever_new"
  assume d: "drafts = (case None of Some n \<Rightarrow> take n (lo_drafts ?lo) | None \<Rightarrow> lo_drafts ?lo)"
    and u: "uniquify (map dr_candidate_name drafts) (map draft_key drafts) = Some names"
    and l: "lower_all (with_safety (ce_lower env) safety) doc (zip drafts names)
       (lo_warnings ?lo @ renamed_warnings (zip drafts names)) (lo_retriever ?lo) = Some (ops, skips, ws)"
    and b: "na_operations (cb_api b) = ops" "ar_operations_total (cb_report b) = lo_operations_total ?lo"
      "ar_operations_compiled (cb_report b) = of_nat (length ops)"
      "ar_skipped (cb_report b) = lo_skipped ?lo @ skips"
      "ar_operations_skipped (cb_report b) = of_nat (length (ar_skipped (cb_report b)))"
  have "length names = length drafts" using uniquify_length [OF u] by simp
  with lower_all_from [OF l] have "length ops + length skips = length drafts" by simp
  moreover have "lo_operations_total ?lo = of_nat (length drafts + length (lo_skipped ?lo))"
    using collected_collect d by (simp add: collected_def)
  ultimately show ?thesis using b by (simp flip: of_nat_add) (metis add.assoc add.commute)
qed

text \<open>C28: a tool is on by default exactly when it is safe to be: every compiled tool comes from a draft of
  the document that is neither streamed nor binary and has a compiled method, and it is enabled
  exactly when it is not classified as destructive, not deprecated, and its security is none or
  has an alternative of supported schemes only; the report counts the enabled ones.\<close>

theorem default_tools_are_safe:
  assumes "compile_doc env max_ops safety loaded doc ver = Some b"
  shows "(\<forall>op \<in> set (na_operations (cb_api b)).
     \<exists>d \<in> set (lo_drafts (collect (le_refs (with_safety (ce_lower env) safety)) doc retriever_new)).
       ep_method (op_execution_plan op) = dr_method d \<and> ep_path_template (op_execution_plan op) = dr_path d
       \<and> \<not> is_streaming (dr_op d) \<and> \<not> is_binary_body (dr_op d)
       \<and> \<not> cl_skip (classify (dr_method d) (dr_path d) (dr_operation_id d))
       \<and> op_destructive op = cl_destructive (classify (dr_method d) (dr_path d) (dr_operation_id d))
       \<and> op_deprecated op = bool_field (dr_op d) ''deprecated''
       \<and> op_security op = effective_security doc (dr_op d)
       \<and> (op_enabled_by_default op \<longleftrightarrow>
            \<not> op_destructive op \<and> \<not> op_deprecated op \<and> security_supported doc (op_security op)))
    \<and> ar_tools_enabled_by_default (cb_report b)
        = of_nat (length (filter op_enabled_by_default (na_operations (cb_api b))))"
  using assms
proof (rule compile_docE)
  fix drafts names ops skips ws
  let ?env = "with_safety (ce_lower env) safety"
  let ?lo = "collect (le_refs ?env) doc retriever_new"
  assume d: "drafts = (case max_ops of Some n \<Rightarrow> take n (lo_drafts ?lo) | None \<Rightarrow> lo_drafts ?lo)"
    and l: "lower_all ?env doc (zip drafts names)
       (lo_warnings ?lo @ renamed_warnings (zip drafts names)) (lo_retriever ?lo) = Some (ops, skips, ws)"
    and b: "na_operations (cb_api b) = ops"
      "ar_tools_enabled_by_default (cb_report b) = of_nat (length (filter op_enabled_by_default ops))"
  from lower_all_from [OF l] obtain sub where sub: "subseq sub (zip drafts names)"
    "list_all2 (\<lambda>p op. lowered_from ?env doc (fst p) (snd p) op) sub ops" by blast
  have from_draft: "\<exists>d \<in> set drafts. \<exists>n. lowered_from ?env doc d n op" if "op \<in> set ops" for op
  proof -
    from that sub(2) obtain p where "p \<in> set sub" "lowered_from ?env doc (fst p) (snd p) op"
      unfolding list_all2_conv_all_nth by (metis in_set_conv_nth)
    moreover from this(1) sub(1) have "fst p \<in> set drafts"
      using set_zip_leftD [of "fst p" "snd p" drafts names] by (auto dest: set_subseq)
    ultimately show ?thesis by blast
  qed
  have sub_drafts: "set drafts \<subseteq> set (lo_drafts ?lo)" by (auto simp: d split: option.splits dest: in_set_takeD)
  show ?thesis
  proof (intro conjI ballI)
    fix op assume "op \<in> set (na_operations (cb_api b))"
    with b(1) have "op \<in> set ops" by simp
    from from_draft [OF this] obtain d n where dn: "d \<in> set drafts" "lowered_from ?env doc d n op" by blast
    with drafts_plain d have "plain_draft d" by blast
    with dn sub_drafts show "\<exists>d \<in> set (lo_drafts ?lo).
       ep_method (op_execution_plan op) = dr_method d \<and> ep_path_template (op_execution_plan op) = dr_path d
       \<and> \<not> is_streaming (dr_op d) \<and> \<not> is_binary_body (dr_op d)
       \<and> \<not> cl_skip (classify (dr_method d) (dr_path d) (dr_operation_id d))
       \<and> op_destructive op = cl_destructive (classify (dr_method d) (dr_path d) (dr_operation_id d))
       \<and> op_deprecated op = bool_field (dr_op d) ''deprecated''
       \<and> op_security op = effective_security doc (dr_op d)
       \<and> (op_enabled_by_default op \<longleftrightarrow>
            \<not> op_destructive op \<and> \<not> op_deprecated op \<and> security_supported doc (op_security op))"
      by (intro bexI [of _ d]) (auto simp: plain_draft_def lowered_from_def)
  qed (use b in simp)
qed

lemma compiled_names:
  assumes b: "compile_doc env max_ops safety loaded doc ver = Some b"
    and few: "length (lo_drafts (collect (le_refs (with_safety (ce_lower env) safety)) doc retriever_new)) < 2 ^ 30"
  shows "distinct (map (\<lambda>op. mt_name (op_tool op)) (na_operations (cb_api b)))"
  using b
proof (rule compile_docE)
  fix drafts names ops skips ws
  let ?env = "with_safety (ce_lower env) safety"
  let ?lo = "collect (le_refs ?env) doc retriever_new"
  assume d: "drafts = (case max_ops of Some n \<Rightarrow> take n (lo_drafts ?lo) | None \<Rightarrow> lo_drafts ?lo)"
    and u: "uniquify (map dr_candidate_name drafts) (map draft_key drafts) = Some names"
    and l: "lower_all ?env doc (zip drafts names)
       (lo_warnings ?lo @ renamed_warnings (zip drafts names)) (lo_retriever ?lo) = Some (ops, skips, ws)"
    and ops: "na_operations (cb_api b) = ops"
  have "length drafts < 2 ^ 30" using few by (auto simp: d split: option.split)
  then have "nameable (map draft_key drafts) (map dr_candidate_name drafts)"
    using drafts_plain unfolding d by (intro drafts_nameable) blast+
  then have "distinct names" using u by (rule unique_names.named_distinct)
  from lower_all_from [OF l] obtain sub where sub: "subseq sub (zip drafts names)"
    "list_all2 (\<lambda>p op. lowered_from ?env doc (fst p) (snd p) op) sub ops" by blast
  have "subseq (map snd sub) (map snd (zip drafts names))" by (rule subseq_map [OF sub(1)])
  moreover have "distinct (map snd (zip drafts names))"
    using \<open>distinct names\<close> by (simp add: map_snd_zip_take)
  ultimately have "distinct (map snd sub)" using distinct_subseq by blast
  with lowered_names [OF sub(2)] ops show ?thesis by simp
qed

text \<open>C26: compiling ends, and no two tools of a bundle have the same name: for a document of fewer than
  \<open>2 ^ 30\<close> operations every loop of the compiler finishes, whatever the parsers, the servers and
  the bundler answer, and the tools' names are distinct.\<close>

theorem compiling_ends_with_distinct_names:
  assumes "length (lo_drafts (collect (le_refs (with_safety (ce_lower env) safety)) doc retriever_new)) < 2 ^ 30"
  shows "\<exists>b. compile_doc env max_ops safety loaded doc ver = Some b
    \<and> distinct (map (\<lambda>op. mt_name (op_tool op)) (na_operations (cb_api b)))"
proof -
  let ?env = "with_safety (ce_lower env) safety"
  let ?lo = "collect (le_refs ?env) doc retriever_new"
  let ?drafts = "case max_ops of Some n \<Rightarrow> take n (lo_drafts ?lo) | None \<Rightarrow> lo_drafts ?lo"
  have small: "length ?drafts < 2 ^ 30" using assms by (auto split: option.split)
  have ok: "nameable (map draft_key ?drafts) (map dr_candidate_name ?drafts)"
    using drafts_nameable [OF _ small] drafts_plain by blast
  obtain names where u: "uniquify (map dr_candidate_name ?drafts) (map draft_key ?drafts) = Some names"
    using unique_names.named [OF ok] by blast
  obtain b where b: "compile_doc env max_ops safety loaded doc ver = Some b"
  proof -
    obtain ops skips ws where l: "lower_all ?env doc (zip ?drafts names)
       (lo_warnings ?lo @ renamed_warnings (zip ?drafts names)) (lo_retriever ?lo) = Some (ops, skips, ws)"
      using lower_all_total [of ?env doc "zip ?drafts names"] by (metis prod_cases3)
    show ?thesis
      by (rule that) (unfold compile_doc_def Let_def u option.case l prod.case, rule refl)
  qed
  then show ?thesis using compiled_names [OF _ assms] by blast
qed

section \<open>A small document\<close>

definition sample_compile :: compile_env where
  "sample_compile =
     \<lparr>ce_load = sample_load,
      ce_lower = \<lparr>le_bundle = (\<lambda>s rt. (Inr s, rt)), le_order = sorted_list_of_set,
        le_refs = sample_env sample_reply, le_debug = (\<lambda>s. s), le_show = (\<lambda>_. []),
        le_sha256_hex = (\<lambda>_. ''0123456789abcdef0123'')\<rparr>,
      ce_typed_3_0 = (\<lambda>_ _ _. Inr ()), ce_typed_3_1 = (\<lambda>_. Inr ()),
      ce_join_url = (\<lambda>u _. Inr u), ce_elapsed_ms = 0\<rparr>"

definition sample_spec :: loaded_spec where
  "sample_spec = \<lparr>ls_bytes = ''{}'', ls_source = \<lparr>sm_kind = File, sm_locator = ''api.json'', sm_sha256 = ''00''\<rparr>,
     ls_format = Fmt_Json, ls_family = V3_0, ls_spec_version = ''3.0.3''\<rparr>"

definition one_op_doc :: json where
  "one_op_doc = JObj [(''paths'', JObj [(''/pets/{id}'', JObj [
     (''get'', JObj [(''operationId'', JStr ''getPet''),
        (''parameters'', JArr [JObj [(''name'', JStr ''id''), (''in'', JStr ''path'')]]),
        (''responses'', JObj [(''200'', JObj [])])]),
     (''trace'', JObj [])])])]"

abbreviation "sample_refs \<equiv> le_refs (with_safety (ce_lower sample_compile) safety_default)"

lemma sample_collect:
  "length (lo_drafts (collect sample_refs one_op_doc retriever_new)) = 1
   \<and> length (lo_skipped (collect sample_refs one_op_doc retriever_new)) = 1"
  by code_simp

theorem compiling_ends_with_distinct_names_witness:
  "\<exists>b. compile_doc sample_compile None safety_default sample_spec one_op_doc ''3.0.3'' = Some b
     \<and> distinct (map (\<lambda>op. mt_name (op_tool op)) (na_operations (cb_api b)))"
  by (rule compiling_ends_with_distinct_names) (simp add: sample_collect)

lemma sample_compiles:
  "map_option (\<lambda>b. (map (\<lambda>op. (mt_name (op_tool op), op_enabled_by_default op)) (na_operations (cb_api b)),
       map sk_codes (ar_skipped (cb_report b))))
     (compile_doc sample_compile None safety_default sample_spec one_op_doc ''3.0.3'')
   = Some ([(''get_pet'', True)], [[UnsupportedMethod]])"
  by code_simp

theorem every_operation_is_accounted_for_witness:
  "\<exists>b. compile_doc sample_compile None safety_default sample_spec one_op_doc ''3.0.3'' = Some b
     \<and> ar_operations_total (cb_report b) = ar_operations_compiled (cb_report b) + ar_operations_skipped (cb_report b)"
proof -
  obtain b where "compile_doc sample_compile None safety_default sample_spec one_op_doc ''3.0.3'' = Some b"
    using sample_compiles by auto
  with every_operation_is_accounted_for [OF this] show ?thesis by blast
qed

theorem default_tools_are_safe_witness:
  "\<exists>b. compile_doc sample_compile None safety_default sample_spec one_op_doc ''3.0.3'' = Some b
     \<and> length (na_operations (cb_api b)) = 1 \<and> ar_tools_enabled_by_default (cb_report b) = 1
     \<and> (\<forall>op \<in> set (na_operations (cb_api b)). \<not> op_destructive op)"
proof -
  obtain b where b: "compile_doc sample_compile None safety_default sample_spec one_op_doc ''3.0.3'' = Some b"
    "map (\<lambda>op. (mt_name (op_tool op), op_enabled_by_default op)) (na_operations (cb_api b)) = [(''get_pet'', True)]"
    using sample_compiles by auto
  then obtain op where op: "na_operations (cb_api b) = [op]" "op_enabled_by_default op" by auto
  from default_tools_are_safe [OF b(1)] op b(1) show ?thesis by auto
qed

section \<open>Arguments and the input schema\<close>

definition bindings :: "params_out \<Rightarrow> arg_binding list" where
  "bindings po = po_path_bindings po @ po_query_bindings po @ po_header_bindings po @ po_cookie_bindings po"

definition bound :: "arg_binding list \<Rightarrow> schema_sink \<Rightarrow> bool" where
  "bound bs sink \<longleftrightarrow>
     (\<forall>b \<in> set bs. has_key (ab_arg_name b) (si_properties sink)
        \<and> (ab_required b \<longrightarrow> ab_arg_name b \<in> set (si_required sink)))"

definition grows :: "schema_sink \<Rightarrow> schema_sink \<Rightarrow> bool" where
  "grows s s' \<longleftrightarrow> (\<forall>k. has_key k (si_properties s) \<longrightarrow> has_key k (si_properties s')) \<and> set (si_required s) \<subseteq> set (si_required s')"

lemma grows_refl [simp]: "grows s s"
  by (simp add: grows_def)

lemma bound_grows: "bound bs s \<Longrightarrow> grows s s' \<Longrightarrow> bound bs s'"
  by (auto simp: bound_def grows_def)

lemma grows_same: "si_properties s' = si_properties s \<Longrightarrow> si_required s' = si_required s \<Longrightarrow> grows s s'"
  by (simp add: grows_def)

lemma sink_schema_grows: "sink_schema env doc d schema m s rt = (r, s', rt') \<Longrightarrow> grows s s'"
  by (rule grows_same) (auto simp: sink_schema_def sink_warn_def sink_block_def Let_def split: prod.splits sum.splits)

definition params_ok :: "params_out \<times> schema_sink \<times> retriever \<Rightarrow> bool" where
  "params_ok acc \<longleftrightarrow>
     (case acc of (po, sink, rt) \<Rightarrow> bound (bindings po) sink \<and> (\<forall>b \<in> set (po_path_bindings po). ab_required b))"

lemma params_ok_sink: "params_ok (po, s, rt) \<Longrightarrow> grows s s' \<Longrightarrow> params_ok (po, s', rt')"
  by (auto simp: params_ok_def intro: bound_grows)

lemma params_ok_record:
  assumes "params_ok (po, s, rt)" "record_param param name loc rq st expl schema po s = (po', s')"
    "loc = Loc_Path \<Longrightarrow> rq"
  shows "params_ok (po', s', rt')"
proof -
  have g: "grows s s'" using assms(2) by (auto simp: record_param_def grows_def Let_def)
  from assms(1) g have "bound (bindings po) s'" by (auto simp: params_ok_def intro: bound_grows)
  moreover have "has_key name (si_properties s')" "rq \<longrightarrow> name \<in> set (si_required s')"
    using assms(2) by (auto simp: record_param_def Let_def)
  ultimately show ?thesis
    using assms by (cases loc) (auto simp: params_ok_def bound_def bindings_def record_param_def push_binding_def Let_def)
qed

lemma params_ok_styled:
  assumes "params_ok acc" "loc = Loc_Path \<Longrightarrow> required"
  shows "params_ok (lower_styled env doc d param name loc required st expl acc)"
proof -
  obtain po s rt where acc: "acc = (po, s, rt)" by (cases acc)
  obtain r s1 rt1 where r: "sink_schema env doc d
      (case jget ''schema'' param of Some s \<Rightarrow> s | None \<Rightarrow> JObj [(''type'', JStr ''string'')])
      (''unresolved $ref in parameter '' @ name) s rt = (r, s1, rt1)"
    by (metis prod_cases3)
  then have ok1: "params_ok (po, s1, rt1)" by (rule params_ok_sink [OF assms(1) [unfolded acc] sink_schema_grows])
  show ?thesis
  proof (cases r)
    case (Some sc)
    obtain po' s2 where rec: "record_param param name loc required st expl sc po s1 = (po', s2)" by fastforce
    from params_ok_record [OF ok1 rec assms(2)] show ?thesis
      unfolding lower_styled_def acc prod.case Let_def r Some option.case rec .
  next
    case None
    show ?thesis unfolding lower_styled_def acc prod.case Let_def r None option.case by (rule ok1)
  qed
qed

lemma params_ok_located:
  assumes "params_ok acc" "loc = Loc_Path \<Longrightarrow> required"
  shows "params_ok (lower_located env doc d param name location loc required acc)"
proof (cases "parse_style location (str_field param ''style'') (Option.bind (jget ''explode'' param) as_bool)")
  case (Style_Ok st expl)
  with assms show ?thesis by (simp add: lower_located_def params_ok_styled)
next
  case (Unsupported b)
  obtain po s rt where acc: "acc = (po, s, rt)" by (cases acc)
  have "grows s (sink_warn w (if c then sink_block UnsupportedStyle s else s))" for w c
    by (rule grows_same) (simp_all add: sink_warn_def sink_block_def)
  with params_ok_sink [OF assms(1) [unfolded acc]] show ?thesis
    by (simp add: lower_located_def Unsupported acc Let_def)
qed

lemma params_ok_step: "params_ok acc \<Longrightarrow> params_ok (lower_parameter env doc d param acc)"
proof -
  assume ok: "params_ok acc"
  obtain po s rt where acc: "acc = (po, s, rt)" by (cases acc)
  have loc: "location_of l = Some Loc_Path \<Longrightarrow> l = ''path''" for l by (auto simp: location_of_def split: if_splits)
  have quiet: "params_ok (po, f (sink_warn w s), rt)" if "f = sink_block c \<or> f = (\<lambda>s. s)" for f c w
    by (rule params_ok_sink [OF ok [unfolded acc]], rule grows_same)
      (use that in \<open>auto simp: sink_warn_def sink_block_def\<close>)
  have block: "params_ok (po, sink_warn w (sink_block c s), rt)" for c w
    by (rule params_ok_sink [OF ok [unfolded acc]], rule grows_same) (simp_all add: sink_warn_def sink_block_def)
  define location where "location = (case str_field param ''in'' of Some l \<Rightarrow> l | None \<Rightarrow> [])"
  show ?thesis
  proof (cases "location_of location")
    case None
    then show ?thesis using quiet block
      by (auto simp: lower_parameter_def acc Let_def location_def split: option.split)
  next
    case (Some lc)
    with loc [of location] params_ok_located [OF ok] block show ?thesis
      by (auto simp: lower_parameter_def acc Let_def simp flip: location_def split: option.split)
  qed
qed

lemma lower_parameters_ok:
  assumes "lower_parameters env doc d sink rt = (po, sink', rt')"
  shows "params_ok (po, sink', rt')"
proof -
  obtain ps ws rt1 where m: "merge_parameters env doc d rt = (ps, ws, rt1)" by (metis prod_cases3)
  have "params_ok (fold (lower_parameter env doc d) ps (empty_params, sink\<lparr>si_warnings := si_warnings sink @ ws\<rparr>, rt1))"
    by (rule fold_invariant [where P = params_ok and Q = "\<lambda>_. True"])
      (simp_all add: params_ok_step, simp add: params_ok_def bound_def bindings_def empty_params_def)
  with assms m show ?thesis by (simp add: lower_parameters_def)
qed

definition body_args :: "body_binding option \<Rightarrow> bytes list" where
  "body_args bb =
     (case bb of
        None \<Rightarrow> []
      | Some b \<Rightarrow> (case bb_arg_name b of Some a \<Rightarrow> [a] | None \<Rightarrow> []) @ map fk_arg_name (bb_folded_keys b))"

lemma fold_body_grows:
  assumes "fold_body d ct r schema s = Some ((rb, bb), s')"
  shows "grows s s' \<and> (\<forall>a \<in> set (body_args bb). has_key a (si_properties s'))"
proof -
  from assms obtain s1 keys where f: "fold_props d (body_props schema) s [] = Some (s1, keys)"
    and s': "si_properties s' = si_properties s1" "set (si_required s1) \<subseteq> set (si_required s')"
    and bb: "body_args bb = map fk_arg_name keys"
    by (auto simp: fold_body_def body_args_def Let_def require_folded_grows split: option.splits prod.splits
        simp flip: body_props_def)
  note a = fold_props_apart [OF f, simplified append_Nil]
  have "has_key k (si_properties s')" if "has_key k (si_properties s)" for k
  proof -
    from that obtain v where "map_of (si_properties s) k = Some v" by (auto simp: has_key_def)
    with a have "map_of (si_properties s1) k = Some v" by blast
    then show ?thesis by (simp add: has_key_def s'(1) del: map_of_eq_Some_iff)
  qed
  moreover have "has_key (fk_arg_name k) (si_properties s')" if "k \<in> set keys" for k
  proof -
    from a have "list_all2 (\<lambda>k p. map_of (si_properties s1) (fk_arg_name k) = Some (snd p)) keys (body_props schema)" by blast
    with that show ?thesis unfolding list_all2_conv_all_nth has_key_lookup s'(1) by (metis in_set_conv_nth)
  qed
  moreover have "set (si_required s) \<subseteq> set (si_required s')" using a s'(2) by simp
  ultimately show ?thesis by (simp add: grows_def bb)
qed

lemma whole_body_grows:
  assumes "whole_body ct f r schema s = ((rb, bb), s')"
  shows "grows s s' \<and> (\<forall>a \<in> set (body_args bb). has_key a (si_properties s'))"
  using assms by (auto simp: whole_body_def grows_def body_args_def)

lemma grows_trans: "grows a b \<Longrightarrow> grows b c \<Longrightarrow> grows a c"
  by (auto simp: grows_def)

lemma lower_body_grows:
  assumes "lower_body env doc d s rt = Some ((rb, bb), s', rt')"
  shows "grows s s' \<and> (\<forall>a \<in> set (body_args bb). has_key a (si_properties s'))"
proof -
  have warned: "grows s (sink_warn w s)" for w by (rule grows_same) (simp_all add: sink_warn_def)
  let ?goal = "grows s s' \<and> (\<forall>a \<in> set (body_args bb). has_key a (si_properties s'))"
  have none: ?goal if "bb = None" "grows s s'" using that by (simp add: body_args_def)
  show ?thesis
  proof (cases "jget ''requestBody'' (dr_op d)")
    case None
    with assms none show ?thesis by (simp add: lower_body_def)
  next
    case body: (Some body)
    show ?thesis
    proof (cases "Option.bind (jget ''content'' body) as_object")
      case None
      with assms body none warned show ?thesis by (auto simp: lower_body_def)
    next
      case content: (Some content)
      show ?thesis
      proof (cases "select_json_content content")
        case None
        with assms body content none show ?thesis by (simp add: lower_body_def)
      next
        case (Some sel)
        obtain ct media where sel: "sel = (ct, media)" by (cases sel)
        define s1 where "s1 = (if jget ''schema'' media = None \<and> bool_field body ''required''
          then sink_warn (draft_warn d MissingRequestSchema ''body required but schema absent'') s else s)"
        obtain r s2 rt2 where r: "sink_schema env doc d
            (case jget ''schema'' media of Some s \<Rightarrow> s | None \<Rightarrow> JObj [(''type'', JStr ''object'')])
            ''unresolved $ref in request body'' s1 rt = (r, s2, rt2)" by (metis prod_cases3)
        have g: "grows s s2"
          by (rule grows_trans [OF _ sink_schema_grows [OF r]]) (use warned in \<open>simp add: s1_def\<close>)
        note unfolded = assms [unfolded lower_body_def body option.case content Some sel prod.case Let_def
            s1_def [symmetric] r]
        show ?thesis
        proof (cases r)
          case None
          with unfolded g none show ?thesis by simp
        next
          case (Some schema)
          from unfolded Some consider
            "fold_body d ct (bool_field body ''required'') schema s2 = Some ((rb, bb), s')"
            | "whole_body ct (media_type_base ct = FORM_URLENCODED) (bool_field body ''required'') schema s2 = ((rb, bb), s')"
            by (auto split: if_splits prod.splits)
          then show ?thesis
            using fold_body_grows whole_body_grows grows_trans [OF g] by cases blast+
        qed
      qed
    qed
  qed
qed

definition plan_args :: "execution_plan \<Rightarrow> arg_binding list" where
  "plan_args p = ep_path_params p @ ep_query_params p @ ep_header_params p @ ep_cookie_params p"

definition plan_bound :: "operation \<Rightarrow> bool" where
  "plan_bound op \<longleftrightarrow>
     (\<forall>b \<in> set (plan_args (op_execution_plan op)).
        has_key (ab_arg_name b) (props_of (mt_input_schema (op_tool op)))
        \<and> (ab_required b \<longrightarrow> ab_arg_name b \<in> required_of (mt_input_schema (op_tool op))))
     \<and> (\<forall>b \<in> set (ep_path_params (op_execution_plan op)). ab_required b)
     \<and> (\<forall>a \<in> set (body_args (ep_body (op_execution_plan op))).
          has_key a (props_of (mt_input_schema (op_tool op))))"

lemma input_schema_props: "props_of (input_schema_of s) = si_properties s"
  "required_of (input_schema_of s) = set (si_required s)"
  by (auto simp: props_of_def required_of_def input_schema_of_def)

lemma lower_operation_bound:
  assumes "lower_operation env doc d n ws rt = Some (Inr op, ws', rt')"
  shows "plan_bound op"
proof -
  obtain po s1 rt1 where p: "lower_parameters env doc d (empty_sink ws) rt = (po, s1, rt1)" by (metis prod_cases3)
  from assms p obtain rb bb s rt2 where b: "lower_body env doc d s1 rt1 = Some ((rb, bb), s, rt2)"
    by (auto simp: lower_operation_def split: option.splits)
  from assms p b obtain ro where op: "op = build_operation env doc d n po rb bb (input_schema_of s) ro"
    by (auto simp: lower_operation_def Let_def split: if_splits prod.splits option.splits)
  have ok: "params_ok (po, s1, rt1)" by (rule lower_parameters_ok [OF p])
  note g = lower_body_grows [OF b]
  from ok g have "bound (bindings po) s" by (auto simp: params_ok_def intro: bound_grows)
  with ok g show ?thesis
    by (auto simp: op plan_bound_def plan_args_def build_operation_def Let_def input_schema_props bound_def
        bindings_def params_ok_def)
qed

lemma lower_all_bound: "lower_all env doc named ws rt = Some (ops, skips, ws') \<Longrightarrow> list_all plan_bound ops"
proof (induction env doc named ws rt arbitrary: ops skips ws' rule: lower_all.induct)
  case (2 env doc d name rest ws rt)
  from "2.prems" obtain r ws1 rt1 ops1 skips1 where l: "lower_operation env doc d name ws rt = Some (r, ws1, rt1)"
    "lower_all env doc rest ws1 rt1 = Some (ops1, skips1, ws')"
    "case r of Inr op \<Rightarrow> ops = op # ops1 | Inl s \<Rightarrow> ops = ops1"
    by (auto split: option.splits prod.splits sum.splits)
  from "2.IH" [OF l(1) refl refl l(2)] l lower_operation_bound show ?case by (cases r) auto
qed simp

text \<open>C27: every argument of a compiled tool is an argument of its schema: what the execution plan takes
  for the path, the query, the headers, the cookies and the body is a property of the tool's input
  schema, what a parameter requires is required there, and every path parameter is required.\<close>

theorem planned_arguments_are_in_the_schema:
  assumes "compile_doc env max_ops safety loaded doc ver = Some b" "op \<in> set (na_operations (cb_api b))"
  shows "(\<forall>a \<in> set (plan_args (op_execution_plan op)).
        has_key (ab_arg_name a) (props_of (mt_input_schema (op_tool op)))
        \<and> (ab_required a \<longrightarrow> ab_arg_name a \<in> required_of (mt_input_schema (op_tool op))))
     \<and> (\<forall>a \<in> set (ep_path_params (op_execution_plan op)). ab_required a)
     \<and> (\<forall>a \<in> set (body_args (ep_body (op_execution_plan op))).
          has_key a (props_of (mt_input_schema (op_tool op))))"
  using assms(1)
proof (rule compile_docE)
  fix drafts names ops skips ws
  let ?env = "with_safety (ce_lower env) safety"
  let ?lo = "collect (le_refs ?env) doc retriever_new"
  assume "lower_all ?env doc (zip drafts names)
       (lo_warnings ?lo @ renamed_warnings (zip drafts names)) (lo_retriever ?lo) = Some (ops, skips, ws)"
    and "na_operations (cb_api b) = ops"
  with assms(2) lower_all_bound have "plan_bound op" by (auto simp: list_all_iff)
  then show ?thesis by (simp add: plan_bound_def)
qed

theorem planned_arguments_are_in_the_schema_witness:
  "\<exists>b. compile_doc sample_compile None safety_default sample_spec one_op_doc ''3.0.3'' = Some b
     \<and> length (na_operations (cb_api b)) = 1
     \<and> (\<forall>op \<in> set (na_operations (cb_api b)). \<forall>a \<in> set (ep_path_params (op_execution_plan op)).
          ab_arg_name a \<in> required_of (mt_input_schema (op_tool op)))"
proof -
  obtain b where b: "compile_doc sample_compile None safety_default sample_spec one_op_doc ''3.0.3'' = Some b"
    "map (\<lambda>op. (mt_name (op_tool op), op_enabled_by_default op)) (na_operations (cb_api b)) = [(''get_pet'', True)]"
    using sample_compiles by auto
  then have "length (na_operations (cb_api b)) = 1" by auto
  with planned_arguments_are_in_the_schema [OF b(1)] b(1) show ?thesis by (auto simp: plan_args_def)
qed

end
