(* ===== verification/Gateway.thy ===== *)
theory Gateway
  imports Compile Server_Handler
begin

text \<open>
  From a document to a call: what the compiler (\<open>mcp-gateway-compile\<close>) plans, the handler
  (\<open>mcp-gateway-server\<close>) looks up and the renderer (\<open>mcp-gateway-proxy\<close>) sends. The definitions are
  those of the components; this theory holds what is true of them together.
\<close>

section \<open>Operations of a compiled bundle\<close>

lemma lower_all_each:
  "lower_all env doc named ws rt = Some (ops, skips, ws') \<Longrightarrow> op \<in> set ops \<Longrightarrow>
     \<exists>d n ws rt ws' rt'. lower_operation env doc d n ws rt = Some (Inr op, ws', rt')"
proof (induction env doc named ws rt arbitrary: ops skips ws' rule: lower_all.induct)
  case (2 env doc d name rest ws rt)
  from "2.prems" obtain r ws1 rt1 ops1 skips1 where l: "lower_operation env doc d name ws rt = Some (r, ws1, rt1)"
    "lower_all env doc rest ws1 rt1 = Some (ops1, skips1, ws')"
    "case r of Inr op \<Rightarrow> ops = op # ops1 | Inl s \<Rightarrow> ops = ops1"
    by (auto split: option.splits prod.splits sum.splits)
  show ?case
  proof (cases "op \<in> set ops1")
    case True
    then show ?thesis by (rule "2.IH" [OF l(1) refl refl l(2)])
  next
    case False
    with "2.prems"(2) l(3) have "r = Inr op" by (auto split: sum.splits)
    with l(1) show ?thesis by blast
  qed
qed simp

lemma compiledE:
  assumes "compile_doc env max_ops safety loaded doc ver = Some b" "op \<in> set (na_operations (cb_api b))"
  obtains lenv d n ws rt ws' rt' where "lower_operation lenv doc d n ws rt = Some (Inr op, ws', rt')"
  using assms(1)
proof (rule compile_docE)
  fix drafts names ops skips ws
  let ?env = "with_safety (ce_lower env) safety"
  assume "lower_all ?env doc (zip drafts names)
       (lo_warnings (collect (le_refs ?env) doc retriever_new) @ renamed_warnings (zip drafts names))
       (lo_retriever (collect (le_refs ?env) doc retriever_new)) = Some (ops, skips, ws)"
    and "na_operations (cb_api b) = ops"
  with lower_all_each assms(2) that show ?thesis by blast
qed

lemma lowered_body:
  assumes "lower_operation env doc d n ws rt = Some (Inr op, ws', rt')"
  obtains s rt1 s' rt2 where
    "lower_body env doc d s rt1 = Some ((hb_request_body (op_http op), ep_body (op_execution_plan op)), s', rt2)"
proof -
  obtain po s1 rt1 where p: "lower_parameters env doc d (empty_sink ws) rt = (po, s1, rt1)" by (metis prod_cases3)
  from assms p obtain rb bb s rt2 where b: "lower_body env doc d s1 rt1 = Some ((rb, bb), s, rt2)"
    by (auto simp: lower_operation_def split: option.splits)
  from assms p b obtain ro where op: "op = build_operation env doc d n po rb bb (input_schema_of s) ro"
    by (auto simp: lower_operation_def Let_def split: if_splits prod.splits option.splits)
  have "hb_request_body (op_http op) = rb" "ep_body (op_execution_plan op) = bb"
    by (simp_all add: op build_operation_def Let_def)
  with b that show ?thesis by blast
qed

text \<open>The three outcomes of a request body: none, folded into the arguments, or one argument.\<close>

lemma lower_body_shape:
  assumes "lower_body env doc d s rt = Some ((rb, bb), s', rt')"
  shows "rb = None \<and> bb = None
    \<or> (\<exists>ct r schema sink sink'. fold_body d ct r schema sink = Some ((rb, bb), sink'))
    \<or> (\<exists>ct is_form r schema sink sink'. whole_body ct is_form r schema sink = ((rb, bb), sink'))"
proof (cases "jget ''requestBody'' (dr_op d)")
  case body: (Some body)
  show ?thesis
  proof (cases "Option.bind (jget ''content'' body) as_object")
    case content: (Some content)
    show ?thesis
    proof (cases "select_json_content content")
      case media: (Some p)
      obtain ct m where p: "p = (ct, m)" by (cases p)
      let ?s1 = "if jget ''schema'' m = None \<and> bool_field body ''required''
        then sink_warn (draft_warn d MissingRequestSchema ''body required but schema absent'') s else s"
      let ?schema = "case jget ''schema'' m of Some s \<Rightarrow> s | None \<Rightarrow> JObj [(''type'', JStr ''object'')]"
      obtain r s2 rt2 where r: "sink_schema env doc d ?schema ''unresolved $ref in request body'' ?s1 rt = (r, s2, rt2)"
        by (metis prod_cases3)
      show ?thesis
      proof (cases r)
        case None
        with assms body content media p r show ?thesis by (auto simp: lower_body_def Let_def)
      next
        case (Some schema)
        with assms body content media p r show ?thesis
          by (cases "body_is_object schema \<and> media_type_base ct \<noteq> FORM_URLENCODED")
            (auto simp: lower_body_def Let_def split: prod.splits)
      qed
    qed (use assms body content in \<open>simp add: lower_body_def\<close>)
  qed (use assms body in \<open>simp add: lower_body_def\<close>)
qed (use assms in \<open>simp add: lower_body_def\<close>)

lemma compiled_body_shape:
  assumes "compile_doc env max_ops safety loaded doc ver = Some b" "op \<in> set (na_operations (cb_api b))"
    and rb: "hb_request_body (op_http op) = rb" and bb: "ep_body (op_execution_plan op) = bb"
  obtains "rb = None" "bb = None"
  | d ct r schema sink sink' where "fold_body d ct r schema sink = Some ((rb, bb), sink')"
  | ct is_form r schema sink sink' where "whole_body ct is_form r schema sink = ((rb, bb), sink')"
proof -
  from assms(1,2) obtain lenv d n ws rt ws' rt' where
    "lower_operation lenv doc d n ws rt = Some (Inr op, ws', rt')" by (rule compiledE)
  then obtain s rt1 s' rt2 where "lower_body lenv doc d s rt1 = Some ((rb, bb), s', rt2)"
    unfolding rb [symmetric] bb [symmetric] by (rule lowered_body)
  with lower_body_shape that show ?thesis by metis
qed

section \<open>Tools of a gateway\<close>

text \<open>C13: What a gateway lists can be called, and nothing else: over a compiled bundle the names of the
  listed tools are distinct, and a call by name reaches exactly the listed operation of that name.\<close>

theorem listed_tools_are_the_callable_ones:
  assumes "compile_doc env max_ops safety loaded doc ver = Some (lg_bundle gw)"
    and "length (lo_drafts (collect (le_refs (with_safety (ce_lower env) safety)) doc retriever_new)) < 2 ^ 30"
  shows "distinct (map (\<lambda>t. lt_name (operation_to_tool t)) (operations gw))
    \<and> (\<forall>name op. operation_named gw name = Some op \<longleftrightarrow>
         op \<in> set (operations gw) \<and> lt_name (operation_to_tool op) = name)"
proof -
  let ?ops = "na_operations (cb_api (lg_bundle gw))"
  have dist: "distinct (map (\<lambda>op. mt_name (op_tool op)) ?ops)" by (rule compiled_names [OF assms])
  have "distinct (map (\<lambda>t. lt_name (operation_to_tool t)) (operations gw))"
    using dist by (auto simp: operations_def operation_to_tool_def distinct_map_filter)
  moreover have "operation_named gw (mt_name (op_tool op)) = Some op" if "op \<in> set (operations gw)" for op
  proof -
    from that have op: "op \<in> set ?ops" "tool_allowed gw (mt_name (op_tool op))" by (auto simp: operations_def)
    then obtain op' where f: "find (\<lambda>o'. mt_name (op_tool o') = mt_name (op_tool op)) ?ops = Some op'"
      by (cases "find (\<lambda>o'. mt_name (op_tool o') = mt_name (op_tool op)) ?ops") (auto simp: find_None_iff)
    then have "op' \<in> set ?ops" "mt_name (op_tool op') = mt_name (op_tool op)" by (auto simp: find_Some_iff)
    with dist op(1) have "op' = op" by (auto simp: distinct_map dest: inj_onD)
    with f op(2) show ?thesis by (simp add: operation_named_def)
  qed
  ultimately show ?thesis using operation_named_Some [of gw] by (auto simp: operation_to_tool_def)
qed

section \<open>Bodies\<close>

lemma fold_object_lookup:
  assumes "distinct (map fk_wire_name ks)"
  shows "map_of (fold_object args ks obj) w =
    (case find (\<lambda>k. fk_wire_name k = w) ks of
       Some k \<Rightarrow> (case map_of args (fk_arg_name k) of Some v \<Rightarrow> Some v | None \<Rightarrow> map_of obj w)
     | None \<Rightarrow> map_of obj w)"
  using assms
proof (induction args ks obj rule: fold_object.induct)
  case (2 args k ks obj)
  have "find (\<lambda>k'. fk_wire_name k' = fk_wire_name k) ks = None"
    using "2.prems" by (simp add: find_None_iff) (metis imageI)
  with 2 show ?case by (auto split: option.split)
qed simp

lemma find_wire:
  "distinct (map fk_wire_name ks) \<Longrightarrow> k \<in> set ks \<Longrightarrow> find (\<lambda>k'. fk_wire_name k' = fk_wire_name k) ks = Some k"
  by (induction ks) auto


text \<open>C15: A form body is sent empty: whatever a compiled tool with a form-encoded request body is called
  with, the request that is rendered has no body.\<close>

theorem form_bodies_are_sent_empty:
  assumes "compile_doc env max_ops safety loaded doc ver = Some b" "op \<in> set (na_operations (cb_api b))"
    and "ep_body (op_execution_plan op) = Some bb" "bb_mode bb = FormUrlencoded"
    and "render lib hl base (op_execution_plan op) (JObj args) = Inr rq"
  shows "rq_body rq = []"
proof -
  from assms(1,2) refl assms(3) have "bb_folded_keys bb = []"
    by (rule compiled_body_shape)
      (use assms(4) in \<open>auto simp: whole_body_def fold_body_def Let_def split: option.splits prod.splits\<close>)
  with assms(5) show ?thesis
    by (rule_tac render_Inr) (use assms(3,4) in \<open>auto simp: encode_body_def\<close>)
qed

section \<open>Header parameters\<close>

lemma reserved_header_refused:
  "b \<in> set bs \<Longrightarrow> is_reserved_request_header (ab_wire_name b) \<Longrightarrow> add_headers lib hl args bs hs \<noteq> Inr hs'"
  by (induction lib hl args bs hs rule: add_headers.induct) (auto split: option.splits list.splits)

lemma reserved_header_not_rendered:
  assumes "b \<in> set (ep_header_params plan)" "is_reserved_request_header (ab_wire_name b)"
  shows "render lib hl base plan v \<noteq> Inr rq"
proof
  assume "render lib hl base plan v = Inr rq"
  then show False
    by (rule render_Inr) (use reserved_header_refused [OF assms, of lib hl] in \<open>auto simp: render_headers_def\<close>)
qed

text \<open>C16: A tool whose plan has a header parameter of a reserved name cannot be called: every call of it,
  with the argument or without it, even when the parameter is optional, is answered with an error
  before anything is sent.\<close>

theorem reserved_header_tools_never_call:
  assumes "operation_named gw name = Some op" "b \<in> set (ep_header_params (op_execution_plan op))"
    and "is_reserved_request_header (ab_wire_name b)"
  shows "\<exists>r. execute_named env exec gw name arguments = ([], Some r) \<and> tr_is_error r"
  using assms(1) reserved_header_not_rendered [OF assms(2,3)]
  by (auto simp: execute_named_def execute_operation_def error_result_def map_proxy_error_def
      split: option.split sum.split)

section \<open>Documents with bodies\<close>

definition post_doc :: "json list \<Rightarrow> bytes \<Rightarrow> json \<Rightarrow> json" where
  "post_doc ps ct schema = JObj [(''paths'', JObj [(''/a'', JObj [(''post'', JObj [
     (''operationId'', JStr ''make''), (''parameters'', JArr ps),
     (''requestBody'', JObj [(''content'', JObj [(ct, JObj [(''schema'', schema)])])]),
     (''responses'', JObj [(''200'', JObj [])])])])])]"

definition json_doc :: json where
  "json_doc = post_doc [JObj [(''name'', JStr ''id''), (''in'', JStr ''header'')]] ''application/json''
     (JObj [(''type'', JStr ''object''), (''properties'', JObj [(''id'', JObj [])])])"

definition form_doc :: json where
  "form_doc = post_doc [] ''application/x-www-form-urlencoded''
     (JObj [(''type'', JStr ''object''), (''properties'', JObj [(''id'', JObj [])])])"

definition seen_op :: "operation \<Rightarrow> execution_plan \<times> request_body option" where
  "seen_op op = (op_execution_plan op, hb_request_body (op_http op))"

definition make_plan :: "arg_binding list \<Rightarrow> body_binding \<Rightarrow> execution_plan" where
  "make_plan hs bb = \<lparr>ep_method = ''POST'', ep_path_template = ''/a'', ep_path_params = [], ep_query_params = [],
     ep_header_params = hs, ep_cookie_params = [], ep_body = Some bb, ep_accept = ''application/json'',
     ep_timeout_ms = 15000\<rparr>"

definition form_binding :: body_binding where
  "form_binding = \<lparr>bb_mode = FormUrlencoded, bb_content_type = ''application/x-www-form-urlencoded'',
     bb_arg_name = Some ''body'', bb_folded_keys = []\<rparr>"

definition json_binding :: body_binding where
  "json_binding = \<lparr>bb_mode = Fold, bb_content_type = ''application/json'', bb_arg_name = None,
     bb_folded_keys = [\<lparr>fk_arg_name = ''body_id'', fk_wire_name = ''id''\<rparr>]\<rparr>"

definition id_schema :: json where
  "id_schema = JObj [(''type'', JStr ''object''), (''properties'', JObj [(''id'', JObj [])])]"

definition id_header :: arg_binding where
  "id_header = \<lparr>ab_arg_name = ''id'', ab_wire_name = ''id'', ab_style = Simple, ab_explode = False,
     ab_required = False\<rparr>"

lemma form_doc_compiles:
  "map_option (\<lambda>b. map seen_op (na_operations (cb_api b)))
     (compile_doc sample_compile None safety_default sample_spec form_doc ''3.0.3'')
   = Some [(make_plan [] form_binding, Some \<lparr>rb_required = False,
       rb_content_type = ''application/x-www-form-urlencoded'', rb_schema = id_schema, rb_folded_into_input = False\<rparr>)]"
  by code_simp

lemma json_doc_compiles:
  "map_option (\<lambda>b. map seen_op (na_operations (cb_api b)))
     (compile_doc sample_compile None safety_default sample_spec json_doc ''3.0.3'')
   = Some [(make_plan [id_header] json_binding, Some \<lparr>rb_required = False,
       rb_content_type = ''application/json'', rb_schema = id_schema, rb_folded_into_input = True\<rparr>)]"
  by code_simp

lemma id_not_reserved: "\<not> is_reserved_request_header ''id''"
  by code_simp

lemmas make_render = render_def make_plan_def sample_lib_def render_path_def contains_def
  render_origin_def https_url_def host_str_def join_openapi_server_def trim_end_slashes_def render_query_def
  render_headers_def MAX_BODY_def encode_body_def Let_def optional_arg_def id_not_reserved

lemma form_renders: "\<exists>hs. render (sample_lib (https_url (Host_V4 ip_a))) token_hlib ''https://93.184.216.34/''
     (make_plan [] form_binding) (JObj [(''body'', JStr ''7'')]) = Inr \<lparr>rq_method = ''POST'',
       rq_url = (https_url (Host_V4 ip_a))\<lparr>url_path := ''/a''\<rparr>, rq_headers = hs, rq_body = [], rq_timeout_ms = 15000\<rparr>"
  by (simp add: make_render form_binding_def)

lemma json_renders: "\<exists>hs. render (sample_lib (https_url (Host_V4 ip_a))) token_hlib ''https://93.184.216.34/''
     (make_plan [id_header] json_binding) (JObj [(''body_id'', JStr ''7'')]) = Inr \<lparr>rq_method = ''POST'',
       rq_url = (https_url (Host_V4 ip_a))\<lparr>url_path := ''/a''\<rparr>, rq_headers = hs,
       rq_body = rl_show_json (sample_lib (https_url (Host_V4 ip_a))) (JObj [(''id'', JStr ''7'')]), rq_timeout_ms = 15000\<rparr>"
  by (simp add: make_render json_binding_def id_header_def obj_insert_def)
theorem listed_tools_are_the_callable_ones_witness:
  "\<exists>b. compile_doc sample_compile None safety_default sample_spec one_op_doc ''3.0.3'' = Some b
     \<and> (\<exists>op. operation_named ((sample_gateway [])\<lparr>lg_bundle := b\<rparr>) ''get_pet'' = Some op)"
proof -
  obtain b where b: "compile_doc sample_compile None safety_default sample_spec one_op_doc ''3.0.3'' = Some b"
    "map (\<lambda>op. (mt_name (op_tool op), op_enabled_by_default op)) (na_operations (cb_api b)) = [(''get_pet'', True)]"
    using sample_compiles by auto
  let ?gw = "(sample_gateway [])\<lparr>lg_bundle := b\<rparr>"
  from b(2) obtain op where "na_operations (cb_api b) = [op]" "mt_name (op_tool op) = ''get_pet''" by auto
  then have "op \<in> set (operations ?gw)" "lt_name (operation_to_tool op) = ''get_pet''"
    by (simp_all add: operations_def tool_allowed_def sample_gateway_def operation_to_tool_def)
  then have "operation_named ?gw ''get_pet'' = Some op"
    using listed_tools_are_the_callable_ones [of sample_compile None safety_default sample_spec one_op_doc "''3.0.3''" ?gw]
      b(1) sample_collect by simp
  with b(1) show ?thesis by blast
qed

theorem form_bodies_are_sent_empty_witness:
  "\<exists>b op rq. compile_doc sample_compile None safety_default sample_spec form_doc ''3.0.3'' = Some b
     \<and> na_operations (cb_api b) = [op]
     \<and> render (sample_lib (https_url (Host_V4 ip_a))) token_hlib ''https://93.184.216.34/''
         (op_execution_plan op) (JObj [(''body'', JStr ''7'')]) = Inr rq \<and> rq_body rq = []"
proof -
  obtain b op where b: "compile_doc sample_compile None safety_default sample_spec form_doc ''3.0.3'' = Some b"
    "na_operations (cb_api b) = [op]" "op_execution_plan op = make_plan [] form_binding"
    using form_doc_compiles by (auto simp: seen_op_def)
  obtain rq where rq: "render (sample_lib (https_url (Host_V4 ip_a))) token_hlib ''https://93.184.216.34/''
      (op_execution_plan op) (JObj [(''body'', JStr ''7'')]) = Inr rq"
    using form_renders by (auto simp: b(3))
  have "rq_body rq = []"
    by (rule form_bodies_are_sent_empty [OF b(1) _ _ _ rq, of form_binding])
      (simp_all add: b make_plan_def form_binding_def)
  with b rq show ?thesis by blast
qed


definition host_tool :: operation where
  "host_tool = (sample_tool ''t'' True None)\<lparr>op_execution_plan := make_plan
     [\<lparr>ab_arg_name = ''host'', ab_wire_name = ''Host'', ab_style = Simple, ab_explode = False, ab_required = False\<rparr>]
     json_binding\<rparr>"

lemma host_reserved: "is_reserved_request_header ''Host''"
  by code_simp

theorem reserved_header_tools_never_call_witness:
  "\<exists>r. execute_named sample_server (live_executor sample_env) (sample_gateway [host_tool]) ''t'' (JObj [])
     = ([], Some r) \<and> tr_is_error r"
  by (rule reserved_header_tools_never_call [where op = host_tool])
    (auto simp: operation_named_def tool_allowed_def sample_gateway_def sample_bundle_def host_tool_def
      sample_tool_def make_plan_def host_reserved)

end
