(* ===== verification/Proto.thy ===== *)
theory Proto
  imports Json
begin

text \<open>
  The tunnel's wire types (\<open>crates/mcp-gateway-tunnel-proto/src/lib.rs\<close>): slug grammar, header
  classes, handshake messages, frames, and their JSON form. Decoders read the object form the
  encoders write; the array form that derived deserialisers also accept is left out.
\<close>

section \<open>Constants\<close>

definition ANONYMOUS_SLUG_LEN :: nat where [enum_defs]: "ANONYMOUS_SLUG_LEN = 8"

definition ANONYMOUS_ALPHABET :: bytes where [enum_defs]:
  "ANONYMOUS_ALPHABET = ''abcdefghjkmnpqrstuvwxyz23456789''"

definition NAMED_SLUG_MIN_LEN :: nat where [enum_defs]: "NAMED_SLUG_MIN_LEN = 3"
definition NAMED_SLUG_MAX_LEN :: nat where [enum_defs]: "NAMED_SLUG_MAX_LEN = 48"

definition RESERVED_SLUGS :: "bytes list" where [enum_defs]:
  "RESERVED_SLUGS =
     [''admin'', ''api'', ''app'', ''auth'', ''connect'', ''health'', ''internal'', ''login'',
      ''mcp'', ''null'', ''relay'', ''signup'', ''staging'', ''status'', ''undefined'', ''www'']"

definition PUBLIC_SUFFIX :: bytes where [enum_defs]: "PUBLIC_SUFFIX = ''mcp.fetchhive.com''"
definition MCP_PATH :: bytes where [enum_defs]: "MCP_PATH = ''/mcp''"
definition PROTOCOL_VERSION :: "16 word" where [enum_defs]: "PROTOCOL_VERSION = 1"
definition RECLAIM_CREDENTIAL_LEN :: nat where [enum_defs]: "RECLAIM_CREDENTIAL_LEN = 43"
definition MAX_FRAME_BYTES :: nat where [enum_defs]: "MAX_FRAME_BYTES = 256 * 1024"
definition DEFAULT_MAX_BODY_BYTES :: "64 word" where [enum_defs]: "DEFAULT_MAX_BODY_BYTES = 1048576"
definition DEFAULT_MAX_INFLIGHT :: "32 word" where [enum_defs]: "DEFAULT_MAX_INFLIGHT = 16"
definition DEFAULT_REQUEST_TIMEOUT_SECS :: "32 word" where [enum_defs]:
  "DEFAULT_REQUEST_TIMEOUT_SECS = 60"
definition DEFAULT_RPM :: "32 word" where [enum_defs]: "DEFAULT_RPM = 60"
definition CLOSE_POLICY :: nat where [enum_defs]: "CLOSE_POLICY = 1008"
definition CLOSE_TRY_AGAIN_LATER :: nat where [enum_defs]: "CLOSE_TRY_AGAIN_LATER = 1013"
definition CLOSE_AUTH :: nat where [enum_defs]: "CLOSE_AUTH = 4001"
definition CLOSE_RATE_LIMITED :: nat where [enum_defs]: "CLOSE_RATE_LIMITED = 4029"

definition HOP_BY_HOP :: "bytes list" where [enum_defs]:
  "HOP_BY_HOP = [''connection'', ''keep-alive'', ''te'', ''trailer'', ''transfer-encoding'', ''upgrade'']"

definition public_mcp_url :: "bytes \<Rightarrow> bytes" where
  "public_mcp_url slug = ''https://'' @ slug @ ''.'' @ PUBLIC_SUFFIX @ ''/mcp''"

section \<open>Slugs\<close>

datatype slug_error =
    Empty | TooShort | TooLong | Uppercase | LeadingDash | TrailingDash
  | InvalidCharset | Reserved | AnonymousShaped

definition is_anonymous_shaped :: "bytes \<Rightarrow> bool" where
  "is_anonymous_shaped slug \<longleftrightarrow>
     length slug = ANONYMOUS_SLUG_LEN \<and> list_all (\<lambda>b. b \<in> set ANONYMOUS_ALPHABET) slug"

definition is_reserved_slug :: "bytes \<Rightarrow> bool" where
  "is_reserved_slug slug \<longleftrightarrow> binary_search RESERVED_SLUGS slug \<noteq> None"

definition validate_named_slug :: "bytes \<Rightarrow> slug_error + unit" where
  "validate_named_slug slug =
     (if slug = [] then Inl Empty
      else if list_ex is_upper slug then Inl Uppercase
      else if length slug < NAMED_SLUG_MIN_LEN then Inl TooShort
      else if NAMED_SLUG_MAX_LEN < length slug then Inl TooLong
      else if starts_with slug ''-'' then Inl LeadingDash
      else if ends_with slug ''-'' then Inl TrailingDash
      else if \<not> list_all (\<lambda>b. is_lower b \<or> is_digit b \<or> b = CHR ''-'') slug then Inl InvalidCharset
      else if is_reserved_slug slug then Inl Reserved
      else if is_anonymous_shaped slug then Inl AnonymousShaped
      else Inr ())"

lemma reserved_sorted: "sorted RESERVED_SLUGS"
  by (simp add: RESERVED_SLUGS_def)

lemma is_reserved_slug_iff: "is_reserved_slug slug \<longleftrightarrow> slug \<in> set RESERVED_SLUGS"
  unfolding is_reserved_slug_def by (rule binary_search_iff [OF reserved_sorted])

section \<open>Headers\<close>

definition is_hop_by_hop_header :: "bytes \<Rightarrow> bool" where
  "is_hop_by_hop_header name \<longleftrightarrow>
     (6 \<le> length name \<and> eq_ci (take 6 name) ''proxy-'') \<or> list_ex (\<lambda>hop. eq_ci name hop) HOP_BY_HOP"

definition is_stripped_request_header :: "bytes \<Rightarrow> bool" where
  "is_stripped_request_header name \<longleftrightarrow> is_hop_by_hop_header name \<or> eq_ci name ''cookie''"

definition is_mcp_method :: "bytes \<Rightarrow> bool" where
  "is_mcp_method method \<longleftrightarrow> method \<in> {''POST'', ''GET'', ''DELETE''}"

definition is_reclaim_credential :: "bytes \<Rightarrow> bool" where
  "is_reclaim_credential value \<longleftrightarrow>
     length value = RECLAIM_CREDENTIAL_LEN
     \<and> list_all (\<lambda>b. is_alnum b \<or> b = CHR ''-'' \<or> b = CHR ''_'') value"

text \<open>Predicates on header names that ignore ASCII case: the interface of every header filter.\<close>

locale header_class =
  fixes p :: "bytes \<Rightarrow> bool"
  assumes p_case: "p (to_lower n) = p n"
begin

lemma p_eq_ci: "eq_ci m n \<Longrightarrow> p m = p n"
  by (metis eq_ci_def p_case)

lemma filter_keeps: "eq_ci (fst h) n \<Longrightarrow> \<not> p n \<Longrightarrow> h \<in> set hs \<Longrightarrow> h \<in> set (filter (\<lambda>h. \<not> p (fst h)) hs)"
  using p_eq_ci by auto

lemma filter_drops: "eq_ci m n \<Longrightarrow> p n \<Longrightarrow> (m, v) \<notin> set (filter (\<lambda>h. \<not> p (fst h)) hs)"
  using p_eq_ci by auto

end

interpretation hop: header_class is_hop_by_hop_header
  by unfold_locales (simp add: is_hop_by_hop_header_def)

interpretation stripped: header_class is_stripped_request_header
  by unfold_locales (simp add: is_stripped_request_header_def hop.p_case)

section \<open>Properties\<close>

text \<open>The names \<open>validate_named_slug\<close> accepts are the DNS labels of 3 to 48 lower-case letters,
  digits and inner dashes that are neither reserved nor could be mistaken for an anonymous slug;
  the early uppercase check refuses nothing the charset check would have let through, and the
  binary search over the reserved table is membership in it.\<close>

theorem named_slug_accepted_iff:
  "validate_named_slug slug = Inr () \<longleftrightarrow>
     3 \<le> length slug \<and> length slug \<le> 48
     \<and> list_all (\<lambda>b. is_lower b \<or> is_digit b \<or> b = CHR ''-'') slug
     \<and> hd slug \<noteq> CHR ''-'' \<and> last slug \<noteq> CHR ''-''
     \<and> slug \<notin> set RESERVED_SLUGS \<and> \<not> is_anonymous_shaped slug"
proof (cases "slug = []")
  case False
  have "starts_with slug ''-'' \<longleftrightarrow> hd slug = CHR ''-''"
    using False by (cases slug) auto
  moreover have "ends_with slug ''-'' \<longleftrightarrow> last slug = CHR ''-''"
    using False by (cases slug rule: rev_cases) auto
  moreover note dash = calculation
  have "list_all (\<lambda>b. is_lower b \<or> is_digit b \<or> b = CHR ''-'') slug \<Longrightarrow> \<not> list_ex is_upper slug"
    by (fastforce simp: list_all_iff list_ex_iff is_lower_def is_digit_def is_upper_def)
  with False show ?thesis
    by (auto simp: validate_named_slug_def dash is_reserved_slug_iff NAMED_SLUG_MIN_LEN_def
        NAMED_SLUG_MAX_LEN_def split: if_splits)
qed (simp add: validate_named_slug_def)

end
