(* ===== verification/Wire.thy ===== *)
theory Wire
  imports Proto
begin

text \<open>
  Handshake messages and frames of \<open>crates/mcp-gateway-tunnel-proto/src/lib.rs\<close> as records and
  datatypes, with the JSON codec that the \<open>serde\<close> attributes on them ask for (tag names, skipped
  \<open>None\<close> fields, \<open>deny_unknown_fields\<close>). Every codec interprets \<open>wire\<close>.
\<close>

section \<open>Enumerations\<close>

datatype auth_mode = AuthToken | AuthPublic

fun enc_auth_mode :: "auth_mode \<Rightarrow> json" where
  "enc_auth_mode AuthToken = JStr ''token''"
| "enc_auth_mode AuthPublic = JStr ''public''"

definition dec_auth_mode :: "json \<Rightarrow> auth_mode option" where
  "dec_auth_mode v =
     (if v = JStr ''token'' then Some AuthToken
      else if v = JStr ''public'' then Some AuthPublic else None)"

interpretation auth_mode_wire: field_wire enc_auth_mode dec_auth_mode
proof unfold_locales
  show "dec_auth_mode (enc_auth_mode x) = Some x" for x by (cases x) (simp_all add: dec_auth_mode_def)
  show "enc_auth_mode x \<noteq> JNull" for x by (cases x) simp_all
qed

datatype reject_code =
    VersionUnsupported | Unauthorized | NameTaken | NameInvalid | NameReserved | PlanLimit
  | RateLimited | ReclaimExpired | ReclaimInvalid | Maintenance

fun reject_name :: "reject_code \<Rightarrow> bytes" where
  "reject_name VersionUnsupported = ''version_unsupported''"
| "reject_name Unauthorized = ''unauthorized''"
| "reject_name NameTaken = ''name_taken''"
| "reject_name NameInvalid = ''name_invalid''"
| "reject_name NameReserved = ''name_reserved''"
| "reject_name PlanLimit = ''plan_limit''"
| "reject_name RateLimited = ''rate_limited''"
| "reject_name ReclaimExpired = ''reclaim_expired''"
| "reject_name ReclaimInvalid = ''reclaim_invalid''"
| "reject_name Maintenance = ''maintenance''"

definition all_reject_codes :: "reject_code list" where
  "all_reject_codes =
     [VersionUnsupported, Unauthorized, NameTaken, NameInvalid, NameReserved, PlanLimit,
      RateLimited, ReclaimExpired, ReclaimInvalid, Maintenance]"

definition dec_reject_code :: "json \<Rightarrow> reject_code option" where
  "dec_reject_code v = find (\<lambda>c. v = JStr (reject_name c)) all_reject_codes"

interpretation reject_wire: field_wire "\<lambda>c. JStr (reject_name c)" dec_reject_code
proof unfold_locales
  show "dec_reject_code (JStr (reject_name x)) = Some x" for x
    by (cases x) (simp_all add: dec_reject_code_def all_reject_codes_def)
qed simp

fun close_code :: "reject_code \<Rightarrow> nat" where
  "close_code Unauthorized = CLOSE_AUTH"
| "close_code ReclaimInvalid = CLOSE_AUTH"
| "close_code RateLimited = CLOSE_RATE_LIMITED"
| "close_code Maintenance = CLOSE_TRY_AGAIN_LATER"
| "close_code VersionUnsupported = CLOSE_POLICY"
| "close_code NameTaken = CLOSE_POLICY"
| "close_code NameInvalid = CLOSE_POLICY"
| "close_code NameReserved = CLOSE_POLICY"
| "close_code PlanLimit = CLOSE_POLICY"
| "close_code ReclaimExpired = CLOSE_POLICY"

datatype cancel_reason = CancelTimeout | CancelClientGone | CancelClient | CancelRelay

fun enc_cancel_reason :: "cancel_reason \<Rightarrow> json" where
  "enc_cancel_reason CancelTimeout = JStr ''timeout''"
| "enc_cancel_reason CancelClientGone = JStr ''client_gone''"
| "enc_cancel_reason CancelClient = JStr ''client''"
| "enc_cancel_reason CancelRelay = JStr ''relay''"

definition dec_cancel_reason :: "json \<Rightarrow> cancel_reason option" where
  "dec_cancel_reason v =
     find (\<lambda>r. v = enc_cancel_reason r) [CancelTimeout, CancelClientGone, CancelClient, CancelRelay]"

interpretation cancel_wire: field_wire enc_cancel_reason dec_cancel_reason
proof unfold_locales
  show "dec_cancel_reason (enc_cancel_reason x) = Some x" for x
    by (cases x) (simp_all add: dec_cancel_reason_def)
  show "enc_cancel_reason x \<noteq> JNull" for x by (cases x) simp_all
qed

lemma bool_field_wire: "field_wire JBool as_bool"
  by unfold_locales simp_all

interpretation bool_wire: field_wire JBool as_bool
  by (rule bool_field_wire)

section \<open>Handshake parts\<close>

datatype tunnel_mode = ModeAnonymous | ModeNamed bytes

fun enc_tunnel_mode :: "tunnel_mode \<Rightarrow> json" where
  "enc_tunnel_mode ModeAnonymous = JObj [(''type'', JStr ''anonymous'')]"
| "enc_tunnel_mode (ModeNamed name) = JObj [(''type'', JStr ''named''), (''name'', JStr name)]"

definition dec_tunnel_mode :: "json \<Rightarrow> tunnel_mode option" where
  "dec_tunnel_mode v = do {
     m \<leftarrow> as_object v;
     tag \<leftarrow> req m ''type'' as_str;
     if tag = ''anonymous'' then Some ModeAnonymous
     else if tag = ''named'' \<and> only_keys [''type'', ''name''] m then
       do { n \<leftarrow> req m ''name'' as_str; Some (ModeNamed n) }
     else None }"

interpretation mode_wire: field_wire enc_tunnel_mode dec_tunnel_mode
proof unfold_locales
  show "dec_tunnel_mode (enc_tunnel_mode x) = Some x" for x
    by (cases x) (simp_all add: dec_tunnel_mode_def req_def only_keys_def)
  show "enc_tunnel_mode x \<noteq> JNull" for x by (cases x) simp_all
qed

datatype endpoint_kind = KindAnonymous | KindNamed bytes

fun enc_endpoint_kind :: "endpoint_kind \<Rightarrow> json" where
  "enc_endpoint_kind KindAnonymous = JObj [(''type'', JStr ''anonymous'')]"
| "enc_endpoint_kind (KindNamed i) = JObj [(''type'', JStr ''named''), (''endpoint_id'', JStr i)]"

definition dec_endpoint_kind :: "json \<Rightarrow> endpoint_kind option" where
  "dec_endpoint_kind v = do {
     m \<leftarrow> as_object v;
     tag \<leftarrow> req m ''type'' as_str;
     if tag = ''anonymous'' then Some KindAnonymous
     else if tag = ''named'' \<and> only_keys [''type'', ''endpoint_id''] m then
       do { i \<leftarrow> req m ''endpoint_id'' as_str; Some (KindNamed i) }
     else None }"

interpretation kind_wire: field_wire enc_endpoint_kind dec_endpoint_kind
proof unfold_locales
  show "dec_endpoint_kind (enc_endpoint_kind x) = Some x" for x
    by (cases x) (simp_all add: dec_endpoint_kind_def req_def only_keys_def)
  show "enc_endpoint_kind x \<noteq> JNull" for x by (cases x) simp_all
qed

record reclaim =
  rc_slug :: bytes
  rc_credential :: bytes

definition enc_reclaim :: "reclaim \<Rightarrow> json" where
  "enc_reclaim r = JObj [(''slug'', JStr (rc_slug r)), (''credential'', JStr (rc_credential r))]"

definition dec_reclaim :: "json \<Rightarrow> reclaim option" where
  "dec_reclaim v = do {
     m \<leftarrow> as_object v;
     if only_keys [''slug'', ''credential''] m then do {
       s \<leftarrow> req m ''slug'' as_str; c \<leftarrow> req m ''credential'' as_str;
       Some \<lparr>rc_slug = s, rc_credential = c\<rparr> }
     else None }"

interpretation reclaim_wire: field_wire enc_reclaim dec_reclaim
  by unfold_locales (simp_all add: enc_reclaim_def dec_reclaim_def req_def only_keys_def)

record limits =
  max_body_bytes :: "64 word"
  max_inflight :: "32 word"
  request_timeout_secs :: "32 word"
  rpm :: "32 word"

definition anonymous_defaults :: limits where
  "anonymous_defaults =
     \<lparr>max_body_bytes = DEFAULT_MAX_BODY_BYTES, max_inflight = DEFAULT_MAX_INFLIGHT,
      request_timeout_secs = DEFAULT_REQUEST_TIMEOUT_SECS, rpm = DEFAULT_RPM\<rparr>"

definition enc_limits :: "limits \<Rightarrow> json" where
  "enc_limits l = JObj
     [(''max_body_bytes'', jword (max_body_bytes l)), (''max_inflight'', jword (max_inflight l)),
      (''request_timeout_secs'', jword (request_timeout_secs l)), (''rpm'', jword (rpm l))]"

definition dec_limits :: "json \<Rightarrow> limits option" where
  "dec_limits v = do {
     m \<leftarrow> as_object v;
     if only_keys [''max_body_bytes'', ''max_inflight'', ''request_timeout_secs'', ''rpm''] m then do {
       b \<leftarrow> req m ''max_body_bytes'' as_word; i \<leftarrow> req m ''max_inflight'' as_word;
       t \<leftarrow> req m ''request_timeout_secs'' as_word; r \<leftarrow> req m ''rpm'' as_word;
       Some \<lparr>max_body_bytes = b, max_inflight = i, request_timeout_secs = t, rpm = r\<rparr> }
     else None }"

interpretation limits_wire: field_wire enc_limits dec_limits
  by unfold_locales (simp_all add: enc_limits_def dec_limits_def req_def only_keys_def)

section \<open>Handshake messages\<close>

text \<open>The private \<open>tag\<close> field has one value per type; a message of another tag does not decode.\<close>

record hello =
  h_version :: "16 word"
  h_client :: bytes
  h_mode :: tunnel_mode
  h_auth_mode :: auth_mode
  h_reclaim :: "reclaim option"
  h_mcp_path :: bytes

definition hello_new ::
  "bytes \<Rightarrow> tunnel_mode \<Rightarrow> auth_mode \<Rightarrow> reclaim option \<Rightarrow> bytes \<Rightarrow> hello" where
  "hello_new client mode auth recl path =
     \<lparr>h_version = PROTOCOL_VERSION, h_client = client, h_mode = mode, h_auth_mode = auth,
      h_reclaim = recl, h_mcp_path = path\<rparr>"

definition enc_hello :: "hello \<Rightarrow> json" where
  "enc_hello h = JObj
     ([(''t'', JStr ''hello''), (''version'', jword (h_version h)), (''client'', JStr (h_client h)),
       (''mode'', enc_tunnel_mode (h_mode h)), (''auth_mode'', enc_auth_mode (h_auth_mode h))]
      @ opt_field ''reclaim'' enc_reclaim (h_reclaim h)
      @ [(''mcp_path'', JStr (h_mcp_path h))])"

definition expect_tag :: "bytes \<Rightarrow> json \<Rightarrow> unit option" where
  "expect_tag expected v = do { tag \<leftarrow> as_str v; if tag = expected then Some () else None }"

definition dec_hello :: "json \<Rightarrow> hello option" where
  "dec_hello v = do {
     m \<leftarrow> as_object v;
     if only_keys [''t'', ''version'', ''client'', ''mode'', ''auth_mode'', ''reclaim'', ''mcp_path''] m
     then do {
       _ \<leftarrow> req m ''t'' (expect_tag ''hello'');
       ver \<leftarrow> req m ''version'' as_word; c \<leftarrow> req m ''client'' as_str;
       mode \<leftarrow> req m ''mode'' dec_tunnel_mode; a \<leftarrow> req m ''auth_mode'' dec_auth_mode;
       r \<leftarrow> opt m ''reclaim'' dec_reclaim; p \<leftarrow> req m ''mcp_path'' as_str;
       Some \<lparr>h_version = ver, h_client = c, h_mode = mode, h_auth_mode = a, h_reclaim = r,
             h_mcp_path = p\<rparr> }
     else None }"

text \<open>What a decoder proof needs: every part decodes back, and no part is \<open>null\<close>.\<close>

lemmas part_wires =
  mode_wire.dec_enc auth_mode_wire.dec_enc reclaim_wire.dec_enc kind_wire.dec_enc
  limits_wire.dec_enc reject_wire.dec_enc cancel_wire.dec_enc
  reclaim_wire.enc_not_null word_wire.enc_not_null

lemmas codec_unfold = req_def only_keys_def expect_tag_def

interpretation hello_wire: field_wire enc_hello dec_hello
proof unfold_locales
  show "dec_hello (enc_hello x) = Some x" for x :: hello
    by (cases "h_reclaim x")
      (simp_all add: enc_hello_def dec_hello_def codec_unfold part_wires)
qed (simp add: enc_hello_def)

record welcome_msg =
  w_slug :: bytes
  w_public_url :: bytes
  w_credential :: bytes
  w_lease_grace_secs :: "32 word"
  w_max_session_secs :: "32 word option"
  w_limits :: limits
  w_kind :: endpoint_kind

definition enc_welcome :: "welcome_msg \<Rightarrow> json" where
  "enc_welcome w = JObj
     ([(''t'', JStr ''welcome''), (''slug'', JStr (w_slug w)),
       (''public_url'', JStr (w_public_url w)), (''credential'', JStr (w_credential w)),
       (''lease_grace_secs'', jword (w_lease_grace_secs w))]
      @ opt_field ''max_session_secs'' jword (w_max_session_secs w)
      @ [(''limits'', enc_limits (w_limits w)), (''kind'', enc_endpoint_kind (w_kind w))])"

definition dec_welcome :: "json \<Rightarrow> welcome_msg option" where
  "dec_welcome v = do {
     m \<leftarrow> as_object v;
     if only_keys [''t'', ''slug'', ''public_url'', ''credential'', ''lease_grace_secs'',
                   ''max_session_secs'', ''limits'', ''kind''] m
     then do {
       _ \<leftarrow> req m ''t'' (expect_tag ''welcome'');
       s \<leftarrow> req m ''slug'' as_str; u \<leftarrow> req m ''public_url'' as_str;
       c \<leftarrow> req m ''credential'' as_str; g \<leftarrow> req m ''lease_grace_secs'' as_word;
       x \<leftarrow> opt m ''max_session_secs'' as_word; l \<leftarrow> req m ''limits'' dec_limits;
       k \<leftarrow> req m ''kind'' dec_endpoint_kind;
       Some \<lparr>w_slug = s, w_public_url = u, w_credential = c, w_lease_grace_secs = g,
             w_max_session_secs = x, w_limits = l, w_kind = k\<rparr> }
     else None }"

interpretation welcome_wire: field_wire enc_welcome dec_welcome
proof unfold_locales
  show "dec_welcome (enc_welcome x) = Some x" for x :: welcome_msg
    by (cases "w_max_session_secs x")
      (simp_all add: enc_welcome_def dec_welcome_def codec_unfold part_wires)
qed (simp add: enc_welcome_def)

record rejected =
  rj_code :: reject_code
  rj_message :: bytes
  rj_retry_after_secs :: "32 word option"

definition enc_rejected :: "rejected \<Rightarrow> json" where
  "enc_rejected r = JObj
     ([(''t'', JStr ''rejected''), (''code'', JStr (reject_name (rj_code r))),
       (''message'', JStr (rj_message r))]
      @ opt_field ''retry_after_secs'' jword (rj_retry_after_secs r))"

definition dec_rejected :: "json \<Rightarrow> rejected option" where
  "dec_rejected v = do {
     m \<leftarrow> as_object v;
     if only_keys [''t'', ''code'', ''message'', ''retry_after_secs''] m then do {
       _ \<leftarrow> req m ''t'' (expect_tag ''rejected'');
       c \<leftarrow> req m ''code'' dec_reject_code; s \<leftarrow> req m ''message'' as_str;
       r \<leftarrow> opt m ''retry_after_secs'' as_word;
       Some \<lparr>rj_code = c, rj_message = s, rj_retry_after_secs = r\<rparr> }
     else None }"

interpretation rejected_wire: field_wire enc_rejected dec_rejected
proof unfold_locales
  show "dec_rejected (enc_rejected x) = Some x" for x :: rejected
    by (cases "rj_retry_after_secs x")
      (simp_all add: enc_rejected_def dec_rejected_def codec_unfold part_wires)
qed (simp add: enc_rejected_def)

datatype relay_handshake = HandWelcome welcome_msg | HandRejected rejected

datatype protocol_error = JsonError | UnknownHandshake "bytes option"

text \<open>\<open>parse\<close> is \<open>serde_json::from_slice\<close>; a decoding failure is its error too.\<close>

definition handshake_of_value :: "json \<Rightarrow> protocol_error + relay_handshake" where
  "handshake_of_value v =
     (let t = Option.bind (jget ''t'' v) as_str in
      if t = Some ''welcome'' then ok_or JsonError (map_option HandWelcome (dec_welcome v))
      else if t = Some ''rejected'' then ok_or JsonError (map_option HandRejected (dec_rejected v))
      else Inl (UnknownHandshake t))"

definition from_json_slice :: "(bytes \<Rightarrow> json option) \<Rightarrow> bytes \<Rightarrow> protocol_error + relay_handshake" where
  "from_json_slice parse s =
     (case parse s of None \<Rightarrow> Inl JsonError | Some v \<Rightarrow> handshake_of_value v)"

section \<open>Frames\<close>

type_synonym header = "bytes \<times> bytes"

datatype frame =
    RequestStart (fr_id: "64 word") (rs_method: bytes) (rs_path: bytes) (rs_query: "bytes option")
      (rs_headers: "header list") (rs_complete: bool) (rs_body: "bytes option")
      (rs_client_ip: bytes) (rs_request_id: bytes)
  | RequestBody "64 word" bytes bool
  | ResponseStart "64 word" "16 word" "header list" bool "bytes option"
  | ResponseBody "64 word" bytes bool
  | Cancel "64 word" cancel_reason
  | Ping "64 word"
  | Pong "64 word"
  | StatsFrame "32 word" "64 word"
  | GoAway bytes "32 word"

datatype frame_direction = RelayToClient | ClientToRelay | Either

fun direction :: "frame \<Rightarrow> frame_direction" where
  "direction (RequestStart _ _ _ _ _ _ _ _ _) = RelayToClient"
| "direction (RequestBody _ _ _) = RelayToClient"
| "direction (GoAway _ _) = RelayToClient"
| "direction (ResponseStart _ _ _ _ _) = ClientToRelay"
| "direction (ResponseBody _ _ _) = ClientToRelay"
| "direction (StatsFrame _ _) = ClientToRelay"
| "direction (Cancel _ _) = Either"
| "direction (Ping _) = Either"
| "direction (Pong _) = Either"

definition enc_headers :: "header list \<Rightarrow> json" where
  "enc_headers hs = JArr (map (\<lambda>(n, v). JArr [JStr n, JStr v]) hs)"

definition dec_headers :: "json \<Rightarrow> header list option" where
  "dec_headers = as_list (as_pair as_str as_str)"

interpretation headers_wire: field_wire enc_headers dec_headers
proof unfold_locales
  have pair: "as_pair as_str as_str (case h of (n, v) \<Rightarrow> JArr [JStr n, JStr v]) = Some h" for h :: header
    by (cases h) simp
  show "dec_headers (enc_headers x) = Some x" for x
    by (induction x) (auto simp: enc_headers_def dec_headers_def pair)
qed (simp add: enc_headers_def)

fun enc_frame :: "frame \<Rightarrow> json" where
  "enc_frame (RequestStart i m p q hs bc b ip rid) = JObj
     ([(''t'', JStr ''request_start''), (''id'', jword i), (''method'', JStr m), (''path'', JStr p)]
      @ opt_field ''query'' JStr q
      @ [(''headers'', enc_headers hs), (''body_complete'', JBool bc)]
      @ opt_field ''body'' JStr b
      @ [(''client_ip'', JStr ip), (''request_id'', JStr rid)])"
| "enc_frame (RequestBody i c l) = JObj
     [(''t'', JStr ''request_body''), (''id'', jword i), (''chunk'', JStr c), (''last'', JBool l)]"
| "enc_frame (ResponseStart i s hs bc b) = JObj
     ([(''t'', JStr ''response_start''), (''id'', jword i), (''status'', jword s),
       (''headers'', enc_headers hs), (''body_complete'', JBool bc)] @ opt_field ''body'' JStr b)"
| "enc_frame (ResponseBody i c l) = JObj
     [(''t'', JStr ''response_body''), (''id'', jword i), (''chunk'', JStr c), (''last'', JBool l)]"
| "enc_frame (Cancel i r) = JObj
     [(''t'', JStr ''cancel''), (''id'', jword i), (''reason'', enc_cancel_reason r)]"
| "enc_frame (Ping n) = JObj [(''t'', JStr ''ping''), (''nonce'', jword n)]"
| "enc_frame (Pong n) = JObj [(''t'', JStr ''pong''), (''nonce'', jword n)]"
| "enc_frame (StatsFrame i t) = JObj
     [(''t'', JStr ''stats''), (''inflight'', jword i), (''total'', jword t)]"
| "enc_frame (GoAway r a) = JObj
     [(''t'', JStr ''go_away''), (''reason'', JStr r), (''reconnect_after_secs'', jword a)]"

text \<open>The content of a tagged variant: its fields, the tag \<open>t\<close>, and no other key.\<close>

definition dec_frame :: "json \<Rightarrow> frame option" where
  "dec_frame v = do {
     m \<leftarrow> as_object v;
     tag \<leftarrow> req m ''t'' as_str;
     if tag = ''request_start'' \<and> only_keys [''t'', ''id'', ''method'', ''path'', ''query'', ''headers'',
          ''body_complete'', ''body'', ''client_ip'', ''request_id''] m then do {
       i \<leftarrow> req m ''id'' as_word; me \<leftarrow> req m ''method'' as_str; p \<leftarrow> req m ''path'' as_str;
       q \<leftarrow> opt m ''query'' as_str; hs \<leftarrow> req m ''headers'' dec_headers;
       bc \<leftarrow> req m ''body_complete'' as_bool; b \<leftarrow> opt m ''body'' as_str;
       ip \<leftarrow> req m ''client_ip'' as_str; rid \<leftarrow> req m ''request_id'' as_str;
       Some (RequestStart i me p q hs bc b ip rid) }
     else if tag = ''request_body'' \<and> only_keys [''t'', ''id'', ''chunk'', ''last''] m then do {
       i \<leftarrow> req m ''id'' as_word; c \<leftarrow> req m ''chunk'' as_str; l \<leftarrow> req m ''last'' as_bool;
       Some (RequestBody i c l) }
     else if tag = ''response_start'' \<and> only_keys [''t'', ''id'', ''status'', ''headers'',
          ''body_complete'', ''body''] m then do {
       i \<leftarrow> req m ''id'' as_word; s \<leftarrow> req m ''status'' as_word; hs \<leftarrow> req m ''headers'' dec_headers;
       bc \<leftarrow> req m ''body_complete'' as_bool; b \<leftarrow> opt m ''body'' as_str;
       Some (ResponseStart i s hs bc b) }
     else if tag = ''response_body'' \<and> only_keys [''t'', ''id'', ''chunk'', ''last''] m then do {
       i \<leftarrow> req m ''id'' as_word; c \<leftarrow> req m ''chunk'' as_str; l \<leftarrow> req m ''last'' as_bool;
       Some (ResponseBody i c l) }
     else if tag = ''cancel'' \<and> only_keys [''t'', ''id'', ''reason''] m then do {
       i \<leftarrow> req m ''id'' as_word; r \<leftarrow> req m ''reason'' dec_cancel_reason; Some (Cancel i r) }
     else if tag = ''ping'' \<and> only_keys [''t'', ''nonce''] m then do {
       n \<leftarrow> req m ''nonce'' as_word; Some (Ping n) }
     else if tag = ''pong'' \<and> only_keys [''t'', ''nonce''] m then do {
       n \<leftarrow> req m ''nonce'' as_word; Some (Pong n) }
     else if tag = ''stats'' \<and> only_keys [''t'', ''inflight'', ''total''] m then do {
       i \<leftarrow> req m ''inflight'' as_word; t \<leftarrow> req m ''total'' as_word; Some (StatsFrame i t) }
     else if tag = ''go_away'' \<and> only_keys [''t'', ''reason'', ''reconnect_after_secs''] m then do {
       r \<leftarrow> req m ''reason'' as_str; a \<leftarrow> req m ''reconnect_after_secs'' as_word;
       Some (GoAway r a) }
     else None }"

lemma dec_enc_request_start:
  "dec_frame (enc_frame (RequestStart i m p q hs bc b ip rid))
     = Some (RequestStart i m p q hs bc b ip rid)"
  by (cases q; cases b)
    (simp_all add: dec_frame_def codec_unfold part_wires headers_wire.dec_enc)

lemma dec_enc_response_start:
  "dec_frame (enc_frame (ResponseStart i s hs bc b)) = Some (ResponseStart i s hs bc b)"
  by (cases b) (simp_all add: dec_frame_def codec_unfold part_wires headers_wire.dec_enc)

interpretation frame_wire: field_wire enc_frame dec_frame
proof unfold_locales
  show "dec_frame (enc_frame x) = Some x" for x
    by (cases x) (simp_all only: dec_enc_request_start dec_enc_response_start,
        simp_all add: dec_frame_def codec_unfold part_wires)
  show "enc_frame x \<noteq> JNull" for x by (cases x) simp_all
qed

text \<open>\<open>deny_unknown_fields\<close>: an extra key anywhere in a message is refused.\<close>

lemma only_keys_iff: "only_keys ks m \<longleftrightarrow> fst ` set m \<subseteq> set ks"
  by (auto simp: only_keys_def list_all_iff)

lemma dec_hello_keys:
  "dec_hello (JObj m) = Some h \<Longrightarrow>
     fst ` set m \<subseteq> {''t'', ''version'', ''client'', ''mode'', ''auth_mode'', ''reclaim'', ''mcp_path''}
     \<and> map_of m ''t'' = Some (JStr ''hello'')"
  by (auto simp: dec_hello_def only_keys_iff req_def expect_tag_def bind_eq_Some_conv split: if_splits)

lemma dec_welcome_tag: "dec_welcome v = Some w \<Longrightarrow> jget ''t'' v = Some (JStr ''welcome'')"
  by (cases v) (auto simp: dec_welcome_def req_def expect_tag_def bind_eq_Some_conv split: if_splits)

lemma dec_rejected_tag: "dec_rejected v = Some r \<Longrightarrow> jget ''t'' v = Some (JStr ''rejected'')"
  by (cases v) (auto simp: dec_rejected_def req_def expect_tag_def bind_eq_Some_conv split: if_splits)

section \<open>Properties\<close>

text \<open>C21: what one side of the tunnel encodes the other decodes to the same value: every frame, the
  hello, and through \<open>from_json_str\<close>'s dispatch on the tag, both answers to it.\<close>

theorem wire_roundtrip:
  "dec_frame (enc_frame f) = Some f \<and> dec_hello (enc_hello h) = Some h
     \<and> handshake_of_value (enc_welcome w) = Inr (HandWelcome w)
     \<and> handshake_of_value (enc_rejected r) = Inr (HandRejected r)"
proof -
  have "handshake_of_value (enc_welcome w) = ok_or JsonError (map_option HandWelcome (dec_welcome (enc_welcome w)))"
    by (simp add: handshake_of_value_def enc_welcome_def)
  moreover have "handshake_of_value (enc_rejected r)
      = ok_or JsonError (map_option HandRejected (dec_rejected (enc_rejected r)))"
    by (simp add: handshake_of_value_def enc_rejected_def)
  ultimately show ?thesis
    by (simp add: frame_wire.dec_enc hello_wire.dec_enc welcome_wire.dec_enc rejected_wire.dec_enc)
qed

lemma dec_frame_closed:
  "dec_frame (JObj m) = Some f \<Longrightarrow>
     fst ` set m \<subseteq> {''t'', ''id'', ''method'', ''path'', ''query'', ''headers'', ''body_complete'',
       ''body'', ''client_ip'', ''request_id'', ''chunk'', ''last'', ''status'', ''reason'', ''nonce'',
       ''inflight'', ''total'', ''reconnect_after_secs''}"
  by (auto simp: dec_frame_def only_keys_iff bind_eq_Some_conv split: if_splits)

end
