(* ===== verification/Tunnel_Stream.thy ===== *)
theory Tunnel_Stream
  imports Wire
begin

text \<open>
  How a local response becomes frames: \<open>write_response\<close>, \<open>stream_body\<close>, \<open>send_chunks\<close> and
  \<open>response_headers\<close> of \<open>crates/mcp-gateway-tunnel/src/session.rs\<close>. A body is the sequence of
  frames \<open>body.frame()\<close> yields, each with the value \<open>cancel.is_cancelled()\<close> has when it arrives.
  The result is the frames handed to the outgoing channel and whether the function returned
  \<open>Ok\<close>. The base64 encoder is a parameter.
\<close>

definition RAW_CHUNK :: nat where [enum_defs]: "RAW_CHUNK = (MAX_FRAME_BYTES div 4) * 3"

lemma RAW_CHUNK_pos [simp]: "0 < RAW_CHUNK"
  by (simp add: enum_defs)

definition CONTENT_TYPE_EVENT_STREAM :: bytes where [enum_defs]:
  "CONTENT_TYPE_EVENT_STREAM = ''text/event-stream''"

text \<open>A header value that is not visible ASCII (\<open>to_str\<close> fails) is \<open>None\<close>.\<close>

record response =
  rp_status :: "16 word"
  rp_headers :: "(bytes \<times> bytes option) list"

datatype body_frame = BData bytes | BTrailers | BError

type_synonym body = "(bool \<times> body_frame) list"
type_synonym sent = "frame list \<times> bool"

definition response_headers :: "response \<Rightarrow> bool \<Rightarrow> header list" where
  "response_headers r body_complete =
     List.map_filter
       (\<lambda>(name, value).
          if is_hop_by_hop_header name then None
          else if \<not> body_complete \<and> eq_ci name ''content-length'' then None
          else map_option (Pair name) value)
       (rp_headers r)"

definition response_start :: "64 word \<Rightarrow> response \<Rightarrow> bool \<Rightarrow> bytes option \<Rightarrow> frame" where
  "response_start i r body_complete b =
     ResponseStart i (rp_status r) (response_headers r body_complete) body_complete b"

definition prepend :: "frame list \<Rightarrow> sent \<Rightarrow> sent" where
  "prepend fs r = (fs @ fst r, snd r)"

lemma prepend_simps [simp]: "fst (prepend fs r) = fs @ fst r" "snd (prepend fs r) = snd r"
  by (simp_all add: prepend_def)

function drain :: "(bytes \<Rightarrow> bytes) \<Rightarrow> 64 word \<Rightarrow> bytes \<Rightarrow> frame list \<times> bytes" where
  "drain enc i pending =
     (if RAW_CHUNK \<le> length pending then
        (let (fs, rest) = drain enc i (drop RAW_CHUNK pending)
         in (ResponseBody i (enc (take RAW_CHUNK pending)) False # fs, rest))
      else ([], pending))"
  by pat_completeness auto
termination
  by (relation "measure (\<lambda>(enc, i, p). length p)")
    (auto intro!: diff_less less_le_trans [OF RAW_CHUNK_pos])

declare drain.simps [simp del]

fun stream_body :: "(bytes \<Rightarrow> bytes) \<Rightarrow> 64 word \<Rightarrow> bytes \<Rightarrow> body \<Rightarrow> sent" where
  "stream_body enc i pending [] = ([ResponseBody i (enc pending) True], True)"
| "stream_body enc i pending ((cancelled, f) # fs) =
     (if cancelled then ([], True)
      else case f of
        BError \<Rightarrow> ([], False)
      | BTrailers \<Rightarrow> stream_body enc i pending fs
      | BData d \<Rightarrow>
          (let (out, rest) = drain enc i (pending @ d)
           in prepend out (stream_body enc i rest fs)))"

text \<open>The loop of \<open>send_chunks\<close> from \<open>offset\<close>, on the bytes not sent yet.\<close>

function chunk_loop :: "(bytes \<Rightarrow> bytes) \<Rightarrow> 64 word \<Rightarrow> bytes \<Rightarrow> bool \<Rightarrow> frame list" where
  "chunk_loop enc i s fin =
     (if s = [] then []
      else ResponseBody i (enc (take RAW_CHUNK s)) (fin \<and> length s \<le> RAW_CHUNK)
           # chunk_loop enc i (drop RAW_CHUNK s) fin)"
  by pat_completeness auto
termination
  by (relation "measure (\<lambda>(enc, i, s, fin). length s)") auto

declare chunk_loop.simps [simp del]

lemma chunk_loop_Nil [simp]: "chunk_loop enc i [] fin = []"
  by (simp add: chunk_loop.simps [of enc i "[]"])

definition send_chunks :: "(bytes \<Rightarrow> bytes) \<Rightarrow> 64 word \<Rightarrow> bytes \<Rightarrow> bool \<Rightarrow> frame list" where
  "send_chunks enc i s fin =
     (if s = [] then (if fin then [ResponseBody i [] True] else []) else chunk_loop enc i s fin)"

text \<open>The buffering loop of \<open>write_response\<close>.\<close>

fun write_plain ::
  "(bytes \<Rightarrow> bytes) \<Rightarrow> 64 word \<Rightarrow> response \<Rightarrow> bytes \<Rightarrow> body \<Rightarrow> sent" where
  "write_plain enc i r buf [] =
     ([response_start i r True (if buf = [] then None else Some (enc buf))], True)"
| "write_plain enc i r buf ((cancelled, f) # fs) =
     (if cancelled then ([], True)
      else case f of
        BError \<Rightarrow> ([], False)
      | BTrailers \<Rightarrow> write_plain enc i r buf fs
      | BData d \<Rightarrow>
          if RAW_CHUNK < length buf + length d then
            prepend ([response_start i r False None] @ send_chunks enc i buf False
                     @ send_chunks enc i d False)
              (stream_body enc i [] fs)
          else write_plain enc i r (buf @ d) fs)"

definition header_get :: "bytes \<Rightarrow> (bytes \<times> bytes option) list \<Rightarrow> bytes option option" where
  "header_get name hs = map_option snd (find (\<lambda>h. eq_ci (fst h) name) hs)"

definition is_sse :: "response \<Rightarrow> bool" where
  "is_sse r \<longleftrightarrow>
     (case header_get ''content-type'' (rp_headers r) of
        Some (Some v) \<Rightarrow> starts_with v CONTENT_TYPE_EVENT_STREAM
      | _ \<Rightarrow> False)"

definition write_response :: "(bytes \<Rightarrow> bytes) \<Rightarrow> 64 word \<Rightarrow> response \<Rightarrow> body \<Rightarrow> sent" where
  "write_response enc i r b =
     (if is_sse r then prepend [response_start i r False None] (stream_body enc i [] b)
      else write_plain enc i r [] b)"

section \<open>What the frames carry\<close>

text \<open>The body the relay rebuilds: the decoded chunks in order.\<close>

fun frame_payload :: "(bytes \<Rightarrow> bytes option) \<Rightarrow> frame \<Rightarrow> bytes" where
  "frame_payload dec (ResponseStart _ _ _ _ (Some b)) = (case dec b of Some x \<Rightarrow> x | None \<Rightarrow> [])"
| "frame_payload dec (ResponseBody _ c _) = (case dec c of Some x \<Rightarrow> x | None \<Rightarrow> [])"
| "frame_payload dec _ = []"

definition payload :: "(bytes \<Rightarrow> bytes option) \<Rightarrow> frame list \<Rightarrow> bytes" where
  "payload dec fs = concat (map (frame_payload dec) fs)"

fun body_data :: "body \<Rightarrow> bytes" where
  "body_data [] = []"
| "body_data ((_, BData d) # fs) = d @ body_data fs"
| "body_data (_ # fs) = body_data fs"

definition clean_body :: "body \<Rightarrow> bool" where
  "clean_body b \<longleftrightarrow> list_all (\<lambda>(c, f). \<not> c \<and> f \<noteq> BError) b"

text \<open>A frame that ends the response.\<close>

fun ends_response :: "frame \<Rightarrow> bool" where
  "ends_response (ResponseStart _ _ _ complete _) = complete"
| "ends_response (ResponseBody _ _ fin) = fin"
| "ends_response _ = False"

fun response_of :: "64 word \<Rightarrow> frame \<Rightarrow> bool" where
  "response_of i (ResponseStart j _ _ _ _) = (j = i)"
| "response_of i (ResponseBody j _ _) = (j = i)"
| "response_of i _ = False"

lemma payload_simps [simp]:
  "payload dec [] = []" "payload dec (f # fs) = frame_payload dec f @ payload dec fs"
  "payload dec (fs @ gs) = payload dec fs @ payload dec gs"
  by (simp_all add: payload_def)

lemma clean_body_simps [simp]:
  "clean_body []" "clean_body ((c, f) # fs) \<longleftrightarrow> \<not> c \<and> f \<noteq> BError \<and> clean_body fs"
  by (simp_all add: clean_body_def)

lemma frame_payload_start [simp]:
  "frame_payload dec (response_start i r c None) = []"
  "frame_payload dec (response_start i r c (Some b)) = (case dec b of Some x \<Rightarrow> x | None \<Rightarrow> [])"
  by (simp_all add: response_start_def)

text \<open>The laws of the base64 engine the code relies on: it decodes what it encoded, and four
  characters stand for each group of up to three bytes.\<close>

definition b64_roundtrip :: "(bytes \<Rightarrow> bytes) \<Rightarrow> (bytes \<Rightarrow> bytes option) \<Rightarrow> bool" where
  "b64_roundtrip enc dec \<longleftrightarrow> (\<forall>x. dec (enc x) = Some x)"

definition b64_length :: "(bytes \<Rightarrow> bytes) \<Rightarrow> bool" where
  "b64_length enc \<longleftrightarrow> (\<forall>x. length (enc x) = 4 * ((length x + 2) div 3))"

lemma b64_decode: "b64_roundtrip enc dec \<Longrightarrow> dec (enc x) = Some x"
  by (simp add: b64_roundtrip_def)

subsection \<open>Draining and chunking\<close>

lemma drain_payload:
  "b64_roundtrip enc dec \<Longrightarrow> payload dec (fst (drain enc i p)) @ snd (drain enc i p) = p"
proof (induction enc i p rule: drain.induct)
  case (1 enc i p)
  then show ?case
    by (cases "RAW_CHUNK \<le> length p")
      (auto simp: drain.simps [of enc i p] b64_decode split: prod.splits)
qed

lemma drain_frames:
  "f \<in> set (fst (drain enc i p)) \<Longrightarrow>
     \<exists>x. f = ResponseBody i (enc x) False \<and> length x \<le> RAW_CHUNK"
proof (induction enc i p rule: drain.induct)
  case (1 enc i p)
  show ?case
  proof (cases "RAW_CHUNK \<le> length p")
    case True
    with "1.prems" have "f = ResponseBody i (enc (take RAW_CHUNK p)) False
        \<or> f \<in> set (fst (drain enc i (drop RAW_CHUNK p)))"
      by (simp add: drain.simps [of enc i p] split: prod.splits)
    then show ?thesis
    proof
      assume "f = ResponseBody i (enc (take RAW_CHUNK p)) False"
      then show ?thesis by (intro exI [of _ "take RAW_CHUNK p"]) simp
    next
      assume "f \<in> set (fst (drain enc i (drop RAW_CHUNK p)))"
      with "1.IH" [OF True] show ?thesis by simp
    qed
  next
    case False
    with "1.prems" show ?thesis by (simp add: drain.simps [of enc i p])
  qed
qed

lemma drain_rest: "length (snd (drain enc i p)) < RAW_CHUNK"
proof (induction enc i p rule: drain.induct)
  case (1 enc i p)
  then show ?case
    by (cases "RAW_CHUNK \<le> length p")
      (auto simp: drain.simps [of enc i p] split: prod.splits)
qed

lemma chunk_loop_payload:
  "b64_roundtrip enc dec \<Longrightarrow> payload dec (chunk_loop enc i s fin) = s"
proof (induction enc i s fin rule: chunk_loop.induct)
  case (1 enc i s fin)
  then show ?case
    by (cases "s = []") (simp_all add: chunk_loop.simps [of enc i s fin] b64_decode)
qed

lemma chunk_loop_frames:
  "f \<in> set (chunk_loop enc i s False) \<Longrightarrow>
     \<exists>x. f = ResponseBody i (enc x) False \<and> length x \<le> RAW_CHUNK"
proof (induction enc i s False rule: chunk_loop.induct)
  case (1 enc i s)
  show ?case
  proof (cases "s = []")
    case True
    with "1.prems" show ?thesis by (simp add: chunk_loop.simps [of enc i s])
  next
    case False
    with "1.prems" have "f = ResponseBody i (enc (take RAW_CHUNK s)) False
        \<or> f \<in> set (chunk_loop enc i (drop RAW_CHUNK s) False)"
      by (simp add: chunk_loop.simps [of enc i s])
    then show ?thesis
    proof
      assume "f = ResponseBody i (enc (take RAW_CHUNK s)) False"
      then show ?thesis by (intro exI [of _ "take RAW_CHUNK s"]) simp
    qed (rule "1.hyps" [OF False])
  qed
qed

lemma send_chunks_payload:
  "b64_roundtrip enc dec \<Longrightarrow> payload dec (send_chunks enc i s False) = s"
  by (simp add: send_chunks_def chunk_loop_payload)

lemma send_chunks_frames:
  "f \<in> set (send_chunks enc i s False) \<Longrightarrow>
     \<exists>x. f = ResponseBody i (enc x) False \<and> length x \<le> RAW_CHUNK"
  by (auto simp: send_chunks_def split: if_splits intro: chunk_loop_frames)

subsection \<open>Streams\<close>

text \<open>
  A well-formed frame of a response to \<open>i\<close>: it answers \<open>i\<close> and carries at most one raw chunk,
  encoded.
\<close>

inductive chunk_frame :: "(bytes \<Rightarrow> bytes) \<Rightarrow> 64 word \<Rightarrow> frame \<Rightarrow> bool" for enc i where
  start: "chunk_frame enc i (response_start i r c None)"
| start_body: "length x \<le> RAW_CHUNK \<Longrightarrow> chunk_frame enc i (response_start i r c (Some (enc x)))"
| chunk: "length x \<le> RAW_CHUNK \<Longrightarrow> chunk_frame enc i (ResponseBody i (enc x) fin)"

lemmas chunk_frame_intros [intro] = chunk_frame.intros

lemma chunk_frame_drain: "f \<in> set (fst (drain enc i p)) \<Longrightarrow> chunk_frame enc i f \<and> \<not> ends_response f"
  using drain_frames by fastforce

lemma chunk_frame_send: "f \<in> set (send_chunks enc i s False) \<Longrightarrow> chunk_frame enc i f \<and> \<not> ends_response f"
  using send_chunks_frames by fastforce

lemma stream_body_payload:
  "b64_roundtrip enc dec \<Longrightarrow> clean_body b \<Longrightarrow>
     payload dec (fst (stream_body enc i p b)) = p @ body_data b \<and> snd (stream_body enc i p b)"
proof (induction enc i p b rule: stream_body.induct)
  case (2 enc i p c f fs)
  show ?case
  proof (cases f)
    case (BData d)
    obtain out rest where dr: "drain enc i (p @ d) = (out, rest)" by (cases "drain enc i (p @ d)")
    with drain_payload [OF "2.prems"(1), of i "p @ d"] have "payload dec out @ rest = p @ d" by simp
    with 2 BData dr show ?thesis by (simp add: append_assoc [symmetric] del: append_assoc)
  qed (use 2 in simp_all)
qed (simp add: b64_decode)

lemma stream_body_chunks:
  "length p \<le> RAW_CHUNK \<Longrightarrow> f \<in> set (fst (stream_body enc i p b)) \<Longrightarrow> chunk_frame enc i f"
proof (induction enc i p b rule: stream_body.induct)
  case (2 enc i p c g fs)
  show ?case
  proof (cases g)
    case (BData d)
    obtain out rest where dr: "drain enc i (p @ d) = (out, rest)" by (cases "drain enc i (p @ d)")
    then have "length rest \<le> RAW_CHUNK" using drain_rest [of enc i "p @ d"] by simp
    with 2 BData dr show ?thesis
      using chunk_frame_drain [of f enc i "p @ d"] by (cases c) auto
  qed (use 2 in \<open>auto split: if_splits\<close>)
qed auto

text \<open>Only the last frame of a stream can end the response, and a stream that ran to its end has one.\<close>

lemma stream_body_end:
  "\<exists>ini fin. fst (stream_body enc i p b) = ini @ fin
     \<and> (\<forall>f\<in>set ini. \<not> ends_response f)
     \<and> (fin = [] \<or> (\<exists>x. fin = [ResponseBody i (enc x) True]))
     \<and> (clean_body b \<longrightarrow> fin \<noteq> [])"
proof (induction enc i p b rule: stream_body.induct)
  case (1 enc i p)
  show ?case
    by (rule exI [of _ "[]"], rule exI [of _ "[ResponseBody i (enc p) True]"]) auto
next
  case (2 enc i p c g fs)
  show ?case
  proof (cases g)
    case (BData d)
    obtain out rest where dr: "drain enc i (p @ d) = (out, rest)" by (cases "drain enc i (p @ d)")
    then have nout: "\<forall>f\<in>set out. \<not> ends_response f"
      using chunk_frame_drain [of _ enc i "p @ d"] by simp
    show ?thesis
    proof (cases c)
      case False
      with 2 BData dr obtain ini fin where
        "fst (stream_body enc i rest fs) = ini @ fin" "\<forall>f\<in>set ini. \<not> ends_response f"
        "fin = [] \<or> (\<exists>x. fin = [ResponseBody i (enc x) True])" "clean_body fs \<longrightarrow> fin \<noteq> []"
        by metis
      with nout BData dr False show ?thesis
        by - (rule exI [of _ "out @ ini"], rule exI [of _ fin], auto)
    qed simp
  qed (use 2 in auto)
qed

subsection \<open>Whole responses\<close>

lemma write_plain_payload:
  "b64_roundtrip enc dec \<Longrightarrow> clean_body b \<Longrightarrow>
     payload dec (fst (write_plain enc i r buf b)) = buf @ body_data b \<and> snd (write_plain enc i r buf b)"
proof (induction enc i r buf b rule: write_plain.induct)
  case (2 enc i r buf c f fs)
  then show ?case
    by (cases f) (auto simp: send_chunks_payload stream_body_payload)
qed (simp add: b64_decode)

lemma write_plain_chunks:
  "length buf \<le> RAW_CHUNK \<Longrightarrow> f \<in> set (fst (write_plain enc i r buf b)) \<Longrightarrow> chunk_frame enc i f"
proof (induction enc i r buf b rule: write_plain.induct)
  case (2 enc i r buf c g fs)
  then show ?case
    by (cases g; cases c)
      (auto split: if_splits dest: chunk_frame_send stream_body_chunks [rotated])
qed (auto split: if_splits)

lemma write_plain_end:
  "\<exists>ini fin. fst (write_plain enc i r buf b) = ini @ fin
     \<and> (\<forall>f\<in>set ini. \<not> ends_response f)
     \<and> (fin = [] \<or> (\<exists>f. fin = [f] \<and> ends_response f))
     \<and> (clean_body b \<longrightarrow> fin \<noteq> [])"
proof (induction enc i r buf b rule: write_plain.induct)
  case (1 enc i r buf)
  show ?case
    by (rule exI [of _ "[]"], rule exI [of _ "fst (write_plain enc i r buf [])"])
      (simp add: response_start_def)
next
  case (2 enc i r buf c g fs)
  show ?case
  proof (cases "\<exists>d. g = BData d \<and> RAW_CHUNK < length buf + length d \<and> \<not> c")
    case True
    then obtain d where d: "g = BData d" "RAW_CHUNK < length buf + length d" "\<not> c" by blast
    let ?pre = "[response_start i r False None] @ send_chunks enc i buf False @ send_chunks enc i d False"
    obtain ini fin where e: "fst (stream_body enc i [] fs) = ini @ fin" "\<forall>f\<in>set ini. \<not> ends_response f"
      "fin = [] \<or> (\<exists>x. fin = [ResponseBody i (enc x) True])" "clean_body fs \<longrightarrow> fin \<noteq> []"
      using stream_body_end by metis
    have "\<forall>f\<in>set ?pre. \<not> ends_response f"
      using chunk_frame_send by (auto simp: response_start_def)
    with d e show ?thesis
      by - (rule exI [of _ "?pre @ ini"], rule exI [of _ fin], auto)
  next
    case False
    then show ?thesis
      by (cases g; cases c) (use 2 in \<open>auto simp: not_less\<close>)
  qed
qed

section \<open>Properties\<close>

text \<open>C19: the relay rebuilds the local response's body byte for byte. For a body that ends without an
  error and is not cancelled, \<open>write_response\<close> succeeds and the decoded chunks of its frames, in
  order, are the body's bytes, whether the response is an event stream, fits one frame, or
  overflows the buffer.\<close>

theorem response_body_roundtrip:
  assumes "b64_roundtrip enc dec" "clean_body b"
  shows "snd (write_response enc i r b) \<and> payload dec (fst (write_response enc i r b)) = body_data b"
  using assms by (simp add: write_response_def stream_body_payload write_plain_payload)

lemma response_body_roundtrip_witness:
  "b64_roundtrip (\<lambda>x. x) Some \<and> clean_body [(False, BData ''ab''), (False, BData ''c'')]
     \<and> payload Some (fst (write_response (\<lambda>x. x) 7 \<lparr>rp_status = 200, rp_headers = []\<rparr>
         [(False, BData ''ab''), (False, BData ''c'')])) = ''abc''"
  using response_body_roundtrip [of "\<lambda>x. x" Some "[(False, BData ''ab''), (False, BData ''c'')]" 7
      "\<lparr>rp_status = 200, rp_headers = []\<rparr>"]
  by (simp add: b64_roundtrip_def)

text \<open>A response ends at most once, with its last frame: of the frames \<open>write_response\<close> hands
  over no frame before the last says that the body is complete or that a chunk is the final one,
  and for a body that ends cleanly the last frame does.\<close>

theorem response_ends_once:
  "\<exists>ini fin. fst (write_response enc i r b) = ini @ fin
     \<and> (\<forall>f\<in>set ini. \<not> ends_response f)
     \<and> (fin = [] \<or> (\<exists>f. fin = [f] \<and> ends_response f))
     \<and> (clean_body b \<longrightarrow> fin \<noteq> [])"
proof (cases "is_sse r")
  case True
  obtain ini fin where e: "fst (stream_body enc i [] b) = ini @ fin" "\<forall>f\<in>set ini. \<not> ends_response f"
    "fin = [] \<or> (\<exists>x. fin = [ResponseBody i (enc x) True])" "clean_body b \<longrightarrow> fin \<noteq> []"
    using stream_body_end by metis
  with True show ?thesis
    by - (rule exI [of _ "response_start i r False None # ini"], rule exI [of _ fin],
        auto simp: write_response_def response_start_def)
next
  case False
  with write_plain_end [of enc i r "[]" b] show ?thesis by (simp add: write_response_def)
qed

lemma response_ends_once_witness:
  "\<exists>ini f. fst (write_response (\<lambda>x. x) 7 \<lparr>rp_status = 200, rp_headers = []\<rparr> [(False, BData ''ab'')])
      = ini @ [f] \<and> ends_response f \<and> (\<forall>g\<in>set ini. \<not> ends_response g)"
proof -
  have "clean_body [(False, BData ''ab'')]" by simp
  with response_ends_once [of "\<lambda>x. x" 7 "\<lparr>rp_status = 200, rp_headers = []\<rparr>" "[(False, BData ''ab'')]"]
  show ?thesis by blast
qed

text \<open>The encoded text a frame carries.\<close>

fun frame_text :: "frame \<Rightarrow> bytes" where
  "frame_text (ResponseStart _ _ _ _ (Some b)) = b"
| "frame_text (ResponseBody _ c _) = c"
| "frame_text _ = []"

lemma chunk_frame_text:
  "chunk_frame enc i f \<Longrightarrow> b64_length enc \<Longrightarrow> response_of i f \<and> length (frame_text f) \<le> MAX_FRAME_BYTES"
  by (erule chunk_frame.cases) (auto simp: response_start_def b64_length_def enum_defs)

text \<open>C20: every frame of a response answers the request's id, and the base64 text it carries is at
  most \<open>MAX_FRAME_BYTES\<close> long, however large the response and whatever the sizes of the pieces in
  which the local service sends it.\<close>

theorem response_frames_bounded:
  assumes "b64_length enc" "f \<in> set (fst (write_response enc i r b))"
  shows "response_of i f \<and> length (frame_text f) \<le> MAX_FRAME_BYTES"
proof -
  have "chunk_frame enc i f"
    using assms(2) write_plain_chunks [of "[]" f enc i r b] stream_body_chunks [of "[]" f enc i b]
    by (auto simp: write_response_def split: if_splits)
  then show ?thesis by (rule chunk_frame_text [OF _ assms(1)])
qed

lemma response_frames_bounded_witness:
  "\<exists>f enc. b64_length enc
     \<and> f \<in> set (fst (write_response enc 7 \<lparr>rp_status = 200, rp_headers = []\<rparr> [(False, BData ''abcd'')]))
     \<and> length (frame_text f) = 8 \<and> 8 \<le> MAX_FRAME_BYTES \<and> response_of 7 f"
proof -
  let ?enc = "\<lambda>x. replicate (4 * ((length x + 2) div 3)) (CHR ''A'')"
  let ?r = "\<lparr>rp_status = 200, rp_headers = []\<rparr>"
  let ?f = "response_start 7 ?r True (Some (?enc ''abcd''))"
  have len: "b64_length ?enc" by (simp add: b64_length_def)
  have mem: "?f \<in> set (fst (write_response ?enc 7 ?r [(False, BData ''abcd'')]))"
    by (simp add: write_response_def is_sse_def header_get_def RAW_CHUNK_def MAX_FRAME_BYTES_def)
  have "length (frame_text ?f) = 8" by (simp add: response_start_def)
  with response_frames_bounded [OF len mem] len mem show ?thesis by metis
qed

end
