(* ===== verification/Tunnel_Session.thy ===== *)
theory Tunnel_Session
  imports Tunnel_Stream
begin

text \<open>
  One connected session: \<open>crates/mcp-gateway-tunnel/src/session.rs\<close> and \<open>stats.rs\<close>. The socket
  loop and the spawned request tasks interleave, so the session is a step relation over one state
  that holds the channels, the two maps and the shared counters. Base64, the JSON parser and the
  HTTP request builder are parameters; durations are left out.
\<close>

section \<open>Counters (stats.rs)\<close>

record stats =
  st_inflight :: "32 word"
  st_total :: "64 word"

definition begin_request :: "32 word \<Rightarrow> stats \<Rightarrow> bool \<times> stats" where
  "begin_request limit s =
     (let prev = st_inflight s; s' = s\<lparr>st_inflight := prev + 1\<rparr> in
      if limit \<le> prev then (False, s'\<lparr>st_inflight := st_inflight s' - 1\<rparr>) else (True, s'))"

definition end_request :: "stats \<Rightarrow> stats" where
  "end_request s = s\<lparr>st_inflight := st_inflight s - 1, st_total := st_total s + 1\<rparr>"

text \<open>
  The interface the session uses: a counting gate that admits below a limit. Its client fact is
  that a gate whose count equals a number of holders keeps that equality.
\<close>

locale slot_gate =
  fixes enter :: "32 word \<Rightarrow> 's \<Rightarrow> bool \<times> 's" and leave :: "'s \<Rightarrow> 's" and held :: "'s \<Rightarrow> 32 word"
  assumes enter_iff: "fst (enter limit s) \<longleftrightarrow> held s < limit"
    and enter_ok: "held s < limit \<Longrightarrow> held (snd (enter limit s)) = held s + 1"
    and enter_full: "limit \<le> held s \<Longrightarrow> snd (enter limit s) = s"
    and leave_held: "held (leave s) = held s - 1"
begin

lemma enter_count:
  assumes "held s < limit"
  shows "unat (held (snd (enter limit s))) = Suc (unat (held s))"
proof -
  from assms have "unat (held s) < unat limit" by (simp add: word_less_nat_alt)
  also have "unat limit < 2 ^ 32" by (rule order_less_le_trans, rule unsigned_less) simp
  finally have "Suc (unat (held s)) < 2 ^ 32"
    using \<open>unat (held s) < unat limit\<close> \<open>unat limit < 2 ^ 32\<close> by linarith
  then have "unat (held s + 1) = Suc (unat (held s))" by (simp add: unat_word_ariths)
  with assms show ?thesis by (simp add: enter_ok)
qed

lemma enter_bound: "held s \<le> limit \<Longrightarrow> held (snd (enter limit s)) \<le> limit"
  using enter_count [of s limit] enter_full [of limit s]
  by (cases "held s < limit") (auto simp: word_less_nat_alt word_le_nat_alt)

lemma leave_count: "0 < unat (held s) \<Longrightarrow> Suc (unat (held (leave s))) = unat (held s)"
  by (metis One_nat_def Suc_pred leave_held unat_gt_0 unat_minus_one)

lemma leave_bound: "0 < unat (held s) \<Longrightarrow> held s \<le> limit \<Longrightarrow> held (leave s) \<le> limit"
  using leave_count [of s] by (simp add: word_le_nat_alt)

end

interpretation gate: slot_gate begin_request end_request st_inflight
  by unfold_locales
    (auto simp: begin_request_def end_request_def Let_def linorder_not_le)

section \<open>Request labels\<close>

text \<open>Environment: what comes from libraries and from the configuration.\<close>

record local_request =
  lr_method :: bytes
  lr_uri :: bytes
  lr_headers :: "header list"

record env =
  e_decode :: "bytes \<Rightarrow> bytes option"
  e_encode :: "bytes \<Rightarrow> bytes"
  e_parse :: "bytes \<Rightarrow> json option"
  e_builds :: "local_request \<Rightarrow> bool"
  e_mcp_path :: bytes
  e_local_authority :: bytes
  e_max_inflight :: "32 word"

record req_parts =
  q_id :: "64 word"
  q_method :: bytes
  q_path :: bytes
  q_query :: "bytes option"
  q_headers :: "header list"
  q_complete :: bool
  q_body :: "bytes option"

definition RPC_BODY_CAP :: nat where [enum_defs]: "RPC_BODY_CAP = 64 * 1024"
definition RPC_PART_CAP :: nat where [enum_defs]: "RPC_PART_CAP = 80"

definition rpc_b64_cap :: "nat \<Rightarrow> nat" where
  "rpc_b64_cap decoded_cap = ((decoded_cap + 2) div 3) * 4"

text \<open>\<open>char::is_control\<close> and \<open>char::is_whitespace\<close> on code points.\<close>

definition cp_control :: "nat \<Rightarrow> bool" where
  "cp_control c \<longleftrightarrow> c < 32 \<or> 127 \<le> c \<and> c \<le> 159"

definition cp_whitespace :: "nat \<Rightarrow> bool" where
  "cp_whitespace c \<longleftrightarrow>
     9 \<le> c \<and> c \<le> 13 \<or> c \<in> {0x20, 0x85, 0xA0, 0x1680} \<or> 0x2000 \<le> c \<and> c \<le> 0x200A
     \<or> c \<in> {0x2028, 0x2029, 0x202F, 0x205F, 0x3000}"

definition safe_label_char :: "nat \<Rightarrow> bool" where
  "safe_label_char c \<longleftrightarrow>
     (if cp_control c then False
      else if cp_whitespace c then c = 0x20
      else \<not> (0x200b \<le> c \<and> c \<le> 0x200f \<or> 0x202a \<le> c \<and> c \<le> 0x202e
             \<or> 0x2066 \<le> c \<and> c \<le> 0x2069 \<or> c = 0xfeff))"

definition is_safe_label :: "bytes \<Rightarrow> bool" where
  "is_safe_label text \<longleftrightarrow> text \<noteq> [] \<and> list_all safe_label_char (chars_of text)"

definition bound_part :: "bytes \<Rightarrow> bytes" where
  "bound_part text =
     (if count_chars text \<le> RPC_PART_CAP then text
      else take_chars RPC_PART_CAP text @ [CHR 0xE2, CHR 0x80, CHR 0xA6])"

definition label_one :: "json \<Rightarrow> bytes option" where
  "label_one v =
     (case Option.bind (jget ''method'' v) as_str of
        None \<Rightarrow> None
      | Some method \<Rightarrow>
          if \<not> is_safe_label method then None
          else (let m = bound_part method in
            if m = ''tools/call'' then
              (case Option.bind (Option.bind (jget ''params'' v) (jget ''name'')) as_str of
                 Some name \<Rightarrow>
                   if is_safe_label name then Some (''tools/call '' @ bound_part name)
                   else Some ''tools/call''
               | None \<Rightarrow> Some ''tools/call'')
            else Some m))"

fun label_from_value :: "json \<Rightarrow> bytes option" where
  "label_from_value (JArr []) = None"
| "label_from_value (JArr (x # xs)) =
     (case label_one x of
        None \<Rightarrow> None
      | Some first \<Rightarrow> if xs = [] then Some first else Some (first @ '' +'' @ show_nat (length xs)))"
| "label_from_value other = label_one other"

definition rpc_label :: "env \<Rightarrow> req_parts \<Rightarrow> bytes option" where
  "rpc_label e q =
     (if \<not> q_complete q then None
      else case q_body q of
        None \<Rightarrow> None
      | Some raw \<Rightarrow>
          if rpc_b64_cap RPC_BODY_CAP < length raw then None
          else case e_decode e raw of
            None \<Rightarrow> None
          | Some s \<Rightarrow>
              if RPC_BODY_CAP < length s then None
              else (case e_parse e s of None \<Rightarrow> None | Some v \<Rightarrow> label_from_value v))"

text \<open>No ASCII control byte reaches the terminal through a label.\<close>

definition ctrl_byte :: "char \<Rightarrow> bool" where
  "ctrl_byte c \<longleftrightarrow> (of_char c :: nat) < 32 \<or> (of_char c :: nat) = 127"

lemma ctrl_byte_ascii: "ctrl_byte c \<Longrightarrow> is_ascii c"
  by (auto simp: ctrl_byte_def is_ascii_def)

lemma safe_label_no_ctrl: "is_safe_label s \<Longrightarrow> c \<in> set s \<Longrightarrow> \<not> ctrl_byte c"
  using ascii_in_chars_of [of c s] ctrl_byte_ascii [of c]
  by (fastforce simp: is_safe_label_def list_all_iff safe_label_char_def cp_control_def ctrl_byte_def)

lemma bound_part_no_ctrl:
  assumes "is_safe_label s" "c \<in> set (bound_part s)" shows "\<not> ctrl_byte c"
proof -
  from assms(2) have "c \<in> set s \<or> c \<in> {CHR 0xE2, CHR 0x80, CHR 0xA6}"
    using set_mono_prefix [OF prefix_take_chars, of RPC_PART_CAP s]
    by (auto simp: bound_part_def split: if_splits)
  with assms(1) show ?thesis by (auto dest: safe_label_no_ctrl simp: ctrl_byte_def)
qed

definition no_ctrl :: "bytes \<Rightarrow> bool" where
  "no_ctrl s \<longleftrightarrow> (\<forall>c\<in>set s. \<not> ctrl_byte c)"

lemma no_ctrl_append [simp]: "no_ctrl (s @ t) \<longleftrightarrow> no_ctrl s \<and> no_ctrl t"
  by (auto simp: no_ctrl_def)

lemma no_ctrl_literals [simp]: "no_ctrl ''tools/call''" "no_ctrl ''tools/call ''" "no_ctrl '' +''"
  by (simp_all add: no_ctrl_def ctrl_byte_def)

lemma no_ctrl_bound_part [simp]: "is_safe_label s \<Longrightarrow> no_ctrl (bound_part s)"
  using bound_part_no_ctrl by (simp add: no_ctrl_def)

lemma no_ctrl_show_nat [simp]: "no_ctrl (show_nat n)"
  using show_nat_digits by (fastforce simp: no_ctrl_def is_digit_def ctrl_byte_def)

text \<open>The three shapes of a single label.\<close>

lemma label_one_cases:
  assumes "label_one v = Some l"
  obtains m where "is_safe_label m" "l = bound_part m"
  | n where "is_safe_label n" "l = ''tools/call '' @ bound_part n"
  using assms by (auto simp: label_one_def Let_def split: option.splits if_splits)

lemma label_one_no_ctrl: "label_one v = Some l \<Longrightarrow> no_ctrl l"
  by (erule label_one_cases) (simp_all only: no_ctrl_append no_ctrl_literals no_ctrl_bound_part simp_thms)

lemma label_from_value_no_ctrl: "label_from_value v = Some l \<Longrightarrow> no_ctrl l"
proof (induction v rule: label_from_value.induct)
  case (2 x xs)
  then obtain f where f: "label_one x = Some f" by (auto split: option.splits)
  then have "no_ctrl (f @ '' +'' @ show_nat (length xs))"
    by (simp only: no_ctrl_append no_ctrl_literals no_ctrl_show_nat label_one_no_ctrl simp_thms)
  with 2 f show ?case by (auto split: if_splits dest: label_one_no_ctrl)
qed (auto dest: label_one_no_ctrl)

lemma count_chars_append [simp]: "count_chars (s @ t) = count_chars s + count_chars t"
  by (simp add: count_chars_def)

lemma count_bound_part: "count_chars (bound_part s) \<le> RPC_PART_CAP + 1"
  by (auto simp: bound_part_def count_take_chars) (simp add: count_chars_def is_cont_def)

lemma label_one_bound: "label_one v = Some l \<Longrightarrow> count_chars l \<le> RPC_PART_CAP + 12"
proof (erule label_one_cases)
  fix n assume "l = ''tools/call '' @ bound_part n"
  then have "count_chars l = count_chars ''tools/call '' + count_chars (bound_part n)"
    by (simp only: count_chars_append)
  moreover have "count_chars ''tools/call '' = 11" by (simp add: count_chars_def is_cont_def)
  ultimately show ?thesis using count_bound_part [of n] by simp
next
  fix m assume "l = bound_part m"
  then show ?thesis using count_bound_part [of m] by simp
qed

section \<open>Building the local request\<close>

definition build_request :: "env \<Rightarrow> req_parts \<Rightarrow> local_request option" where
  "build_request e q =
     (let path = (if q_path q = MCP_PATH then e_mcp_path e else q_path q);
          uri = (case q_query q of
                   Some query \<Rightarrow> if query \<noteq> [] then path @ ''?'' @ query else path
                 | None \<Rightarrow> path);
          kept = filter (\<lambda>h. \<not> (eq_ci (fst h) ''host'' \<or> eq_ci (fst h) ''content-length'')
                             \<and> \<not> is_stripped_request_header (fst h)) (q_headers q);
          r = \<lparr>lr_method = q_method q, lr_uri = uri,
               lr_headers = kept @ [(''host'', e_local_authority e)]\<rparr>
      in if e_builds e r then Some r else None)"

definition initial_body :: "env \<Rightarrow> req_parts \<Rightarrow> bytes list" where
  "initial_body e q =
     (if q_complete q then
        [case Option.bind (q_body q) (e_decode e) of Some s \<Rightarrow> s | None \<Rightarrow> []]
      else (case Option.bind (q_body q) (e_decode e) of Some s \<Rightarrow> [s] | None \<Rightarrow> []))"

section \<open>State\<close>

record finished_request =
  fn_method :: bytes
  fn_path :: bytes
  fn_rpc :: "bytes option"
  fn_status :: "16 word"

definition finished :: "env \<Rightarrow> req_parts \<Rightarrow> 16 word \<Rightarrow> finished_request" where
  "finished e q status =
     \<lparr>fn_method = q_method q, fn_path = q_path q, fn_rpc = rpc_label e q, fn_status = status\<rparr>"

record session_stop =
  so_after :: "32 word option"
  so_reclaim :: "reclaim option"
  so_fresh :: bool
  so_terminal :: "(bytes \<times> bytes) option"
  so_shutdown :: bool

text \<open>Outgoing messages; a text frame is printed only when it reaches the socket.\<close>

datatype out = OText frame | OPong bytes | OClose nat

text \<open>
  A spawned task waits for the local service, then writes the frames of the response; its tokens
  and its body channel are named by its number, because a relay may use an id twice.
\<close>

datatype task_state = Calling | Writing "frame list" "16 word"

record task =
  tk_parts :: req_parts
  tk_state :: task_state

datatype phase = LoopTop | Selecting | Stopped session_stop

record session =
  ss_phase :: phase
  ss_reclaim :: "reclaim option"
  ss_stats :: stats
  ss_bodies :: "64 word \<rightharpoonup> nat"
  ss_cancels :: "64 word \<rightharpoonup> nat"
  ss_cancelled :: "nat set"
  ss_fed :: "nat \<Rightarrow> bytes list"
  ss_tasks :: "nat \<rightharpoonup> task"
  ss_next :: nat
  ss_outq :: "out list"
  ss_doneq :: "64 word list"
  ss_wire :: "out list"
  ss_log :: "finished_request list"
  ss_go_away :: "32 word option"
  ss_terminal :: "bytes option"

definition OUT_CAP :: nat where [enum_defs]: "OUT_CAP = 32"

definition session_start :: "reclaim option \<Rightarrow> stats \<Rightarrow> session" where
  "session_start r st =
     \<lparr>ss_phase = LoopTop, ss_reclaim = r, ss_stats = st, ss_bodies = Map.empty,
      ss_cancels = Map.empty, ss_cancelled = {}, ss_fed = (\<lambda>_. []), ss_tasks = Map.empty,
      ss_next = 0, ss_outq = [], ss_doneq = [], ss_wire = [], ss_log = [], ss_go_away = None,
      ss_terminal = None\<rparr>"

definition terminal_go_away :: "bytes \<Rightarrow> bool" where
  "terminal_go_away reason \<longleftrightarrow>
     reason = ''replaced by a newer connection'' \<or> reason = ''endpoint deleted''"

definition stop_terminal :: "bytes \<Rightarrow> session_stop" where
  "stop_terminal reason =
     \<lparr>so_after = None, so_reclaim = None, so_fresh = False,
      so_terminal = Some (if reason = ''endpoint deleted''
                          then (''deleted'', ''endpoint was deleted; run tunnels list'')
                          else (''replaced'', reason)),
      so_shutdown = False\<rparr>"

definition stop_reconnect :: "reclaim option \<Rightarrow> 32 word option \<Rightarrow> session_stop" where
  "stop_reconnect r after =
     \<lparr>so_after = after, so_reclaim = r, so_fresh = False, so_terminal = None, so_shutdown = False\<rparr>"

definition stop_shutdown :: "reclaim option \<Rightarrow> session_stop" where
  "stop_shutdown r =
     \<lparr>so_after = None, so_reclaim = r, so_fresh = False, so_terminal = None, so_shutdown = True\<rparr>"

section \<open>Handlers of the socket loop\<close>

definition try_send :: "out \<Rightarrow> session \<Rightarrow> session" where
  "try_send m s = (if length (ss_outq s) < OUT_CAP then s\<lparr>ss_outq := ss_outq s @ [m]\<rparr> else s)"

text \<open>The error reply; its JSON text is the one \<open>error_response\<close> formats.\<close>

definition error_body :: "bytes \<Rightarrow> bytes" where
  "error_body message =
     ''{'' @ [CHR 0x22] @ ''jsonrpc'' @ [CHR 0x22] @ '':'' @ [CHR 0x22] @ ''2.0'' @ [CHR 0x22] @ '',''
     @ [CHR 0x22] @ ''error'' @ [CHR 0x22] @ '':{'' @ [CHR 0x22] @ ''code'' @ [CHR 0x22] @ '':-32000,''
     @ [CHR 0x22] @ ''message'' @ [CHR 0x22] @ '':'' @ [CHR 0x22] @ message @ [CHR 0x22] @ ''},''
     @ [CHR 0x22] @ ''id'' @ [CHR 0x22] @ '':null}''"

definition error_response :: "env \<Rightarrow> 64 word \<Rightarrow> 16 word \<Rightarrow> bytes \<Rightarrow> frame" where
  "error_response e i status message =
     ResponseStart i status
       [(''content-type'', ''application/json''), (''retry-after'', ''1'')] True
       (Some (e_encode e (error_body message)))"

definition too_busy :: "env \<Rightarrow> 64 word \<Rightarrow> frame" where
  "too_busy e i = error_response e i 429 ''too many in-flight requests''"

definition log_finished :: "finished_request \<Rightarrow> session \<Rightarrow> session" where
  "log_finished f s = s\<lparr>ss_log := ss_log s @ [f]\<rparr>"

definition accept_request :: "env \<Rightarrow> req_parts \<Rightarrow> session \<Rightarrow> session" where
  "accept_request e q s =
     (let (ok, st) = begin_request (e_max_inflight e) (ss_stats s); s0 = s\<lparr>ss_stats := st\<rparr> in
      if \<not> ok then
        try_send (OText (too_busy e (q_id q))) (log_finished (finished e q 429) s0)
      else
        (let t = ss_next s0;
             s1 = s0\<lparr>ss_next := Suc t, ss_cancels := (ss_cancels s0)(q_id q \<mapsto> t),
                     ss_fed := (ss_fed s0)(t := initial_body e q)\<rparr>;
             s2 = (if q_complete q then s1
                   else s1\<lparr>ss_bodies := (ss_bodies s1)(q_id q \<mapsto> t)\<rparr>)
         in case build_request e q of
              None \<Rightarrow>
                try_send (OText (error_response e (q_id q) 400 ''bad request''))
                  (log_finished (finished e q 400)
                     (s2\<lparr>ss_stats := end_request (ss_stats s2),
                          ss_cancels := (ss_cancels s2)(q_id q := None)\<rparr>))
            | Some _ \<Rightarrow>
                s2\<lparr>ss_tasks := (ss_tasks s2)(t \<mapsto> \<lparr>tk_parts = q, tk_state = Calling\<rparr>)\<rparr>))"

definition request_body_frame :: "env \<Rightarrow> 64 word \<Rightarrow> bytes \<Rightarrow> bool \<Rightarrow> session \<Rightarrow> session" where
  "request_body_frame e i chunk fin s =
     (case ss_bodies s i of
        None \<Rightarrow> s
      | Some t \<Rightarrow>
          (let s1 = (case e_decode e chunk of
                       Some d \<Rightarrow> s\<lparr>ss_fed := (ss_fed s)(t := ss_fed s t @ [d])\<rparr>
                     | None \<Rightarrow> (case ss_cancels s i of
                                  Some c \<Rightarrow> s\<lparr>ss_cancelled := insert c (ss_cancelled s)\<rparr>
                                | None \<Rightarrow> s))
           in if fin then s1\<lparr>ss_bodies := (ss_bodies s1)(i := None)\<rparr> else s1))"

definition cancel_frame :: "64 word \<Rightarrow> session \<Rightarrow> session" where
  "cancel_frame i s =
     (let s1 = (case ss_cancels s i of
                  Some c \<Rightarrow> s\<lparr>ss_cancelled := insert c (ss_cancelled s),
                             ss_cancels := (ss_cancels s)(i := None)\<rparr>
                | None \<Rightarrow> s)
      in s1\<lparr>ss_bodies := (ss_bodies s1)(i := None)\<rparr>)"

fun on_frame :: "env \<Rightarrow> frame \<Rightarrow> session \<Rightarrow> session" where
  "on_frame e (RequestStart i m p qu hs bc b ip rid) s =
     (if ss_go_away s \<noteq> None then s
      else accept_request e
        \<lparr>q_id = i, q_method = m, q_path = p, q_query = qu, q_headers = hs, q_complete = bc,
         q_body = b\<rparr> s)"
| "on_frame e (RequestBody i chunk fin) s = request_body_frame e i chunk fin s"
| "on_frame e (Cancel i r) s = cancel_frame i s"
| "on_frame e (Ping n) s = try_send (OText (Pong n)) s"
| "on_frame e (GoAway reason after) s =
     (if terminal_go_away reason
      then s\<lparr>ss_terminal := Some reason, ss_go_away := Some 0\<rparr>
      else s\<lparr>ss_go_away := Some after\<rparr>)"
| "on_frame e (Pong n) s = s"
| "on_frame e (ResponseStart i st hs bc b) s = s"
| "on_frame e (ResponseBody i c l) s = s"
| "on_frame e (StatsFrame i t) s = s"

text \<open>The test at the head of the loop.\<close>

definition drained :: "session \<Rightarrow> session_stop option" where
  "drained s =
     (case ss_go_away s of
        None \<Rightarrow> None
      | Some after \<Rightarrow>
          if st_inflight (ss_stats s) = 0 then
            (case ss_terminal s of
               Some reason \<Rightarrow> Some (stop_terminal reason)
             | None \<Rightarrow> Some (stop_reconnect (ss_reclaim s) (Some after)))
          else None)"

definition on_close :: "session \<Rightarrow> session_stop" where
  "on_close s = (case ss_terminal s of Some reason \<Rightarrow> stop_terminal reason
                 | None \<Rightarrow> stop_reconnect (ss_reclaim s) None)"

text \<open>The end of a task: the guard is dropped, then the call is logged.\<close>

definition finish_task :: "env \<Rightarrow> nat \<Rightarrow> task \<Rightarrow> 16 word \<Rightarrow> session \<Rightarrow> session" where
  "finish_task e t k status s =
     log_finished (finished e (tk_parts k) status)
       (s\<lparr>ss_tasks := (ss_tasks s)(t := None), ss_stats := end_request (ss_stats s),
          ss_doneq := ss_doneq s @ [q_id (tk_parts k)]\<rparr>)"

section \<open>Properties\<close>

text \<open>An environment whose library functions are the simplest that satisfy their laws.\<close>

definition plain_env :: env where
  "plain_env =
     \<lparr>e_decode = Some, e_encode = (\<lambda>x. x), e_parse = (\<lambda>_. None), e_builds = (\<lambda>_. True),
      e_mcp_path = ''/mcp'', e_local_authority = ''127.0.0.1:8787'', e_max_inflight = 16\<rparr>"

definition call_parts :: req_parts where
  "call_parts = \<lparr>q_id = 1, q_method = ''POST'', q_path = ''/mcp'', q_query = None, q_headers = [],
     q_complete = True, q_body = None\<rparr>"

text \<open>What a remote caller puts into a JSON-RPC request cannot drive the terminal that shows the
  request log: a label computed from a body holds no ASCII control byte, whatever the body says,
  batches included.\<close>

theorem request_label_without_controls:
  assumes "rpc_label e q = Some l" "c \<in> set l"
  shows "\<not> ctrl_byte c"
proof -
  obtain v where "label_from_value v = Some l"
    using assms(1) by (auto simp: rpc_label_def split: option.splits if_splits)
  then show ?thesis using label_from_value_no_ctrl assms(2) by (auto simp: no_ctrl_def)
qed

lemma request_label_without_controls_witness:
  "\<exists>e q. rpc_label e q = Some ''ping'' \<and> \<not> ctrl_byte (CHR ''p'')"
proof -
  let ?e = "plain_env\<lparr>e_parse := \<lambda>_. Some (JObj [(''method'', JStr ''ping'')])\<rparr>"
  let ?q = "call_parts\<lparr>q_body := Some ''x''\<rparr>"
  have "is_safe_label ''ping''" "bound_part ''ping'' = ''ping''"
    by (simp_all add: is_safe_label_def code_point.simps is_cont_def safe_label_char_def cp_control_def
        cp_whitespace_def bound_part_def count_chars_def RPC_PART_CAP_def)
  moreover have "\<not> RPC_BODY_CAP < length ''x''" "\<not> rpc_b64_cap RPC_BODY_CAP < length ''x''"
    by (simp_all add: RPC_BODY_CAP_def rpc_b64_cap_def)
  ultimately have l: "rpc_label ?e ?q = Some ''ping''"
    by (simp add: rpc_label_def plain_env_def call_parts_def label_one_def)
  show ?thesis using l request_label_without_controls [OF l, of "CHR ''p''"] by auto
qed

text \<open>The request the local service sees carries one \<open>Host\<close>, the local authority, whatever the
  remote caller sent, and no hop-by-hop header, cookie or content length of the caller's; every
  other header of the caller's arrives, in order. The public path becomes the local MCP path.\<close>

theorem local_request_headers:
  assumes "build_request e q = Some r"
  shows "filter (\<lambda>h. eq_ci (fst h) ''host'') (lr_headers r) = [(''host'', e_local_authority e)]
     \<and> list_all (\<lambda>h. \<not> is_stripped_request_header (fst h) \<and> \<not> eq_ci (fst h) ''content-length'')
         (lr_headers r)
     \<and> filter (\<lambda>h. \<not> eq_ci (fst h) ''host'') (lr_headers r) =
         filter (\<lambda>h. \<not> is_stripped_request_header (fst h) \<and> \<not> eq_ci (fst h) ''host''
                     \<and> \<not> eq_ci (fst h) ''content-length'') (q_headers q)
     \<and> starts_with (lr_uri r) (if q_path q = MCP_PATH then e_mcp_path e else q_path q)"
proof (intro conjI)
  let ?keep = "\<lambda>h. \<not> (eq_ci (fst h) ''host'' \<or> eq_ci (fst h) ''content-length'')
     \<and> \<not> is_stripped_request_header (fst h)"
  have hs: "lr_headers r = filter ?keep (q_headers q) @ [(''host'', e_local_authority e)]"
    using assms by (auto simp: build_request_def Let_def split: if_splits)
  have host: "\<not> is_stripped_request_header ''host''" "\<not> eq_ci ''host'' ''content-length''"
    by code_simp+
  show "filter (\<lambda>h. eq_ci (fst h) ''host'') (lr_headers r) = [(''host'', e_local_authority e)]"
    unfolding hs by (auto simp: filter_empty_conv)
  show "list_all (\<lambda>h. \<not> is_stripped_request_header (fst h) \<and> \<not> eq_ci (fst h) ''content-length'')
      (lr_headers r)"
    unfolding hs using host by (auto simp: list_all_iff)
  show "filter (\<lambda>h. \<not> eq_ci (fst h) ''host'') (lr_headers r) =
      filter (\<lambda>h. \<not> is_stripped_request_header (fst h) \<and> \<not> eq_ci (fst h) ''host''
                  \<and> \<not> eq_ci (fst h) ''content-length'') (q_headers q)"
    unfolding hs by (auto intro: filter_cong)
  show "starts_with (lr_uri r) (if q_path q = MCP_PATH then e_mcp_path e else q_path q)"
    using assms by (auto simp: build_request_def Let_def split: if_splits option.splits)
qed

lemma local_request_headers_witness:
  "\<exists>r. build_request plain_env (call_parts\<lparr>q_headers := [(''Host'', ''x''), (''Cookie'', ''c''), (''a'', ''b'')]\<rparr>)
         = Some r
     \<and> filter (\<lambda>h. \<not> eq_ci (fst h) ''host'') (lr_headers r) = [(''a'', ''b'')]"
proof -
  let ?q = "call_parts\<lparr>q_headers := [(''Host'', ''x''), (''Cookie'', ''c''), (''a'', ''b'')]\<rparr>"
  obtain r where r: "build_request plain_env ?q = Some r"
    by (simp add: build_request_def plain_env_def Let_def)
  have "filter (\<lambda>h. \<not> is_stripped_request_header (fst h) \<and> \<not> eq_ci (fst h) ''host''
      \<and> \<not> eq_ci (fst h) ''content-length'') [(''Host'', ''x''), (''Cookie'', ''c''), (''a'', ''b'')] = [(''a'', ''b'')]"
    by code_simp
  with local_request_headers [OF r] r show ?thesis by simp
qed

end
