(* ===== verification/Local_Upstream.thy ===== *)
theory Local_Upstream
  imports Tunnel_Session Http_Headers Ir_Types
begin

text \<open>
  The upstream side of \<open>mcp-gateway tunnel\<close> (\<open>mcp-gateway-tunnel/src/upstream/\<close>): which addresses
  may be dialled (\<open>policy.rs\<close>), the bearer gate in front of an upstream (\<open>auth.rs\<close>), the replies it
  makes itself (\<open>mod.rs\<close>), and the HTTP upstream with its probe (\<open>http.rs\<close>). URL parsing, the
  system resolver, JSON text and the HTTP client are arguments. A request is the \<open>local_request\<close> the
  tunnel session builds, a reply its \<open>response\<close>, and a body is its bytes.
\<close>

section \<open>Addresses (policy.rs)\<close>

datatype pin_error = Pin_Refused bytes | Pin_Resolve bytes

record pinned_upstream =
  pu_url :: url
  pu_addr :: ip
  pu_port :: "16 word"
  pu_resolve_host :: bytes
  pu_host_header :: bytes

definition is_metadata :: "ip \<Rightarrow> bool" where
  "is_metadata i = (case i of V4 v \<Rightarrow> is_metadata_v4 v | V6 v \<Rightarrow> is_metadata_v6 v)"

definition is_local :: "ip \<Rightarrow> bool" where
  "is_local i =
     (case i of V4 v \<Rightarrow> v4_loopback v \<or> v4_private v | V6 v \<Rightarrow> v6_loopback v \<or> v6_unique_local v)"

definition blocked_message :: "ip \<Rightarrow> bytes" where
  "blocked_message i =
     ''upstream address '' @ show_ip i
       @ '' is blocked (metadata, documentation, or another non-global range)''"

definition address_allowed :: "bool \<Rightarrow> ip \<Rightarrow> bool \<Rightarrow> bytes + unit" where
  "address_allowed sh addr allow_remote =
     (let i = unwrap_ip addr in
      if is_metadata i then Inl (blocked_message i)
      else if is_local i then Inr ()
      else if is_blocked_ip sh i then Inl (blocked_message i)
      else if allow_remote then Inr ()
      else Inl (''upstream address '' @ show_ip i @ '' is public; pass --allow-remote-upstream to allow it''))"

fun check_upstream_addrs :: "bool \<Rightarrow> bool \<Rightarrow> ip list \<Rightarrow> pin_error + unit" where
  "check_upstream_addrs sh allow_remote [] = Inr ()"
| "check_upstream_addrs sh allow_remote (i # rest) =
     (case address_allowed sh i allow_remote of
        Inl message \<Rightarrow> Inl (Pin_Refused message)
      | Inr _ \<Rightarrow> check_upstream_addrs sh allow_remote rest)"

definition host_header :: "url \<Rightarrow> bytes \<Rightarrow> 16 word \<Rightarrow> bytes" where
  "host_header u host port =
     (let default_port = (if url_scheme u = ''https'' then 443 else 80) in
      if port = default_port \<and> url_port u = None then host
      else if contains host '':'' then ''['' @ host @ '']:'' @ show_nat (unat port)
      else host @ '':'' @ show_nat (unat port))"

text \<open>The host without brackets, and the address when it is a literal.\<close>

fun resolve_host_of :: "host \<Rightarrow> bytes \<times> ip option" where
  "resolve_host_of (Domain d) = (d, None)"
| "resolve_host_of (Host_V4 v) = (show_ipv4 v, Some (V4 v))"
| "resolve_host_of (Host_V6 v) = (show_ipv6 v, Some (V6 v))"

definition upstream_addrs ::
    "(bytes \<Rightarrow> 16 word \<Rightarrow> bytes + ip list) \<Rightarrow> bytes \<times> ip option \<Rightarrow> 16 word \<Rightarrow> pin_error + ip list" where
  "upstream_addrs lookup h port =
     (case snd h of
        Some i \<Rightarrow> Inr [i]
      | None \<Rightarrow>
          (case lookup (fst h) port of
             Inl err \<Rightarrow> Inl (Pin_Resolve (''could not resolve '' @ fst h @ '': '' @ err))
           | Inr ips \<Rightarrow>
               if ips = [] then Inl (Pin_Resolve (''could not resolve '' @ fst h @ '': no addresses''))
               else Inr ips))"

definition pin_upstream ::
    "bool \<Rightarrow> (bytes \<Rightarrow> bytes + url) \<Rightarrow> (bytes \<Rightarrow> 16 word \<Rightarrow> bytes + ip list) \<Rightarrow> bytes \<Rightarrow> bool
     \<Rightarrow> pin_error + pinned_upstream" where
  "pin_upstream sh parse_url lookup raw allow_remote =
     (case parse_url raw of
        Inl err \<Rightarrow> Inl (Pin_Refused (''invalid upstream URL: '' @ err))
      | Inr u \<Rightarrow>
          if url_scheme u \<noteq> ''http'' \<and> url_scheme u \<noteq> ''https''
          then Inl (Pin_Refused (''upstream scheme '' @ url_scheme u @ '' is not allowed; use http or https''))
          else if url_username u \<noteq> [] \<or> url_password u \<noteq> None
          then Inl (Pin_Refused ''upstream URL must not contain a username or password'')
          else case url_host u of
            None \<Rightarrow> Inl (Pin_Refused ''upstream URL is missing a host'')
          | Some h \<Rightarrow>
              (case port_or_default u of
                 None \<Rightarrow> Inl (Pin_Refused ''upstream URL is missing a port'')
               | Some port \<Rightarrow>
                   if port = 0 then Inl (Pin_Refused ''upstream port 0 is not allowed'')
                   else and_then (upstream_addrs lookup (resolve_host_of h) port) (\<lambda>ips.
                     and_then (check_upstream_addrs sh allow_remote ips) (\<lambda>_.
                       Inr \<lparr>pu_url = u, pu_addr = hd ips, pu_port = port,
                            pu_resolve_host = fst (resolve_host_of h),
                            pu_host_header = host_header u (fst (resolve_host_of h)) port\<rparr>))))"

section \<open>Replies (mod.rs)\<close>

text \<open>\<open>show\<close> prints JSON.\<close>

definition rpc_response :: "(json \<Rightarrow> bytes) \<Rightarrow> 16 word \<Rightarrow> int \<Rightarrow> bytes \<Rightarrow> json \<Rightarrow> response \<times> bytes" where
  "rpc_response show status code message rpc_id =
     (\<lparr>rp_status = status,
       rp_headers = (''content-type'', Some ''application/json'')
         # (if status = 401 then [(''www-authenticate'', Some ''Bearer'')] else [])\<rparr>,
      show (JObj [(''jsonrpc'', JStr ''2.0''),
        (''error'', JObj [(''code'', JNum (if code < 0 then NegInt code else PosInt (nat code))),
                          (''message'', JStr message)]),
        (''id'', rpc_id)]))"

definition empty_response :: "16 word \<Rightarrow> response \<times> bytes" where
  "empty_response status = (\<lparr>rp_status = status, rp_headers = []\<rparr>, [])"

definition json_body :: "(json \<Rightarrow> bytes) \<Rightarrow> 16 word \<Rightarrow> json \<Rightarrow> response \<times> bytes" where
  "json_body show status body =
     (\<lparr>rp_status = status, rp_headers = [(''content-type'', Some ''application/json'')]\<rparr>, show body)"

type_synonym local_service = "local_request \<Rightarrow> bytes \<Rightarrow> response \<times> bytes"

text \<open>\<open>serve_local\<close>: the path of the request, and the service behind \<open>/mcp\<close>.\<close>

definition serve_local :: "(bytes \<Rightarrow> bytes) \<Rightarrow> local_service \<Rightarrow> local_service" where
  "serve_local uri_path service rq body =
     (if uri_path (lr_uri rq) \<noteq> ''/mcp'' then empty_response 404 else service rq body)"

section \<open>The gate (auth.rs)\<close>

datatype proxy_auth = Auth_Token | Auth_Passthrough | Auth_Public

datatype bearer_status = Bearer_Match | Bearer_Missing | Bearer_Invalid

definition bearer_status_of :: "hlib \<Rightarrow> hmap \<Rightarrow> bytes option \<Rightarrow> bearer_status" where
  "bearer_status_of hl headers expected =
     (case Option.bind expected (\<lambda>s. if s \<noteq> [] then Some s else None) of
        None \<Rightarrow> Bearer_Missing
      | Some expected \<Rightarrow>
          (case Option.bind (Option.bind (hget ''authorization'' headers) (hl_to_str hl))
                  (strip_prefix ''Bearer '') of
             None \<Rightarrow> Bearer_Missing
           | Some got \<Rightarrow>
               if length got = length expected \<and> got = expected then Bearer_Match else Bearer_Invalid))"

definition strip_authorization :: "local_request \<Rightarrow> local_request" where
  "strip_authorization rq = rq\<lparr>lr_headers := hremove ''authorization'' (lr_headers rq)\<rparr>"

definition auth_gate ::
    "hlib \<Rightarrow> (json \<Rightarrow> bytes) \<Rightarrow> proxy_auth \<Rightarrow> bytes option \<Rightarrow> local_service \<Rightarrow> local_service" where
  "auth_gate hl show mode token inner rq body =
     (case mode of
        Auth_Passthrough \<Rightarrow> inner rq body
      | Auth_Public \<Rightarrow> inner (strip_authorization rq) body
      | Auth_Token \<Rightarrow>
          (case bearer_status_of hl (lr_headers rq) token of
             Bearer_Match \<Rightarrow> inner (strip_authorization rq) body
           | Bearer_Missing \<Rightarrow> rpc_response show 401 (- 32000) ''missing authorization'' JNull
           | Bearer_Invalid \<Rightarrow> rpc_response show 401 (- 32000) ''invalid authorization'' JNull))"

section \<open>The HTTP upstream (http.rs)\<close>

definition ACCEPT :: bytes where
  "ACCEPT = ''application/json, text/event-stream''"

definition PROBE_PROTOCOL :: bytes where
  "PROBE_PROTOCOL = ''2025-06-18''"

record probe_report =
  pr_name :: bytes
  pr_version :: bytes
  pr_tools :: nat
  pr_tools_skipped :: bool

definition probe_summary :: "probe_report \<Rightarrow> bytes" where
  "probe_summary r =
     (if pr_name r = [] \<and> pr_tools_skipped r then ''skipped''
      else if pr_tools_skipped r then pr_name r @ '' '' @ pr_version r @ '', tools/list skipped''
      else pr_name r @ '' '' @ pr_version r @ '', '' @ show_nat (pr_tools r) @ '' tools'')"

record http_upstream =
  hu_url :: url
  hu_host_header :: bytes

definition from_pinned :: "pinned_upstream \<Rightarrow> http_upstream" where
  "from_pinned p = \<lparr>hu_url = pu_url p, hu_host_header = pu_host_header p\<rparr>"

definition skip_request_header :: "bytes \<Rightarrow> bool" where
  "skip_request_header name \<longleftrightarrow>
     is_hop_by_hop_header name \<or> eq_ci name ''cookie'' \<or> eq_ci name ''host'' \<or> eq_ci name ''content-length''"

definition skip_response_header :: "bytes \<Rightarrow> bool" where
  "skip_response_header name \<longleftrightarrow> is_hop_by_hop_header name \<or> eq_ci name ''content-length''"

text \<open>What the client is asked to send, and what it answers.\<close>

record upstream_request =
  ur_method :: bytes
  ur_url :: url
  ur_headers :: hmap
  ur_body :: bytes

datatype send_answer =
    Answered "16 word" "(bytes \<times> bytes option) list" bytes
  | Send_Timeout
  | Send_Failed

definition upstream_request_of :: "http_upstream \<Rightarrow> local_request \<Rightarrow> bytes \<Rightarrow> upstream_request" where
  "upstream_request_of hu rq body =
     \<lparr>ur_method = lr_method rq, ur_url = hu_url hu,
      ur_headers = (''host'', hu_host_header hu) # filter (\<lambda>h. \<not> skip_request_header (fst h)) (lr_headers rq),
      ur_body = body\<rparr>"

definition forward ::
    "(json \<Rightarrow> bytes) \<Rightarrow> (bytes \<Rightarrow> bool) \<Rightarrow> (upstream_request \<Rightarrow> send_answer) \<Rightarrow> http_upstream \<Rightarrow> local_service" where
  "forward show method_ok send hu rq body =
     (if \<not> method_ok (lr_method rq) then rpc_response show 400 (- 32600) ''unsupported method'' JNull
      else case send (upstream_request_of hu rq body) of
        Send_Timeout \<Rightarrow> rpc_response show 504 (- 32001) ''upstream timeout'' JNull
      | Send_Failed \<Rightarrow> rpc_response show 502 (- 32001) ''upstream unreachable'' JNull
      | Answered status headers bytes \<Rightarrow>
          (\<lparr>rp_status = status, rp_headers = filter (\<lambda>h. \<not> skip_response_header (fst h)) headers\<rparr>, bytes))"

text \<open>\<open>str::lines\<close>: newline-terminated pieces without a final carriage return.\<close>

definition strip_cr :: "bytes \<Rightarrow> bytes" where
  "strip_cr s = (if ends_with s [CHR 0x0D] then butlast s else s)"

definition str_lines :: "bytes \<Rightarrow> bytes list" where
  "str_lines s =
     (let ls = split_by ((=) CHR 0x0A) s in
      (if last ls = [] then map strip_cr (butlast ls)
       else map strip_cr (butlast ls) @ [last ls]))"

definition data_line :: "bytes \<Rightarrow> bytes option" where
  "data_line line =
     Option.bind (strip_prefix ''data:'' line) (\<lambda>rest0.
       let rest = (case strip_prefix '' '' rest0 of Some r \<Rightarrow> r | None \<Rightarrow> rest0) in
       if rest = [] \<or> rest = ''[DONE]'' then None else Some rest)"

definition sse_json :: "(bytes \<Rightarrow> json option) \<Rightarrow> bytes \<Rightarrow> bytes + bytes" where
  "sse_json parse body =
     (let ls = List.map_filter data_line (str_lines body) in
      if ls = [] then Inl ''event stream contained no data''
      else if parse (join_with [CHR 0x0A] ls) \<noteq> None then Inr (join_with [CHR 0x0A] ls)
      else case find (\<lambda>l. parse l \<noteq> None) ls of
        Some l \<Rightarrow> Inr l
      | None \<Rightarrow> Inl ''event stream data was not JSON'')"

section \<open>The probe\<close>

record probe_env =
  pe_show :: "json \<Rightarrow> bytes"
  pe_parse :: "bytes \<Rightarrow> json option"
  pe_send :: "upstream_request \<Rightarrow> send_answer"
  pe_decode :: "(bytes \<times> bytes option) list \<Rightarrow> bytes \<Rightarrow> bytes + bytes"
  pe_version :: bytes

type_synonym rpc_answer = "16 word \<times> (bytes \<times> bytes option) list \<times> bytes"

definition rpc_payload :: "bytes \<Rightarrow> 64 word option \<Rightarrow> json \<Rightarrow> json" where
  "rpc_payload method rpc_id params =
     JObj ([(''jsonrpc'', JStr ''2.0''), (''method'', JStr method), (''params'', params)]
       @ (case rpc_id of Some i \<Rightarrow> [(''id'', jword i)] | None \<Rightarrow> []))"

definition rpc ::
    "probe_env \<Rightarrow> http_upstream \<Rightarrow> bytes \<Rightarrow> 64 word option \<Rightarrow> json \<Rightarrow> bytes option \<Rightarrow> bytes option
     \<Rightarrow> bytes + rpc_answer" where
  "rpc pe hu method rpc_id params session authorization =
     (case pe_send pe
        \<lparr>ur_method = ''POST'', ur_url = hu_url hu,
         ur_headers = [(''host'', hu_host_header hu), (''accept'', ACCEPT), (''content-type'', ''application/json'')]
           @ (case session of Some s \<Rightarrow> [(''mcp-session-id'', s)] | None \<Rightarrow> [])
           @ (case authorization of Some a \<Rightarrow> [(''authorization'', ''Bearer '' @ a)] | None \<Rightarrow> []),
         ur_body = pe_show pe (rpc_payload method rpc_id params)\<rparr> of
        Send_Timeout \<Rightarrow> Inl ''upstream timeout''
      | Send_Failed \<Rightarrow> Inl ''upstream unreachable''
      | Answered status headers bytes \<Rightarrow>
          and_then (pe_decode pe headers bytes) (\<lambda>body. Inr (status, headers, body)))"

definition header_str :: "(bytes \<times> bytes option) list \<Rightarrow> bytes \<Rightarrow> bytes option" where
  "header_str headers name = Option.bind (map_of headers name) id"

definition parse_rpc :: "(bytes \<Rightarrow> json option) \<Rightarrow> bytes option \<Rightarrow> bytes \<Rightarrow> bytes + json" where
  "parse_rpc parse content_type body =
     and_then (if (case content_type of Some v \<Rightarrow> contains v ''text/event-stream'' | None \<Rightarrow> False)
               then sse_json parse body else Inr body)
       (\<lambda>payload. case parse payload of
          Some v \<Rightarrow> Inr v
        | None \<Rightarrow> Inl ''response was not JSON'')"

definition is_success :: "16 word \<Rightarrow> bool" where
  "is_success status \<longleftrightarrow> 200 \<le> status \<and> status < 300"

text \<open>A call of the probe: its HTTP status, its body, and the JSON-RPC error in it.\<close>

definition probe_call :: "probe_env \<Rightarrow> bytes \<Rightarrow> bytes + rpc_answer \<Rightarrow> bytes + (json \<times> (bytes \<times> bytes option) list)" where
  "probe_call pe method answer =
     and_then answer (\<lambda>(status, headers, body).
       if \<not> is_success status then Inl (method @ '' returned HTTP '' @ show_nat (unat status))
       else and_then (parse_rpc (pe_parse pe) (header_str headers ''content-type'') body) (\<lambda>message.
         case jget ''error'' message of
           Some error \<Rightarrow> Inl (method @ '' failed: '' @ pe_show pe error)
         | None \<Rightarrow> Inr (message, headers)))"

definition str_at :: "bytes \<Rightarrow> bytes \<Rightarrow> json \<Rightarrow> bytes" where
  "str_at a b v =
     (case Option.bind (Option.bind (jget a v) (jget b)) as_str of Some s \<Rightarrow> s | None \<Rightarrow> ''unknown'')"

definition initialize_params :: "bytes \<Rightarrow> json" where
  "initialize_params version =
     JObj [(''protocolVersion'', JStr PROBE_PROTOCOL), (''capabilities'', JObj []),
       (''clientInfo'', JObj [(''name'', JStr ''mcp-gateway''), (''version'', JStr version)])]"

definition note_refused :: "bytes + rpc_answer \<Rightarrow> bytes + unit" where
  "note_refused note =
     (case note of
        Inr (status, _, _) \<Rightarrow>
          if 400 \<le> status then Inl (''notifications/initialized returned HTTP '' @ show_nat (unat status))
          else Inr ()
      | Inl _ \<Rightarrow> Inr ())"

text \<open>
  \<open>probe\<close>. The text of a failure is without the hint the code puts behind every failure alike.
\<close>

definition probe :: "probe_env \<Rightarrow> http_upstream \<Rightarrow> bytes option \<Rightarrow> bytes + probe_report" where
  "probe pe hu authorization =
     and_then (probe_call pe ''initialize''
         (rpc pe hu ''initialize'' (Some 1) (initialize_params (pe_version pe)) None authorization))
       (\<lambda>(message, headers).
     and_then (ok_or ''initialize response had no result'' (jget ''result'' message)) (\<lambda>result.
       let session = header_str headers ''mcp-session-id'' in
     and_then (note_refused (rpc pe hu ''notifications/initialized'' None (JObj []) session authorization)) (\<lambda>_.
     and_then (probe_call pe ''tools/list'' (rpc pe hu ''tools/list'' (Some 2) (JObj []) session authorization))
       (\<lambda>(listed, _).
     and_then (ok_or ''tools/list did not return a tools array''
         (Option.bind (Option.bind (jget ''result'' listed) (jget ''tools'')) as_array)) (\<lambda>tools.
       Inr \<lparr>pr_name = str_at ''serverInfo'' ''name'' result, pr_version = str_at ''serverInfo'' ''version'' result,
            pr_tools = length tools, pr_tools_skipped = False\<rparr>)))))"

section \<open>Which addresses may be dialled\<close>

lemma metadata_blocked: "is_metadata i \<Longrightarrow> unwrap_ip i = i \<Longrightarrow> is_blocked_ip sh i"
  by (cases i) (auto simp: is_metadata_def is_blocked_ip_def is_blocked_ip_with_policy_def policy_default_def
      allow_metadata_def metadata_not_loopback)

lemma local_blocked:
  assumes "is_local i" "unwrap_ip i = i"
  shows "is_blocked_ip sh i"
proof (cases i)
  case (V4 v)
  then have "ipv4_denied v"
    using assms(1) by (cases v) (auto simp: is_local_def ipv4_denied_octets)
  with V4 show ?thesis
    by (auto simp: is_blocked_ip_def is_blocked_ip_with_policy_def policy_default_def allow_private_networks_def)
next
  case (V6 v)
  have "ipv6_denied v"
    using assms(1) V6 ipv6_denied_ranges(3) [of v] ipv6_denied_ranges(1) [of v]
    by (auto simp: is_local_def v6_loopback_def IPV6_DENY_ROWS_def)
  with V6 assms(2) show ?thesis
    by (auto simp: is_blocked_ip_def is_blocked_ip_with_policy_def policy_default_def allow_private_networks_def)
qed

lemma address_allowed_Inr:
  "address_allowed sh a allow_remote = Inr u \<longleftrightarrow>
     \<not> is_metadata (unwrap_ip a)
     \<and> (is_local (unwrap_ip a) \<or> \<not> is_blocked_ip sh (unwrap_ip a) \<and> allow_remote)"
  by (auto simp: address_allowed_def Let_def)

lemma check_upstream_addrs_Inr:
  "check_upstream_addrs sh allow_remote addrs = Inr u \<longleftrightarrow>
     (\<forall>a \<in> set addrs. address_allowed sh a allow_remote = Inr ())"
proof (induction addrs)
  case (Cons a addrs)
  then show ?case by (cases "address_allowed sh a allow_remote") simp_all
qed simp

interpretation upstream_gate:
  answer_gate "\<lambda>a. address_allowed sh a allow_remote \<noteq> Inr ()"
    "\<lambda>addrs. check_upstream_addrs sh allow_remote addrs = Inr ()"
  for sh allow_remote
  by unfold_locales (simp_all add: check_upstream_addrs_Inr del: check_upstream_addrs.simps)

text \<open>C25: the tunnel's address policy is the inverse of the proxy's: without the remote flag only
  addresses that the proxy's default policy blocks are allowed, an address the proxy would dial is
  allowed exactly with the flag, and a metadata address never.\<close>

theorem tunnel_policy_inverts_proxy:
  "(address_allowed sh a False = Inr () \<longrightarrow> is_blocked_ip sh a)
   \<and> (\<not> is_blocked_ip sh a \<longrightarrow> (address_allowed sh a allow_remote = Inr () \<longleftrightarrow> allow_remote))
   \<and> (is_metadata (unwrap_ip a) \<longrightarrow> address_allowed sh a allow_remote \<noteq> Inr ())"
proof -
  have b: "is_blocked_ip sh (unwrap_ip a) = is_blocked_ip sh a"
    by (simp add: is_blocked_ip_def blocked_unwrap)
  show ?thesis
    using local_blocked [of "unwrap_ip a" sh] metadata_blocked [of "unwrap_ip a" sh]
    by (auto simp: address_allowed_Inr b unwrap_idem)
qed

theorem tunnel_policy_inverts_proxy_witness:
  "address_allowed False (V4 (IPv4 127 0 0 1)) False = Inr ()
   \<and> is_blocked_ip False (V4 (IPv4 127 0 0 1))
   \<and> address_allowed False (V4 (IPv4 169 254 169 254)) True \<noteq> Inr ()"
  using tunnel_policy_inverts_proxy [of False "V4 (IPv4 127 0 0 1)" True]
    tunnel_policy_inverts_proxy [of False "V4 (IPv4 169 254 169 254)" True]
  by (simp add: address_allowed_Inr is_metadata_def is_local_def)

text \<open>An upstream is pinned only when every address its name resolved to is allowed: the URL is
  HTTP or HTTPS without credentials, the port is not 0, the pinned address is the first one, and
  without the remote flag each address is loopback or private after unwrapping.\<close>

theorem pinned_upstream_is_allowed:
  assumes "pin_upstream sh parse_url lookup raw allow_remote = Inr p"
  shows "\<exists>u h addrs. parse_url raw = Inr u \<and> url_scheme u \<in> {''http'', ''https''}
    \<and> url_username u = [] \<and> url_password u = None \<and> pu_port p \<noteq> 0
    \<and> url_host u = Some h \<and> upstream_addrs lookup (resolve_host_of h) (pu_port p) = Inr addrs
    \<and> addrs \<noteq> [] \<and> pu_addr p = hd addrs
    \<and> (\<forall>a \<in> set addrs. \<not> is_metadata (unwrap_ip a)
         \<and> (is_local (unwrap_ip a) \<or> allow_remote \<and> \<not> is_blocked_ip sh a))"
proof -
  have ne: "upstream_addrs lookup h port = Inr addrs \<Longrightarrow> addrs \<noteq> []" for h port addrs
    by (auto simp: upstream_addrs_def split: option.splits sum.splits if_splits)
  have b: "is_blocked_ip sh (unwrap_ip a) = is_blocked_ip sh a" for a
    by (simp add: is_blocked_ip_def blocked_unwrap)
  from assms obtain u h port addrs where r: "parse_url raw = Inr u" "url_scheme u \<in> {''http'', ''https''}"
    "url_username u = []" "url_password u = None" "url_host u = Some h" "port_or_default u = Some port" "port \<noteq> 0"
    "upstream_addrs lookup (resolve_host_of h) port = Inr addrs"
    "check_upstream_addrs sh allow_remote addrs = Inr ()" "pu_addr p = hd addrs" "pu_port p = port"
    by (auto simp: pin_upstream_def split: sum.splits option.splits if_splits)
  from r(9) have "\<forall>a \<in> set addrs. address_allowed sh a allow_remote = Inr ()"
    by (simp add: check_upstream_addrs_Inr)
  with r ne [OF r(8)] show ?thesis
    by (intro exI [of _ u] exI [of _ h] exI [of _ addrs]) (auto simp: address_allowed_Inr b)
qed

definition sample_local_url :: "host \<Rightarrow> url" where
  "sample_local_url h =
     \<lparr>url_scheme = ''http'', url_username = [], url_password = None, url_host = Some h, url_port = None,
      url_path = ''/mcp'', url_query = None, url_fragment = None\<rparr>"

theorem pinned_upstream_is_allowed_witness:
  "\<exists>p. pin_upstream False (\<lambda>_. Inr (sample_local_url (Domain ''localhost''))) (\<lambda>_ _. Inr [V4 (IPv4 127 0 0 1)])
        ''http://localhost/mcp'' False = Inr p
     \<and> pu_addr p = V4 (IPv4 127 0 0 1)"
proof -
  obtain p where p: "pin_upstream False (\<lambda>_. Inr (sample_local_url (Domain ''localhost'')))
      (\<lambda>_ _. Inr [V4 (IPv4 127 0 0 1)]) ''http://localhost/mcp'' False = Inr p"
    by (simp add: pin_upstream_def sample_local_url_def port_or_default_def known_default_def upstream_addrs_def
        address_allowed_def is_metadata_def is_local_def Let_def)
  from pinned_upstream_is_allowed [OF p] p show ?thesis
    by (auto simp: upstream_addrs_def sample_local_url_def)
qed

text \<open>An IPv6 literal on its scheme's default port makes a \<open>Host\<close> header without brackets.\<close>

theorem ipv6_host_header_unbracketed:
  "host_header (sample_local_url (Host_V6 (IPv6 0 0 0 0 0 0 0 1))) (show_ipv6 (IPv6 0 0 0 0 0 0 0 1)) 80 = ''::1''"
  by code_simp

section \<open>What reaches the upstream\<close>

lemma bearer_Match_iff:
  "bearer_status_of hl headers expected = Bearer_Match \<longleftrightarrow>
     (\<exists>t v. expected = Some t \<and> t \<noteq> [] \<and> hget ''authorization'' headers = Some v
        \<and> hl_to_str hl v = Some (''Bearer '' @ t))"
proof -
  have eq: "(case got of None \<Rightarrow> Bearer_Missing
      | Some g \<Rightarrow> if length g = length t \<and> g = t then Bearer_Match else Bearer_Invalid) = Bearer_Match
      \<longleftrightarrow> got = Some t" for got t
    by (auto split: option.split)
  show ?thesis
    by (cases expected) (auto simp: bearer_status_of_def eq bind_eq_Some_conv simp del: append.simps)
qed

text \<open>In token mode the upstream is called exactly for a request whose bearer is the configured,
  non-empty token, and without the header that carried it; every other request is answered 401 with
  a bearer challenge, whatever the upstream would do.\<close>

theorem token_gate_exact:
  "auth_gate hl show Auth_Token token inner rq body =
     (if \<exists>t v. token = Some t \<and> t \<noteq> [] \<and> hget ''authorization'' (lr_headers rq) = Some v
           \<and> hl_to_str hl v = Some (''Bearer '' @ t)
      then inner (strip_authorization rq) body
      else rpc_response show 401 (- 32000)
             (if bearer_status_of hl (lr_headers rq) token = Bearer_Missing then ''missing authorization''
              else ''invalid authorization'') JNull)
   \<and> (''www-authenticate'', Some ''Bearer'')
        \<in> set (rp_headers (fst (rpc_response show 401 (- 32000) message JNull)))
   \<and> hget ''authorization'' (lr_headers (strip_authorization rq)) = None"
proof -
  have gone: "hget ''authorization'' (lr_headers (strip_authorization rq)) = None"
    by (auto simp: strip_authorization_def hget_def hremove_def map_of_eq_None_iff)
  show ?thesis
    unfolding bearer_Match_iff [symmetric]
    using gone by (cases "bearer_status_of hl (lr_headers rq) token") (simp_all add: auth_gate_def rpc_response_def)
qed

text \<open>
  Header names of a built request are lower case, as the header map keeps them. What a request to
  the upstream looks like, whatever came in:
\<close>

definition names_lower :: "local_request \<Rightarrow> bool" where
  "names_lower rq \<longleftrightarrow> (\<forall>h \<in> set (lr_headers rq). to_lower (fst h) = fst h)"

definition clean_request :: "proxy_auth \<Rightarrow> http_upstream \<Rightarrow> upstream_request \<Rightarrow> bool" where
  "clean_request mode hu q \<longleftrightarrow>
     ur_url q = hu_url hu
     \<and> filter (\<lambda>h. eq_ci (fst h) ''host'') (ur_headers q) = [(''host'', hu_host_header hu)]
     \<and> (\<forall>h \<in> set (ur_headers q). \<not> is_hop_by_hop_header (fst h) \<and> \<not> eq_ci (fst h) ''cookie''
          \<and> \<not> eq_ci (fst h) ''content-length'')
     \<and> (mode \<noteq> Auth_Passthrough \<longrightarrow> (\<forall>h \<in> set (ur_headers q). \<not> eq_ci (fst h) ''authorization''))"

lemma upstream_request_clean:
  assumes "mode \<noteq> Auth_Passthrough \<Longrightarrow> \<forall>h \<in> set (lr_headers rq). \<not> eq_ci (fst h) ''authorization''"
  shows "clean_request mode hu (upstream_request_of hu rq body)"
proof -
  have "filter (\<lambda>h. eq_ci (fst h) ''host'') (filter (\<lambda>h. \<not> skip_request_header (fst h)) hs) = []" for hs :: hmap
    by (auto simp: filter_empty_conv skip_request_header_def)
  moreover have "\<not> is_hop_by_hop_header ''host''" "\<not> eq_ci ''host'' ''cookie''" "\<not> eq_ci ''host'' ''content-length''"
    "\<not> eq_ci ''host'' ''authorization''"
    by code_simp+
  ultimately show ?thesis
    using assms by (auto simp: clean_request_def upstream_request_of_def skip_request_header_def)
qed

text \<open>C24: nothing but a clean request reaches the HTTP upstream: what it answers depends on the client
  only through requests to the configured URL, with the one configured host header, no hop-by-hop,
  cookie or length header, and no authorization unless the mode passes it through; the path and
  query of the incoming request do not matter.\<close>

theorem upstream_sees_clean_requests:
  assumes "names_lower rq" and "\<And>q. clean_request mode hu q \<Longrightarrow> send q = send' q"
  shows "auth_gate hl show mode token (forward show ok send hu) rq body
       = auth_gate hl show mode token (forward show ok send' hu) rq body
    \<and> auth_gate hl show mode token (forward show ok send hu) (rq\<lparr>lr_uri := uri\<rparr>) body
       = auth_gate hl show mode token (forward show ok send hu) rq body"
proof -
  have uri: "upstream_request_of hu (rq\<lparr>lr_uri := u\<rparr>) body = upstream_request_of hu rq body" for u rq
    by (simp add: upstream_request_of_def)
  have strip: "strip_authorization (rq\<lparr>lr_uri := u\<rparr>) = (strip_authorization rq)\<lparr>lr_uri := u\<rparr>" for u
    by (simp add: strip_authorization_def)
  have same: "forward show ok send hu r body = forward show ok send' hu r body"
    if "mode \<noteq> Auth_Passthrough \<Longrightarrow> \<forall>h \<in> set (lr_headers r). \<not> eq_ci (fst h) ''authorization''" for r
    using assms(2) [OF upstream_request_clean [OF that]] by (simp add: forward_def)
  have "forward show ok send hu (strip_authorization rq) body = forward show ok send' hu (strip_authorization rq) body"
  proof (rule same)
    have "to_lower ''authorization'' = ''authorization''" by code_simp
    then show "\<forall>h \<in> set (lr_headers (strip_authorization rq)). \<not> eq_ci (fst h) ''authorization''"
      using assms(1) by (auto simp: strip_authorization_def hremove_def names_lower_def eq_ci_def)
  qed
  moreover have "forward show ok send hu rq body = forward show ok send' hu rq body" if "mode = Auth_Passthrough"
    by (rule same) (simp add: that)
  moreover have "forward show ok send hu (r\<lparr>lr_uri := uri\<rparr>) body = forward show ok send hu r body" for r
    by (simp add: forward_def uri)
  ultimately show ?thesis
    by (cases mode) (simp_all add: auth_gate_def strip split: bearer_status.split)
qed

theorem upstream_sees_clean_requests_witness:
  "auth_gate token_hlib (\<lambda>_. []) Auth_Public None
     (forward (\<lambda>_. []) (\<lambda>_. True)
        (\<lambda>q. if list_ex (\<lambda>h. fst h = ''authorization'') (ur_headers q) then Send_Failed else Answered 200 [] [])
        \<lparr>hu_url = sample_local_url (Domain ''a''), hu_host_header = ''a''\<rparr>)
     \<lparr>lr_method = ''POST'', lr_uri = ''/mcp?x=1'', lr_headers = [(''authorization'', ''Bearer t'')]\<rparr> []
   = auth_gate token_hlib (\<lambda>_. []) Auth_Public None
     (forward (\<lambda>_. []) (\<lambda>_. True) (\<lambda>_. Answered 200 [] [])
        \<lparr>hu_url = sample_local_url (Domain ''a''), hu_host_header = ''a''\<rparr>)
     \<lparr>lr_method = ''POST'', lr_uri = ''/mcp?x=1'', lr_headers = [(''authorization'', ''Bearer t'')]\<rparr> []"
proof (rule upstream_sees_clean_requests [THEN conjunct1])
  show "names_lower \<lparr>lr_method = ''POST'', lr_uri = ''/mcp?x=1'', lr_headers = [(''authorization'', ''Bearer t'')]\<rparr>"
    by (simp add: names_lower_def to_lower_def lower1_def is_upper_def)
qed (auto simp: clean_request_def list_ex_iff)

text \<open>An event stream that is read as JSON holds JSON: the joined data lines, or one of them.\<close>

theorem sse_json_parses:
  assumes "sse_json parse body = Inr s"
  shows "parse s \<noteq> None \<and> (s = join_with [CHR 0x0A] (List.map_filter data_line (str_lines body))
    \<or> s \<in> set (List.map_filter data_line (str_lines body)))"
  using assms by (auto simp: sse_json_def Let_def find_Some_iff split: if_splits option.splits)

theorem sse_json_parses_witness:
  "sse_json (\<lambda>s. if s = ''{}'' then Some (JObj []) else None) (''data: {}'' @ [CHR 0x0A, CHR 0x0A]) = Inr ''{}''
   \<and> (if ''{}'' = ''{}'' then Some (JObj []) else None) \<noteq> None"
proof -
  have "sse_json (\<lambda>s. if s = ''{}'' then Some (JObj []) else None) (''data: {}'' @ [CHR 0x0A, CHR 0x0A]) = Inr ''{}''"
    by code_simp
  from sse_json_parses [OF this] this show ?thesis by simp
qed

end
