(* ===== verification/Server_Http.thy ===== *)
theory Server_Http
  imports Http_Headers Ip_Text
begin

text \<open>
  The HTTP front of the MCP server (\<open>mcp-gateway-server/src/bind.rs\<close>, \<open>http.rs\<close>): the bind address,
  the checks a configuration passes before it is served, the hosts that are allowed, and the
  bearer gate in front of every route. The router of the axum crate, which panics when two routes
  overlap, is an argument; the MCP service behind the gate is \<open>Server_Handler\<close>.
\<close>

section \<open>Socket addresses (std::net)\<close>

record socket_addr =
  sa_ip :: ip
  sa_port :: "16 word"

definition parse_u16 :: "bytes \<Rightarrow> 16 word option" where
  "parse_u16 s =
     (case parse_usize s of Some n \<Rightarrow> if n < 65536 then Some (of_nat n) else None | None \<Rightarrow> None)"

definition read_port :: "bytes \<Rightarrow> 16 word option" where
  "read_port s =
     (case read_number 10 (length s) 65535 True s of
        Some (p, []) \<Rightarrow> Some (of_nat p)
      | _ \<Rightarrow> None)"

text \<open>A scope id behind a percent sign is read and dropped: nothing looks at it.\<close>

definition read_scoped_ipv6 :: "bytes \<Rightarrow> ipv6 option" where
  "read_scoped_ipv6 s =
     (case split_once CHR ''%'' s of
        None \<Rightarrow> parse_ipv6 s
      | Some (a, scope) \<Rightarrow>
          (case read_number 10 (length scope) (2 ^ 32 - 1) True scope of
             Some (_, []) \<Rightarrow> parse_ipv6 a
           | _ \<Rightarrow> None))"

definition parse_socket_addr :: "bytes \<Rightarrow> socket_addr option" where
  "parse_socket_addr s =
     (if starts_with s ''[''
      then (case split_once CHR '']'' (tl s) of
              None \<Rightarrow> None
            | Some (a, rest) \<Rightarrow>
                Option.bind (read_scoped_ipv6 a) (\<lambda>v.
                Option.bind (read_char CHR '':'' rest) (\<lambda>p.
                Option.bind (read_port p) (\<lambda>port. Some \<lparr>sa_ip = V6 v, sa_port = port\<rparr>))))
      else Option.bind (read_ipv4 s) (\<lambda>(v, rest).
           Option.bind (read_char CHR '':'' rest) (\<lambda>p.
           Option.bind (read_port p) (\<lambda>port. Some \<lparr>sa_ip = V4 v, sa_port = port\<rparr>))))"

section \<open>Binding (bind.rs)\<close>

datatype bind_error =
    Bind_Invalid bytes
  | ExposeRequired
  | AnonymousLoopbackOnly
  | TokenRequired
  | InvalidPath

definition parse_bind :: "bytes \<Rightarrow> bind_error + socket_addr" where
  "parse_bind raw =
     (case parse_socket_addr raw of
        Some a \<Rightarrow> Inr a
      | None \<Rightarrow>
          (case parse_u16 raw of
             Some port \<Rightarrow> Inr \<lparr>sa_ip = V4 (IPv4 127 0 0 1), sa_port = port\<rparr>
           | None \<Rightarrow> Inl (Bind_Invalid raw)))"

definition is_loopback_bind :: "socket_addr \<Rightarrow> bool" where
  "is_loopback_bind a =
     (case sa_ip a of V4 v \<Rightarrow> v4_loopback v | V6 v \<Rightarrow> v6_loopback v)"

definition nonempty_token :: "bytes option \<Rightarrow> bytes option" where
  "nonempty_token token =
     Option.bind token (\<lambda>t. if trim t \<noteq> [] then Some (trim t) else None)"

definition validate_http_serve ::
    "socket_addr \<Rightarrow> bool \<Rightarrow> bool \<Rightarrow> bytes option \<Rightarrow> bytes \<Rightarrow> bind_error + unit" where
  "validate_http_serve addr expose allow_anonymous bearer_token path =
     (if \<not> starts_with path ''/'' then Inl InvalidPath
      else if \<not> is_loopback_bind addr \<and> \<not> expose then Inl ExposeRequired
      else if allow_anonymous \<and> \<not> is_loopback_bind addr then Inl AnonymousLoopbackOnly
      else if nonempty_token bearer_token = None \<and> \<not> allow_anonymous then Inl TokenRequired
      else Inr ())"

section \<open>The router (http.rs)\<close>

record http_serve_options =
  ho_bind :: socket_addr
  ho_expose :: bool
  ho_bearer_token :: "bytes option"
  ho_allow_anonymous :: bool
  ho_path :: bytes
  ho_extra_allowed_hosts :: "bytes list"

definition http_serve_default :: http_serve_options where
  "http_serve_default =
     \<lparr>ho_bind = \<lparr>sa_ip = V4 (IPv4 127 0 0 1), sa_port = 8787\<rparr>, ho_expose = False,
      ho_bearer_token = None, ho_allow_anonymous = False, ho_path = ''/mcp'',
      ho_extra_allowed_hosts = []\<rparr>"

record auth_state =
  au_token :: "bytes option"
  au_allow_anonymous :: bool
  au_loopback :: bool
  au_health_path :: bytes

text \<open>
  What \<open>build_router\<close> makes: the state of the gate, the hosts the MCP service accepts (an empty list
  accepts all) and the routes with their methods. \<open>overlap\<close> is the router's check; \<open>None\<close> is its
  panic.
\<close>

record router =
  ro_auth :: auth_state
  ro_allowed_hosts :: "bytes list"
  ro_routes :: "(bytes \<times> bytes list) list"

definition auth_of :: "http_serve_options \<Rightarrow> auth_state" where
  "auth_of opts =
     \<lparr>au_token = nonempty_token (ho_bearer_token opts), au_allow_anonymous = ho_allow_anonymous opts,
      au_loopback = is_loopback_bind (ho_bind opts), au_health_path = ''/health''\<rparr>"

definition allowed_hosts :: "http_serve_options \<Rightarrow> bytes list" where
  "allowed_hosts opts =
     (if ho_expose opts then []
      else [''localhost'', ''127.0.0.1'', ''[::1]'', ''::1''] @ ho_extra_allowed_hosts opts)"

definition routes_of :: "http_serve_options \<Rightarrow> (bytes \<times> bytes list) list" where
  "routes_of opts = [(''/health'', [''GET'']), (ho_path opts, [''POST'', ''GET''])]"

definition build_router ::
    "((bytes \<times> bytes list) list \<Rightarrow> bool) \<Rightarrow> http_serve_options \<Rightarrow> (bind_error + router) option" where
  "build_router overlap opts =
     (case validate_http_serve (ho_bind opts) (ho_expose opts) (ho_allow_anonymous opts)
             (ho_bearer_token opts) (ho_path opts) of
        Inl e \<Rightarrow> Some (Inl e)
      | Inr _ \<Rightarrow>
          if overlap (routes_of opts) then None
          else Some (Inr \<lparr>ro_auth = auth_of opts, ro_allowed_hosts = allowed_hosts opts,
                       ro_routes = routes_of opts\<rparr>))"

text \<open>The gate. \<open>ct_eq\<close> on slices of one length is equality.\<close>

datatype gate_answer = Next | Unauthorized | Unauthorized_Bearer

definition bearer_gate :: "hlib \<Rightarrow> auth_state \<Rightarrow> bytes \<Rightarrow> hmap \<Rightarrow> gate_answer" where
  "bearer_gate hl auth path headers =
     (if path = au_health_path auth then Next
      else if au_allow_anonymous auth \<and> au_loopback auth then Next
      else case Option.bind (au_token auth) (\<lambda>s. if s \<noteq> [] then Some s else None) of
        None \<Rightarrow> Unauthorized
      | Some expected \<Rightarrow>
          (case Option.bind (Option.bind (hget ''authorization'' headers) (hl_to_str hl))
                  (strip_prefix ''Bearer '') of
             Some got \<Rightarrow>
               if length got = length expected \<and> got = expected then Next else Unauthorized_Bearer
           | None \<Rightarrow> Unauthorized_Bearer))"

section \<open>What the gate admits\<close>

lemma gate_Next_iff:
  "bearer_gate hl auth path headers = Next \<longleftrightarrow>
     path = au_health_path auth
     \<or> au_allow_anonymous auth \<and> au_loopback auth
     \<or> (\<exists>t v. au_token auth = Some t \<and> t \<noteq> [] \<and> hget ''authorization'' headers = Some v
           \<and> hl_to_str hl v = Some (''Bearer '' @ t))"
proof -
  have eq: "(case got of Some g \<Rightarrow> if length g = length t \<and> g = t then Next else Unauthorized_Bearer
      | None \<Rightarrow> Unauthorized_Bearer) = Next \<longleftrightarrow> got = Some t" for got t
    by (auto split: option.split)
  show ?thesis
    by (cases "au_token auth") (auto simp: bearer_gate_def eq bind_eq_Some_conv simp del: append.simps)
qed

lemma build_router_Inr:
  "build_router overlap opts = Some (Inr r) \<Longrightarrow>
     ro_auth r = auth_of opts \<and> ro_allowed_hosts r = allowed_hosts opts
     \<and> starts_with (ho_path opts) ''/''
     \<and> (is_loopback_bind (ho_bind opts) \<or> ho_expose opts \<and> \<not> ho_allow_anonymous opts)
     \<and> (ho_allow_anonymous opts \<or> nonempty_token (ho_bearer_token opts) \<noteq> None)"
  by (auto simp: build_router_def validate_http_serve_def split: if_splits)

lemma nonempty_token_Some: "nonempty_token tok = Some t \<longleftrightarrow> t \<noteq> [] \<and> (\<exists>raw. tok = Some raw \<and> t = trim raw)"
  by (auto simp: nonempty_token_def bind_eq_Some_conv split: if_splits)

definition sample_opts :: "bool \<Rightarrow> http_serve_options" where
  "sample_opts open_to_all =
     http_serve_default\<lparr>ho_bind := \<lparr>sa_ip = V4 (if open_to_all then IPv4 0 0 0 0 else IPv4 127 0 0 1), sa_port = 8787\<rparr>,
       ho_expose := open_to_all, ho_bearer_token := Some ''tok''\<rparr>"

lemma trim_tok [simp]: "trim ''tok'' = ''tok''"
  by code_simp

lemma sample_router:
  "build_router (\<lambda>_. False) (sample_opts True) = Some (Inr \<lparr>ro_auth = auth_of (sample_opts True),
     ro_allowed_hosts = [], ro_routes = routes_of (sample_opts True)\<rparr>)"
  by (simp add: build_router_def validate_http_serve_def sample_opts_def http_serve_default_def
      is_loopback_bind_def nonempty_token_def allowed_hosts_def)

text \<open>A router that was built protects its routes: except for the health path, a request passes the
  gate exactly when the server is anonymous on a loopback address or the request carries the
  configured token, trimmed and non-empty, as its bearer; an address that is not loopback is only
  bound with the expose option, and never anonymously.\<close>

theorem built_router_is_protected:
  assumes "build_router overlap opts = Some (Inr r)" and "path \<noteq> ''/health''"
  shows "(bearer_gate hl (ro_auth r) path headers = Next \<longleftrightarrow>
        ho_allow_anonymous opts
        \<or> (\<exists>raw v. ho_bearer_token opts = Some raw \<and> trim raw \<noteq> [] \<and> hget ''authorization'' headers = Some v
             \<and> hl_to_str hl v = Some (''Bearer '' @ trim raw)))
    \<and> (\<not> is_loopback_bind (ho_bind opts) \<longrightarrow> ho_expose opts \<and> \<not> ho_allow_anonymous opts)"
  using build_router_Inr [OF assms(1)] assms(2)
  by (auto simp: gate_Next_iff auth_of_def nonempty_token_Some)

theorem built_router_is_protected_witness:
  "\<exists>r. build_router (\<lambda>_. False) (sample_opts True) = Some (Inr r)
     \<and> bearer_gate token_hlib (ro_auth r) ''/mcp'' [(''authorization'', ''Bearer tok'')] = Next
     \<and> bearer_gate token_hlib (ro_auth r) ''/mcp'' [(''authorization'', ''Bearer toc'')] \<noteq> Next"
  using built_router_is_protected [OF sample_router, of "''/mcp''" token_hlib] sample_router
  by (simp add: sample_opts_def http_serve_default_def hget_def token_hlib_def)

text \<open>An MCP path equal to the health path passes every check, and building the router then panics:
  both routes answer \<open>GET\<close>.\<close>

definition overlap_documented :: "((bytes \<times> bytes list) list \<Rightarrow> bool) \<Rightarrow> bool" where
  "overlap_documented overlap \<longleftrightarrow>
     (\<forall>p ms p' ms'. overlap [(p, ms), (p', ms')] \<longleftrightarrow> p = p' \<and> set ms \<inter> set ms' \<noteq> {})"

theorem health_path_panics:
  assumes "overlap_documented overlap" and "ho_path opts = ''/health''"
    and "validate_http_serve (ho_bind opts) (ho_expose opts) (ho_allow_anonymous opts)
           (ho_bearer_token opts) (ho_path opts) = Inr ()"
  shows "build_router overlap opts = None"
  using assms by (simp add: build_router_def overlap_documented_def routes_of_def)

theorem health_path_panics_witness:
  "build_router (\<lambda>rs. case rs of [(p, ms), (p', ms')] \<Rightarrow> p = p' \<and> set ms \<inter> set ms' \<noteq> {} | _ \<Rightarrow> False)
     ((sample_opts True)\<lparr>ho_path := ''/health''\<rparr>) = None"
  by (rule health_path_panics)
     (simp_all add: overlap_documented_def validate_http_serve_def sample_opts_def http_serve_default_def
       is_loopback_bind_def nonempty_token_def)

section \<open>Printed addresses\<close>

text \<open>\<open>SocketAddr\<close>'s \<open>Display\<close> for IPv4.\<close>

definition show_socket_v4 :: "ipv4 \<Rightarrow> 16 word \<Rightarrow> bytes" where
  "show_socket_v4 v port = show_ipv4 v @ '':'' @ show_nat (unat port)"

lemma read_port_show: "read_port (show_nat (unat port)) = Some port" for port :: "16 word"
proof -
  have le: "unat port \<le> 65535" using unat16 [of port] by linarith
  have "read_digits 10 (length (show_nat (unat port))) 65535 0 0 (show_nat (unat port) @ [])
      = Some (0 + length (show_nat (unat port)), read_nat 0 (show_nat (unat port)), [])"
    using le by (intro read_digits_run) (auto simp: show_nat_digits read_show_nat)
  then show ?thesis by (simp add: read_port_def read_number_def read_show_nat)
qed

lemma show_ipv4_no_bracket: "\<not> starts_with (show_ipv4 v @ r) ''[''"
proof (cases v)
  case (IPv4 a b c d)
  obtain x xs where x: "show_nat (unat a) = x # xs" by (cases "show_nat (unat a)") simp_all
  have "is_digit x" using show_nat_digits [of x "unat a"] x by simp
  with x IPv4 show ?thesis by (auto simp: is_digit_def)
qed

text \<open>The printed form of an IPv4 socket address is a bind address, and means that address.\<close>

theorem printed_socket_binds:
  "parse_bind (show_socket_v4 v port) = Inr \<lparr>sa_ip = V4 v, sa_port = port\<rparr>"
  by (simp add: parse_bind_def show_socket_v4_def parse_socket_addr_def show_ipv4_no_bracket
      read_ipv4_show_rest read_port_show read_char_def is_digit_def del: show_ipv4.simps)

end
