(* ===== verification/Tunnel_Client.thy ===== *)
theory Tunnel_Client
  imports Tunnel_Session
begin

text \<open>
  Dialling and redialling: \<open>client.rs\<close> (the handshake), \<open>reconnect.rs\<close> (the supervisor) and the
  configuration of \<open>lib.rs\<close> in \<open>crates/mcp-gateway-tunnel/src\<close>. What the network does in one
  round of the supervisor's loop is an input record; a delay is named, not measured.
\<close>

section \<open>Configuration (lib.rs)\<close>

definition DEFAULT_RELAY_URL :: bytes where [enum_defs]:
  "DEFAULT_RELAY_URL = ''wss://connect.mcp.fetchhive.com/v1/tunnel''"

text \<open>\<open>env_value\<close> is the variable \<open>MCP_GATEWAY_RELAY_URL\<close>, when it is set.\<close>

definition resolve_relay_url :: "bytes option \<Rightarrow> bytes \<Rightarrow> bytes" where
  "resolve_relay_url env_value config_value =
     (let from_config =
        (let t = trim config_value in if t = [] then DEFAULT_RELAY_URL else t)
      in case env_value of
           Some v \<Rightarrow> (let t = trim v in if t \<noteq> [] then t else from_config)
         | None \<Rightarrow> from_config)"

record tunnel_config =
  tc_relay_url :: bytes
  tc_local_authority :: bytes
  tc_mcp_path :: bytes
  tc_auth_mode :: auth_mode
  tc_client :: bytes
  tc_name :: "bytes option"
  tc_bearer :: "bytes option"

section \<open>The handshake (client.rs)\<close>

datatype handshake =
    HsOpen welcome_msg
  | HsReclaimAgain
  | HsWait nat
  | HsTerminal reject_code bytes
  | HsFailed

text \<open>
  One dial, as the network answers it: whether the URL and the header value are accepted, whether
  the socket opens and takes the hello, and the first text message within the welcome window.
\<close>

record link =
  ln_url_ok :: bool
  ln_header_ok :: "bytes \<Rightarrow> bool"
  ln_dial_ok :: bool
  ln_send_ok :: bool
  ln_reply :: "bytes option"

definition bearer_header :: "tunnel_config \<Rightarrow> bytes option" where
  "bearer_header cfg =
     (case map_option trim (tc_bearer cfg) of
        Some token \<Rightarrow> if token \<noteq> [] then Some (''Bearer '' @ token) else None
      | None \<Rightarrow> None)"

definition hello_for :: "tunnel_config \<Rightarrow> reclaim option \<Rightarrow> hello" where
  "hello_for cfg recl =
     hello_new (tc_client cfg)
       (case tc_name cfg of Some name \<Rightarrow> ModeNamed name | None \<Rightarrow> ModeAnonymous)
       (tc_auth_mode cfg) recl (tc_mcp_path cfg)"

definition on_rejected :: "rejected \<Rightarrow> handshake" where
  "on_rejected r =
     (case rj_code r of
        ReclaimExpired \<Rightarrow> HsReclaimAgain
      | ReclaimInvalid \<Rightarrow> HsReclaimAgain
      | RateLimited \<Rightarrow> HsWait (case rj_retry_after_secs r of Some n \<Rightarrow> unat n | None \<Rightarrow> 1)
      | Maintenance \<Rightarrow> HsWait 1
      | other \<Rightarrow> HsTerminal other (rj_message r))"

definition connect :: "(bytes \<Rightarrow> json option) \<Rightarrow> tunnel_config \<Rightarrow> reclaim option \<Rightarrow> link \<Rightarrow> handshake" where
  "connect parse cfg recl ln =
     (if \<not> ln_url_ok ln then HsFailed
      else if (case bearer_header cfg of Some v \<Rightarrow> \<not> ln_header_ok ln v | None \<Rightarrow> False) then HsFailed
      else if \<not> ln_dial_ok ln then HsFailed
      else if \<not> ln_send_ok ln then HsFailed
      else case ln_reply ln of
             None \<Rightarrow> HsFailed
           | Some text \<Rightarrow>
               (case from_json_slice parse text of
                  Inr (HandWelcome w) \<Rightarrow> HsOpen w
                | Inr (HandRejected r) \<Rightarrow> on_rejected r
                | Inl _ \<Rightarrow> HsFailed))"

section \<open>The supervisor (reconnect.rs)\<close>

definition backoff_secs :: "32 word \<Rightarrow> 64 word" where
  "backoff_secs attempt = (let shift = min (unat attempt) 6 in min (push_bit shift 1) 60)"

datatype delay = Backoff "32 word" | Secs nat

datatype tunnel_state =
    Connecting
  | Connected bytes bytes
  | Reconnecting "32 word" delay
  | StRejected bytes bytes
  | StStopped

record supervisor =
  su_reclaim :: "reclaim option"
  su_attempt :: "32 word"
  su_states :: "tunnel_state list"
  su_urls :: "bytes list"
  su_reconnects :: "64 word"

definition supervisor_start :: supervisor where
  "supervisor_start =
     \<lparr>su_reclaim = None, su_attempt = 0, su_states = [Connecting], su_urls = [], su_reconnects = 0\<rparr>"

definition publish :: "tunnel_state \<Rightarrow> supervisor \<Rightarrow> supervisor" where
  "publish st s = s\<lparr>su_states := su_states s @ [st]\<rparr>"

definition saturating_succ :: "32 word \<Rightarrow> 32 word" where
  "saturating_succ n = (if n = - 1 then n else n + 1)"

text \<open>One round: shutdown seen at the top, the handshake, the session's stop, and whether the sleep ran out.\<close>

record round =
  ro_shutdown :: bool
  ro_handshake :: handshake
  ro_stop :: session_stop
  ro_slept :: bool

definition wait_retry :: "round \<Rightarrow> delay \<Rightarrow> bool \<Rightarrow> supervisor \<Rightarrow> supervisor \<times> bool" where
  "wait_retry r d counted s =
     (let s1 = (if counted then s\<lparr>su_reconnects := su_reconnects s + 1\<rparr> else s);
          s2 = publish (Reconnecting (su_attempt s) d) s1
      in if ro_slept r then (s2, True) else (publish StStopped s2, False))"

definition bump :: "supervisor \<times> bool \<Rightarrow> supervisor \<times> bool" where
  "bump p = (if snd p then ((fst p)\<lparr>su_attempt := saturating_succ (su_attempt (fst p))\<rparr>, True) else p)"

text \<open>The body of the loop; the flag says whether the loop goes on.\<close>

definition supervise_round :: "round \<Rightarrow> supervisor \<Rightarrow> supervisor \<times> bool" where
  "supervise_round r s =
     (if ro_shutdown r then (publish StStopped s, False)
      else
        (let s0 = (if su_attempt s = 0 \<and> su_reclaim s = None \<and> last (su_states s) \<noteq> Connecting
                   then publish Connecting s else s)
         in case ro_handshake r of
              HsOpen w \<Rightarrow>
                (let s1 = publish (Connected (w_slug w) (w_public_url w))
                            (s0\<lparr>su_attempt := 0, su_urls := su_urls s0 @ [w_public_url w]\<rparr>);
                     stop = ro_stop r
                 in if so_shutdown stop then (publish StStopped s1, False)
                    else case so_terminal stop of
                           Some (code, message) \<Rightarrow> (publish (StRejected code message) s1, False)
                         | None \<Rightarrow>
                             (let s2 = s1\<lparr>su_reclaim := if so_fresh stop then None else so_reclaim stop\<rparr>;
                                  d = (case so_after stop of Some n \<Rightarrow> Secs (unat n)
                                       | None \<Rightarrow> Backoff (su_attempt s2))
                              in bump (wait_retry r d True s2)))
            | HsReclaimAgain \<Rightarrow>
                (let s1 = s0\<lparr>su_reclaim := None\<rparr>
                 in bump (wait_retry r (Backoff (su_attempt s1)) True s1))
            | HsWait n \<Rightarrow> wait_retry r (Secs n) False (s0\<lparr>su_attempt := 0\<rparr>)
            | HsTerminal code message \<Rightarrow> (publish (StRejected (reject_name code) message) s0, False)
            | HsFailed \<Rightarrow> bump (wait_retry r (Backoff (su_attempt s0)) True s0)))"

fun supervise :: "round list \<Rightarrow> supervisor \<Rightarrow> supervisor \<times> bool" where
  "supervise [] s = (s, True)"
| "supervise (r # rs) s =
     (let (s', go) = supervise_round r s in if go then supervise rs s' else (s', False))"

section \<open>Facts\<close>

lemma backoff_secs_eq: "unat (backoff_secs a) = min (2 ^ unat a) 60"
proof (cases "unat a < 6")
  case True
  then have "unat a \<in> {0, 1, 2, 3, 4, 5}" by auto
  then show ?thesis by (auto simp: backoff_secs_def Let_def min_def word_le_nat_alt)
next
  case False
  then have "(2::nat) ^ 6 \<le> 2 ^ unat a" by (intro power_increasing) auto
  with False show ?thesis by (simp add: backoff_secs_def Let_def min_def)
qed

lemma publish_fields [simp]:
  "su_reclaim (publish st s) = su_reclaim s" "su_attempt (publish st s) = su_attempt s"
  "su_states (publish st s) = su_states s @ [st]" "su_reconnects (publish st s) = su_reconnects s"
  "su_urls (publish st s) = su_urls s"
  by (simp_all add: publish_def)

lemma wait_retry_fields [simp]:
  "su_reclaim (fst (wait_retry r d c s)) = su_reclaim s"
  "su_attempt (fst (wait_retry r d c s)) = su_attempt s"
  "snd (wait_retry r d c s) = ro_slept r"
  "su_reconnects (fst (wait_retry r d c s)) = su_reconnects s + (if c then 1 else 0)"
  "su_states (fst (wait_retry r d c s)) =
     su_states s @ Reconnecting (su_attempt s) d # (if ro_slept r then [] else [StStopped])"
  by (simp_all add: wait_retry_def Let_def)

lemma bump_fields [simp]:
  "su_reclaim (fst (bump p)) = su_reclaim (fst p)" "snd (bump p) = snd p"
  "su_states (fst (bump p)) = su_states (fst p)"
  "su_reconnects (fst (bump p)) = su_reconnects (fst p)"
  "su_attempt (fst (bump p)) =
     (if snd p then saturating_succ (su_attempt (fst p)) else su_attempt (fst p))"
  by (simp_all add: bump_def)

lemmas round_splits = handshake.splits option.splits prod.splits if_splits

text \<open>When the loop ends, the last published state says why.\<close>

lemma round_end:
  "\<not> snd (supervise_round r s) \<Longrightarrow>
     last (su_states (fst (supervise_round r s))) = StStopped
     \<or> (\<exists>c m. last (su_states (fst (supervise_round r s))) = StRejected c m)"
  by (cases "ro_handshake r"; cases "so_terminal (ro_stop r)")
    (auto simp: supervise_round_def Let_def split: if_splits)

lemma supervise_end:
  "\<not> snd (supervise rs s) \<Longrightarrow>
     last (su_states (fst (supervise rs s))) = StStopped
     \<or> (\<exists>c m. last (su_states (fst (supervise rs s))) = StRejected c m)"
proof (induction rs arbitrary: s)
  case (Cons r rs)
  then show ?case
    by (cases "snd (supervise_round r s)") (auto simp: split_beta Let_def dest: round_end)
qed simp

lemma round_failed:
  "ro_handshake r = HsFailed \<Longrightarrow> \<not> ro_shutdown r \<Longrightarrow> ro_slept r \<Longrightarrow>
     snd (supervise_round r s)
     \<and> su_attempt (fst (supervise_round r s)) = saturating_succ (su_attempt s)
     \<and> last (su_states (fst (supervise_round r s))) = Reconnecting (su_attempt s) (Backoff (su_attempt s))
     \<and> su_reclaim (fst (supervise_round r s)) = su_reclaim s"
  by (auto simp: supervise_round_def Let_def)

lemma unat_saturating_succ: "unat (saturating_succ n) = min (Suc (unat n)) (2 ^ 32 - 1)"
proof -
  have top: "unat (- 1 :: 32 word) = 2 ^ 32 - 1"
    by (simp add: unsigned_minus_1_eq_mask mask_eq_exp_minus_1)
  show ?thesis
  proof (cases "n = - 1")
    case True
    then show ?thesis using top by (simp add: saturating_succ_def)
  next
    case False
    then have "unat n \<noteq> 2 ^ 32 - 1" using top by (metis word_unat_eq_iff)
    moreover have "unat n < 2 ^ 32" by (rule order_less_le_trans, rule unsigned_less) simp
    ultimately show ?thesis using False by (simp add: saturating_succ_def unat_word_ariths)
  qed
qed

lemma supervise_append:
  "supervise (rs @ qs) s =
     (let (s', go) = supervise rs s in if go then supervise qs s' else (s', False))"
  by (induction rs arbitrary: s) (auto simp: split_beta Let_def)

section \<open>Properties\<close>

text \<open>The reconnect delay doubles from one second and stops at sixty, for every 32-bit attempt
  count: the shift is capped before it could overflow.\<close>

theorem backoff_doubles_to_a_minute: "unat (backoff_secs a) = min (2 ^ unat a) 60"
  by (rule backoff_secs_eq)

lemma rounds_failed:
  assumes "ro_handshake r = HsFailed" "\<not> ro_shutdown r" "ro_slept r"
  shows "snd (supervise (replicate n r) s)
     \<and> unat (su_attempt (fst (supervise (replicate n r) s))) = min (unat (su_attempt s) + n) (2 ^ 32 - 1)
     \<and> su_reclaim (fst (supervise (replicate n r) s)) = su_reclaim s"
proof (induction n arbitrary: s)
  case 0
  have "unat (su_attempt s) < 2 ^ 32" by (rule order_less_le_trans, rule unsigned_less) simp
  then show ?case by simp
next
  case (Suc n)
  obtain s' where s': "supervise_round r s = (s', True)"
    using round_failed [OF assms, of s] by (metis prod.collapse)
  with round_failed [OF assms, of s] have "su_attempt s' = saturating_succ (su_attempt s)"
    "su_reclaim s' = su_reclaim s" by simp_all
  with s' Suc.IH [of s'] show ?case by (simp add: unat_saturating_succ)
qed

text \<open>C40: the supervisor never gives up on a relay it cannot reach: after any number of failed dials it
  goes on, its attempt counter has counted them (saturating, never wrapping back to short delays),
  and it still holds the reclaim token it had.\<close>

theorem failed_dials_keep_trying:
  assumes "ro_handshake r = HsFailed" "\<not> ro_shutdown r" "ro_slept r"
  shows "snd (supervise (replicate n r) s)
     \<and> unat (su_attempt (fst (supervise (replicate n r) s))) = min (unat (su_attempt s) + n) (2 ^ 32 - 1)
     \<and> su_reclaim (fst (supervise (replicate n r) s)) = su_reclaim s"
  by (rule rounds_failed [OF assms])

definition failed_round :: round where
  "failed_round =
     \<lparr>ro_shutdown = False, ro_handshake = HsFailed,
      ro_stop = \<lparr>so_after = None, so_reclaim = None, so_fresh = False, so_terminal = None,
                 so_shutdown = False\<rparr>,
      ro_slept = True\<rparr>"

lemma failed_dials_keep_trying_witness:
  "snd (supervise (replicate 3 failed_round) supervisor_start)
     \<and> unat (su_attempt (fst (supervise (replicate 3 failed_round) supervisor_start))) = 3"
  using failed_dials_keep_trying [of failed_round 3 supervisor_start]
  by (simp add: failed_round_def supervisor_start_def)

text \<open>The supervisor's loop ends only in a published end: the last state it publishes is
  \<open>Stopped\<close> (a shutdown, seen at the top of a round, in a session, or while sleeping) or
  \<open>Rejected\<close> with a code and a message.\<close>

theorem supervisor_ends_published:
  assumes "\<not> snd (supervise rs s)"
  shows "last (su_states (fst (supervise rs s))) = StStopped
     \<or> (\<exists>c m. last (su_states (fst (supervise rs s))) = StRejected c m)"
  using assms by (rule supervise_end)

lemma supervisor_ends_published_witness:
  "\<not> snd (supervise [failed_round, failed_round\<lparr>ro_handshake := HsTerminal NameTaken ''taken''\<rparr>] supervisor_start)
     \<and> last (su_states (fst (supervise
         [failed_round, failed_round\<lparr>ro_handshake := HsTerminal NameTaken ''taken''\<rparr>] supervisor_start)))
       = StRejected ''name_taken'' ''taken''"
  using supervisor_ends_published
    [of "[failed_round, failed_round\<lparr>ro_handshake := HsTerminal NameTaken ''taken''\<rparr>]" supervisor_start]
  by (auto simp: supervise_round_def failed_round_def supervisor_start_def Let_def bump_def
      wait_retry_def publish_def)

end
