(* ===== verification/Serve.thy ===== *)
theory Serve
  imports Cli_Config Server_Http Tunnel_Client Local_Upstream
begin

text \<open>
  Serving (\<open>mcp-gateway-cli/src/commands/serve.rs\<close>, \<open>tunnel.rs\<close>): the address and the credentials a run
  serves under, the two routers of a tunnelled server and the tunnel they are opened with, the
  gate of a tunnel in front of another server, and the exit codes of a rejected tunnel. Sockets,
  the screen and the account calls are left out.
\<close>

section \<open>The bind address\<close>

definition resolve_http_bind ::
    "machine \<Rightarrow> bytes option \<Rightarrow> bytes \<Rightarrow> bool \<Rightarrow> bytes option \<Rightarrow> cli_error + bytes \<times> bool" where
  "resolve_http_bind os bind_flag cfg_bind expose_flag port_env =
     (case Option.bind bind_flag (\<lambda>b. if b \<noteq> [] then Some b else None) of
        Some b \<Rightarrow> Inr (b, expose_flag)
      | None \<Rightarrow>
          (case nonempty_token port_env of
             Some raw \<Rightarrow>
               (case parse_u16 raw of
                  None \<Rightarrow> Inl (Cli_Usage (''PORT must be a TCP port number, got '' @ os_debug os raw))
                | Some port \<Rightarrow> Inr (''0.0.0.0:'' @ show_nat (unat port), True))
           | None \<Rightarrow> Inr (cfg_bind, expose_flag)))"

fun bind_message :: "bind_error \<Rightarrow> bytes" where
  "bind_message (Bind_Invalid raw) = ''invalid bind address: '' @ raw"
| "bind_message ExposeRequired =
     ''non-loopback bind requires --expose'' @ [CHR 0x0A]
     @ ''hint: --expose acknowledges that the MCP endpoint will be reachable on all'' @ [CHR 0x0A]
     @ ''      interfaces. TLS is your reverse proxy'' @ [CHR 0x27] @ ''s job. Auth remains required.''"
| "bind_message AnonymousLoopbackOnly = ''--allow-anonymous is loopback-only''"
| "bind_message TokenRequired = ''bearer token required unless --allow-anonymous''"
| "bind_message InvalidPath = ''MCP path must start with /''"

definition bind_usage :: "bind_error + 'a \<Rightarrow> cli_error + 'a" where
  "bind_usage r = (case r of Inl e \<Rightarrow> Inl (Cli_Usage (bind_message e)) | Inr x \<Rightarrow> Inr x)"

lemma bind_usage_Inr [simp]: "bind_usage r = Inr x \<longleftrightarrow> r = Inr x"
  by (cases r) (simp_all add: bind_usage_def)

section \<open>What a run serves\<close>

datatype tunnel_auth = TA_Token | TA_Public

record serve_flags =
  fl_tunnel :: bool
  fl_tunnel_auth :: tunnel_auth
  fl_bind :: "bytes option"
  fl_path :: bytes
  fl_expose :: bool
  fl_allow_anonymous :: bool
  fl_token_file :: "bytes option"

definition check_tunnel_auth :: "serve_flags \<Rightarrow> bool \<Rightarrow> bytes option \<Rightarrow> cli_error + unit" where
  "check_tunnel_auth fl anon token =
     (if \<not> fl_tunnel fl then Inr ()
      else if fl_tunnel_auth fl = TA_Token \<and> nonempty_token token = None
      then Inl (Cli_Usage ''tunnel with --tunnel-auth token needs MCP_GATEWAY_TOKEN or --token-file; drop --tunnel, or pass --tunnel-auth public with --allow-anonymous'')
      else if fl_tunnel_auth fl = TA_Public \<and> \<not> anon
      then Inl (Cli_Usage ''--tunnel-auth public requires --allow-anonymous'')
      else Inr ())"

definition served_path :: "serve_flags \<Rightarrow> gateway_config \<Rightarrow> bytes" where
  "served_path fl cfg =
     (if fl_path fl = ''/mcp'' \<and> sc_path (gc_server cfg) \<noteq> [] then sc_path (gc_server cfg) else fl_path fl)"

text \<open>From the flags and the configuration to the options of the HTTP server, every refusal included.\<close>

definition serve_options :: "machine \<Rightarrow> gateway_config \<Rightarrow> serve_flags \<Rightarrow> cli_error + http_serve_options" where
  "serve_options os cfg fl =
     and_then (resolve_http_bind os (fl_bind fl) (sc_bind (gc_server cfg))
                 (fl_expose fl \<or> sc_expose (gc_server cfg)) (os_var os ''PORT'')) (\<lambda>(bind_raw, expose).
     and_then (bind_usage (parse_bind bind_raw)) (\<lambda>addr.
       let anon = fl_allow_anonymous fl \<or> sc_allow_anonymous (gc_server cfg) in
     and_then (mcp_token os cfg (fl_token_file fl)) (\<lambda>token.
     and_then (check_tunnel_auth fl anon token) (\<lambda>_.
       let path = served_path fl cfg in
     and_then (bind_usage (validate_http_serve addr expose anon token path)) (\<lambda>_.
       Inr \<lparr>ho_bind = addr, ho_expose = expose, ho_bearer_token = token, ho_allow_anonymous = anon,
            ho_path = path, ho_extra_allowed_hosts = []\<rparr>)))))"

section \<open>The tunnel of a server\<close>

definition show_socket :: "socket_addr \<Rightarrow> bytes" where
  "show_socket a =
     (case sa_ip a of
        V4 v \<Rightarrow> show_socket_v4 v (sa_port a)
      | V6 v \<Rightarrow> ''['' @ show_ipv6 v @ '']:'' @ show_nat (unat (sa_port a)))"

definition loopback_authority :: "socket_addr \<Rightarrow> bytes" where
  "loopback_authority a =
     (case sa_ip a of
        V4 v \<Rightarrow> if v = IPv4 0 0 0 0 then ''127.0.0.1:'' @ show_nat (unat (sa_port a)) else show_socket a
      | V6 v \<Rightarrow> if nat_of_v6 v = 0 then ''[::1]:'' @ show_nat (unat (sa_port a)) else show_socket a)"

definition prepare_tunnel ::
    "bytes \<Rightarrow> bool \<Rightarrow> bytes \<Rightarrow> bytes \<Rightarrow> bytes \<Rightarrow> tunnel_auth \<Rightarrow> tunnel_config option" where
  "prepare_tunnel client enabled relay authority path auth =
     (if \<not> enabled then None
      else Some \<lparr>tc_relay_url = relay, tc_local_authority = authority, tc_mcp_path = path,
             tc_auth_mode = (case auth of TA_Token \<Rightarrow> AuthToken | TA_Public \<Rightarrow> AuthPublic),
             tc_client = client, tc_name = None, tc_bearer = None\<rparr>)"

record tunnelled =
  tn_listener :: router
  tn_tunnel :: router
  tn_config :: tunnel_config

definition tunnel_options :: "http_serve_options \<Rightarrow> tunnel_auth \<Rightarrow> bytes \<Rightarrow> http_serve_options" where
  "tunnel_options opts auth authority =
     opts\<lparr>ho_allow_anonymous := (auth = TA_Public), ho_extra_allowed_hosts := [authority]\<rparr>"

text \<open>
  The listener and the tunnel serve the same handler behind two routers; \<open>local\<close> is the address the
  listener got. \<open>None\<close> is the panic of the router.
\<close>

definition open_tunnel ::
    "((bytes \<times> bytes list) list \<Rightarrow> bool) \<Rightarrow> machine \<Rightarrow> gateway_config \<Rightarrow> serve_flags \<Rightarrow> bytes
     \<Rightarrow> http_serve_options \<Rightarrow> socket_addr \<Rightarrow> (cli_error + tunnelled) option" where
  "open_tunnel overlap os cfg fl client opts local =
     (let authority = loopback_authority local;
          relay = resolve_relay_url (os_var os ''MCP_GATEWAY_RELAY_URL'') (gc_relay_url cfg)
      in case build_router overlap opts of
           None \<Rightarrow> None
         | Some (Inl e) \<Rightarrow> Some (Inl (Cli_Usage (bind_message e)))
         | Some (Inr listener) \<Rightarrow>
             (case build_router overlap (tunnel_options opts (fl_tunnel_auth fl) authority) of
                None \<Rightarrow> None
              | Some (Inl e) \<Rightarrow> Some (Inl (Cli_Usage (bind_message e)))
              | Some (Inr tunnel) \<Rightarrow>
                  Some (ok_or (Cli_Usage ''tunnel did not start'')
                    (map_option (\<lambda>tc. \<lparr>tn_listener = listener, tn_tunnel = tunnel, tn_config = tc\<rparr>)
                      (prepare_tunnel client True relay authority (ho_path opts) (fl_tunnel_auth fl))))))"

section \<open>Rejections and logs\<close>

definition reject_cli :: "bytes \<Rightarrow> bytes \<Rightarrow> cli_error" where
  "reject_cli code message =
     (let t = ''tunnel rejected ('' @ code @ ''): '' @ message in
      if code \<in> {''unauthorized'', ''plan_limit''} then Cli_Policy t
      else if code \<in> {''version_unsupported'', ''name_taken'', ''name_invalid'', ''name_reserved'', ''replaced'',
                     ''deleted''} then Cli_Usage t
      else Cli_Upstream t)"

definition tunnel_log_filter :: "bytes \<Rightarrow> bool \<Rightarrow> bytes" where
  "tunnel_log_filter level quiet_screen =
     (if quiet_screen \<and> (level = [] \<or> level = ''info'') then ''warn,rmcp=off''
      else if level = [] then ''info'' else level)"

text \<open>The event of a state under \<open>--json\<close>; \<open>delay_ms\<close> measures a delay.\<close>

fun tunnel_event :: "(delay \<Rightarrow> json) \<Rightarrow> tunnel_state \<Rightarrow> json" where
  "tunnel_event delay_ms Connecting = JObj [(''event'', JStr ''tunnel''), (''state'', JStr ''connecting'')]"
| "tunnel_event delay_ms (Connected url slug) =
     JObj [(''event'', JStr ''tunnel''), (''state'', JStr ''connected''), (''url'', JStr url), (''slug'', JStr slug)]"
| "tunnel_event delay_ms (Reconnecting attempt d) =
     JObj [(''event'', JStr ''tunnel''), (''state'', JStr ''reconnecting''), (''attempt'', jword attempt),
       (''delay_ms'', delay_ms d)]"
| "tunnel_event delay_ms (StRejected code message) =
     JObj [(''event'', JStr ''tunnel''), (''state'', JStr ''rejected''), (''code'', JStr code), (''message'', JStr message)]"
| "tunnel_event delay_ms StStopped = JObj [(''event'', JStr ''tunnel''), (''state'', JStr ''stopped'')]"

section \<open>A tunnel in front of another server (tunnel.rs)\<close>

datatype tunnel_target = To_Url bytes | To_Stdio "bytes list"

definition tunnel_target_of :: "bytes option \<Rightarrow> bool \<Rightarrow> bytes list \<Rightarrow> cli_error + tunnel_target" where
  "tunnel_target_of u stdio command =
     (case (u, stdio) of
        (Some url, False) \<Rightarrow> Inr (To_Url url)
      | (None, True) \<Rightarrow>
          if command \<noteq> [] then Inr (To_Stdio command)
          else Inl (Cli_Usage ''pass the stdio command after --, for example --stdio -- npx -y @modelcontextprotocol/server-filesystem /tmp'')
      | _ \<Rightarrow> Inl (Cli_Usage ''pass an upstream URL or --stdio -- <command>''))"

definition probe_authorization :: "proxy_auth \<Rightarrow> bytes option \<Rightarrow> bytes option" where
  "probe_authorization mode token =
     (case mode of
        Auth_Passthrough \<Rightarrow> Option.bind token (\<lambda>t. if t \<noteq> [] then Some t else None)
      | _ \<Rightarrow> None)"

text \<open>The token of the gate, and the one to show when it was generated.\<close>

definition gate_token :: "bytes \<Rightarrow> proxy_auth \<Rightarrow> bytes option \<Rightarrow> bytes option \<times> bytes option" where
  "gate_token created mode supplied =
     (case mode of
        Auth_Token \<Rightarrow>
          (case supplied of
             Some t \<Rightarrow> (Some t, None)
           | None \<Rightarrow> (Some created, Some created))
      | _ \<Rightarrow> (None, None))"

definition supplied_token :: "bytes option \<Rightarrow> bytes option" where
  "supplied_token token = Option.bind token (\<lambda>t. if t \<noteq> [] then Some t else None)"

definition tunnel_mode :: "proxy_auth \<Rightarrow> auth_mode" where
  "tunnel_mode mode = (case mode of Auth_Token \<Rightarrow> AuthToken | _ \<Rightarrow> AuthPublic)"

definition gated ::
    "hlib \<Rightarrow> (json \<Rightarrow> bytes) \<Rightarrow> bytes \<Rightarrow> proxy_auth \<Rightarrow> bytes option \<Rightarrow> local_service \<Rightarrow> local_service" where
  "gated hl show created mode token inner =
     auth_gate hl show mode (fst (gate_token created mode (supplied_token token))) inner"

section \<open>Who a tunnelled server answers\<close>

lemma serve_optionsE:
  assumes "serve_options os cfg fl = Inr opts"
  obtains bind_raw token where
    "resolve_http_bind os (fl_bind fl) (sc_bind (gc_server cfg)) (fl_expose fl \<or> sc_expose (gc_server cfg))
       (os_var os ''PORT'') = Inr (bind_raw, ho_expose opts)"
    "parse_bind bind_raw = Inr (ho_bind opts)"
    "mcp_token os cfg (fl_token_file fl) = Inr token" "ho_bearer_token opts = token"
    "ho_allow_anonymous opts \<longleftrightarrow> fl_allow_anonymous fl \<or> sc_allow_anonymous (gc_server cfg)"
    "check_tunnel_auth fl (ho_allow_anonymous opts) token = Inr ()" "ho_path opts = served_path fl cfg"
    "validate_http_serve (ho_bind opts) (ho_expose opts) (ho_allow_anonymous opts) token (ho_path opts) = Inr ()"
  using assms that
  by (fastforce simp: serve_options_def Let_def)

lemma open_tunnelE:
  assumes "open_tunnel overlap os cfg fl client opts local = Some (Inr t)"
  shows "build_router overlap opts = Some (Inr (tn_listener t))"
    "build_router overlap (tunnel_options opts (fl_tunnel_auth fl) (loopback_authority local)) = Some (Inr (tn_tunnel t))"
    "tc_auth_mode (tn_config t) = (case fl_tunnel_auth fl of TA_Token \<Rightarrow> AuthToken | TA_Public \<Rightarrow> AuthPublic)"
    "tc_local_authority (tn_config t) = loopback_authority local" "tc_mcp_path (tn_config t) = ho_path opts"
  using assms by (auto simp: open_tunnel_def Let_def prepare_tunnel_def ok_or_def split: option.splits sum.splits)


section \<open>Who a tunnel in front of another server answers\<close>


section \<open>Flags and variables\<close>

text \<open>The variable \<open>PORT\<close> exposes a run on every interface when no address is given, tunnel or not.\<close>

theorem port_variable_exposes:
  assumes "serve_options os cfg fl = Inr opts" "fl_bind fl = None"
    and "nonempty_token (os_var os ''PORT'') = Some raw" "parse_u16 raw = Some port"
  shows "ho_bind opts = \<lparr>sa_ip = V4 (IPv4 0 0 0 0), sa_port = port\<rparr> \<and> ho_expose opts"
proof -
  have "show_ipv4 (IPv4 0 0 0 0) = ''0.0.0.0''" by code_simp
  then have b: "parse_bind (''0.0.0.0:'' @ show_nat (unat port)) = Inr \<lparr>sa_ip = V4 (IPv4 0 0 0 0), sa_port = port\<rparr>"
    using printed_socket_binds [of "IPv4 0 0 0 0" port] by (simp add: show_socket_v4_def)
  from assms(1) show ?thesis
    by (rule serve_optionsE) (use assms(2-) b in \<open>auto simp: resolve_http_bind_def\<close>)
qed

lemma default_bind: "parse_bind ''127.0.0.1:8787'' = Inr \<lparr>sa_ip = V4 (IPv4 127 0 0 1), sa_port = 8787\<rparr>"
proof -
  have "show_socket_v4 (IPv4 127 0 0 1) 8787 = ''127.0.0.1:8787''"
    by (simp add: show_socket_v4_def show_nat.simps digit_char_def char_of_def bit_0)
  then show ?thesis using printed_socket_binds [of "IPv4 127 0 0 1" 8787] by simp
qed

text \<open>The flag \<open>--allow-anonymous\<close> does not do what the configuration key does: with the default
  token reference and its variable unset, a run with the flag alone is refused for the missing
  variable, while the key lets it start.\<close>

theorem anonymous_flag_still_needs_the_variable:
  assumes "gc_server cfg = server_config_default" "os_var os ''MCP_GATEWAY_TOKEN'' = None"
    and "os_var os ''PORT'' = None" "\<not> fl_tunnel fl" "fl_token_file fl = None" "fl_bind fl = None"
    and "fl_path fl = ''/mcp''" "\<not> fl_expose fl"
  shows "serve_options os cfg fl = Inl (Cli_Usage ''MCP_GATEWAY_TOKEN is not set in the environment'')
    \<and> (\<exists>opts. serve_options os (cfg\<lparr>gc_server := server_config_default\<lparr>sc_allow_anonymous := True\<rparr>\<rparr>) fl = Inr opts)"
proof -
  show ?thesis
    using assms default_bind
    by (simp add: serve_options_def resolve_http_bind_def server_config_default_def nonempty_token_def bind_usage_def
        mcp_token_def read_var_def ok_or_def check_tunnel_auth_def served_path_def validate_http_serve_def
        is_loopback_bind_def Let_def)
qed

text \<open>The exit code of a rejected tunnel: 2 for a policy refusal, 1 for what the user can mend (a
  replaced or deleted tunnel among it), 4 for every other code.\<close>

theorem rejected_tunnels_exit:
  "exit_number (cli_exit (reject_cli code message)) =
     (if code = ''unauthorized'' \<or> code = ''plan_limit'' then 2
      else if code \<in> {''version_unsupported'', ''name_taken'', ''name_invalid'', ''name_reserved'', ''replaced'', ''deleted''}
      then 1 else 4)"
  unfolding reject_cli_def Let_def by (simp del: list.inject char.inject)

section \<open>A tunnelled run\<close>

definition sample_flags :: serve_flags where
  "sample_flags =
     \<lparr>fl_tunnel = True, fl_tunnel_auth = TA_Token, fl_bind = None, fl_path = ''/mcp'', fl_expose = False,
      fl_allow_anonymous = True, fl_token_file = None\<rparr>"

definition token_machine :: machine where
  "token_machine = sample_machine\<lparr>os_var := (\<lambda>v. if v = ''MCP_GATEWAY_TOKEN'' then Some ''tok'' else None)\<rparr>"

definition sample_options :: http_serve_options where
  "sample_options =
     \<lparr>ho_bind = \<lparr>sa_ip = V4 (IPv4 127 0 0 1), sa_port = 8787\<rparr>, ho_expose = False, ho_bearer_token = Some ''tok'',
      ho_allow_anonymous = True, ho_path = ''/mcp'', ho_extra_allowed_hosts = []\<rparr>"

lemma sample_serves: "serve_options token_machine config_blank sample_flags = Inr sample_options"
  using default_bind
  by (simp add: serve_options_def resolve_http_bind_def config_blank_def server_config_default_def token_machine_def
      sample_machine_def sample_flags_def sample_options_def nonempty_token_def bind_usage_def mcp_token_def
      read_var_def ok_or_def nonempty_secret_def check_tunnel_auth_def served_path_def validate_http_serve_def
      is_loopback_bind_def Let_def)

lemma sample_opens:
  "\<exists>t. open_tunnel (\<lambda>_. False) token_machine config_blank sample_flags ''c'' sample_options (ho_bind sample_options)
     = Some (Inr t)"
  by (simp add: open_tunnel_def Let_def build_router_def validate_http_serve_def sample_options_def tunnel_options_def
      is_loopback_bind_def nonempty_token_def sample_flags_def prepare_tunnel_def ok_or_def)



definition port_machine :: machine where
  "port_machine = token_machine\<lparr>os_var := (os_var token_machine)(''PORT'' := Some ''80'')\<rparr>"

theorem port_variable_exposes_witness:
  "\<exists>opts. serve_options port_machine config_blank (sample_flags\<lparr>fl_allow_anonymous := False\<rparr>) = Inr opts
     \<and> ho_bind opts = \<lparr>sa_ip = V4 (IPv4 0 0 0 0), sa_port = 80\<rparr> \<and> ho_expose opts"
proof -
  have eighty: "show_nat 80 = ''80''" by (simp add: show_nat.simps digit_char_def char_of_def bit_0)
  have trims: "trim ''80'' = ''80''" by code_simp
  have trimmed: "nonempty_token (os_var port_machine ''PORT'') = Some ''80''" "parse_u16 ''80'' = Some 80"
    using trims parse_show_nat [of 80] by (simp_all add: port_machine_def nonempty_token_def parse_u16_def eighty)
  have "show_ipv4 (IPv4 0 0 0 0) = ''0.0.0.0''" by code_simp
  then have b: "parse_bind (''0.0.0.0:'' @ show_nat 80) = Inr \<lparr>sa_ip = V4 (IPv4 0 0 0 0), sa_port = 80\<rparr>"
    using printed_socket_binds [of "IPv4 0 0 0 0" 80] by (simp add: show_socket_v4_def)
  have tok: "mcp_token port_machine config_blank None = Inr (Some ''tok'')"
    by (simp add: mcp_token_def config_blank_def server_config_default_def read_var_def ok_or_def port_machine_def
        token_machine_def nonempty_secret_def)
  obtain opts where o: "serve_options port_machine config_blank (sample_flags\<lparr>fl_allow_anonymous := False\<rparr>) = Inr opts"
    using trimmed b tok
    by (simp add: serve_options_def resolve_http_bind_def sample_flags_def config_blank_def server_config_default_def
        bind_usage_def check_tunnel_auth_def served_path_def validate_http_serve_def Let_def)
       (simp add: nonempty_token_def)?
  from port_variable_exposes [OF o _ trimmed(1,2)] o show ?thesis by (auto simp: sample_flags_def)
qed

theorem anonymous_flag_still_needs_the_variable_witness:
  "serve_options sample_machine config_blank (sample_flags\<lparr>fl_tunnel := False\<rparr>)
     = Inl (Cli_Usage ''MCP_GATEWAY_TOKEN is not set in the environment'')"
  using anonymous_flag_still_needs_the_variable [of config_blank sample_machine "sample_flags\<lparr>fl_tunnel := False\<rparr>"]
  by (simp add: config_blank_def sample_machine_def sample_flags_def)

end
