(* ===== verification/Stdio_Bridge.thy ===== *)
theory Stdio_Bridge
  imports Local_Upstream
begin

text \<open>
  The bridge to a child process that speaks newline-delimited JSON-RPC
  (\<open>mcp-gateway-tunnel/src/upstream/stdio.rs\<close>): the answer a request gets without the child, the jobs
  and pending requests of the supervisor, the child's lines, and the interleaving of callers,
  supervisor, child and clock as a step relation. The clock, the child and JSON text are
  the environment; a line is the JSON value it holds.
\<close>

section \<open>Lines of the child\<close>

datatype child_line =
    Line_Request json
  | Line_Response json
  | Line_Notification json
  | Line_Ignore

text \<open>\<open>classify\<close>, with \<open>None\<close> for a line that is not JSON.\<close>

definition classify_line :: "json option \<Rightarrow> child_line" where
  "classify_line line =
     (case line of
        None \<Rightarrow> Line_Ignore
      | Some v \<Rightarrow>
          (let has_method = (Option.bind (jget ''method'' v) as_str \<noteq> None);
               has_id = (jget ''id'' v \<noteq> None)
           in if has_method \<and> has_id then Line_Request v
              else if has_id then Line_Response v
              else if has_method then Line_Notification v
              else Line_Ignore))"

definition rejection :: "json \<Rightarrow> json" where
  "rejection v =
     JObj [(''jsonrpc'', JStr ''2.0''),
       (''id'', case jget ''id'' v of Some i \<Rightarrow> i | None \<Rightarrow> JNull),
       (''error'', JObj [(''code'', JNum (NegInt (- 32601))),
          (''message'', JStr ''server requests are not bridged'')])]"

section \<open>What a request asks for\<close>

fun collect_limited :: "nat \<Rightarrow> bytes option list \<Rightarrow> bytes option" where
  "collect_limited left [] = Some []"
| "collect_limited left (None # _) = None"
| "collect_limited left (Some d # rest) =
     (if left < length d then None else map_option ((@) d) (collect_limited (left - length d) rest))"

record bridge_lib =
  bl_parse :: "bytes \<Rightarrow> json option"
  bl_show :: "json \<Rightarrow> bytes"

datatype verdict =
    Answer "response \<times> bytes"
  | Notify json
  | Ask bytes json json

text \<open>
  \<open>handle\<close> up to its first send: an answer of the bridge itself, a notification for the child, or a
  request for it (method, parameters, the caller's id).
\<close>

definition verdict_of :: "bridge_lib \<Rightarrow> json \<Rightarrow> bytes \<Rightarrow> bytes option list \<Rightarrow> verdict" where
  "verdict_of lib cached http_method chunks =
     (let rpc = rpc_response (bl_show lib) in
      if http_method = ''GET'' then Answer (empty_response 405)
      else if http_method = ''DELETE'' then Answer (empty_response 200)
      else if http_method \<noteq> ''POST'' then Answer (empty_response 405)
      else case collect_limited (unat DEFAULT_MAX_BODY_BYTES) chunks of
        None \<Rightarrow> Answer (rpc 413 (- 32001) ''body exceeds 1048576 bytes'' JNull)
      | Some body \<Rightarrow>
          if body = [] then Answer (rpc 400 (- 32700) ''expected a JSON-RPC object'' JNull)
          else case bl_parse lib body of
            None \<Rightarrow> Answer (rpc 400 (- 32700) ''expected a JSON-RPC object'' JNull)
          | Some v \<Rightarrow>
              if as_array v \<noteq> None then Answer (rpc 400 (- 32600) ''JSON-RPC batches are not accepted'' JNull)
              else if as_object v = None then Answer (rpc 400 (- 32700) ''expected a JSON-RPC object'' JNull)
              else
                (let method = (case Option.bind (jget ''method'' v) as_str of Some m \<Rightarrow> m | None \<Rightarrow> []);
                     rpc_id = (case jget ''id'' v of Some i \<Rightarrow> i | None \<Rightarrow> JNull)
                 in if method = ''notifications/initialized'' \<and> jget ''id'' v = None
                    then Answer (empty_response 202)
                    else if method = ''initialize''
                    then (if cached = JNull then Answer (rpc 502 (- 32001) ''upstream unreachable'' JNull)
                          else Answer (json_body (bl_show lib) 200
                                 (JObj [(''jsonrpc'', JStr ''2.0''), (''id'', rpc_id), (''result'', cached)])))
                    else if jget ''id'' v = None then Notify v
                    else Ask method (case jget ''params'' v of Some p \<Rightarrow> p | None \<Rightarrow> JObj []) rpc_id))"

definition request_line :: "64 word \<Rightarrow> bytes \<Rightarrow> json \<Rightarrow> json" where
  "request_line child_id method params =
     JObj [(''jsonrpc'', JStr ''2.0''), (''id'', jword child_id), (''method'', JStr method),
       (''params'', params)]"

section \<open>Restarts\<close>

definition MAX_EXITS_PER_MINUTE :: nat where
  "MAX_EXITS_PER_MINUTE = 5"

text \<open>Times are milliseconds of the monotonic clock; the queue of deaths is in their order.\<close>

definition too_many :: "nat \<Rightarrow> nat list \<Rightarrow> bool \<times> nat list" where
  "too_many now deaths =
     (let kept = dropWhile (\<lambda>at. 60000 \<le> now - at) deaths @ [now]
      in (MAX_EXITS_PER_MINUTE < length kept, kept))"

definition restart_backoff :: "nat \<Rightarrow> nat" where
  "restart_backoff deaths = 200 * 2 ^ min (deaths - 1) 4"

definition wait_label :: "nat \<Rightarrow> bytes" where
  "wait_label ms =
     (if 1000 \<le> ms \<and> ms mod 1000 = 0 then show_nat (ms div 1000) @ '' seconds'' else show_nat ms @ ''ms'')"

section \<open>The handshake with a child\<close>

text \<open>
  What the supervisor sees of a child: a line (\<open>None\<close> when it is not JSON), the end of its output, or
  nothing for the whole wait. \<open>ch_write\<close> is the error of writing a line to it.
\<close>

datatype child_event = Out "json option" | Exited bytes | Quiet

record down =
  dn_crashed :: bool
  dn_message :: bytes

record child_env =
  ch_show :: "json \<Rightarrow> bytes"
  ch_write :: "json \<Rightarrow> bytes option"
  ch_wait_ms :: nat
  ch_version :: bytes

text \<open>The lines written so far, and the methods of notifications that were announced.\<close>

record talk =
  ta_written :: "json list"
  ta_announced :: "bytes list"

definition write_line :: "child_env \<Rightarrow> json \<Rightarrow> talk \<Rightarrow> (down + unit) \<times> talk" where
  "write_line ch v t =
     (case ch_write ch v of
        Some e \<Rightarrow> (Inl \<lparr>dn_crashed = True, dn_message = e\<rparr>, t)
      | None \<Rightarrow> (Inr (), t\<lparr>ta_written := ta_written t @ [v]\<rparr>))"

definition note_notification :: "json \<Rightarrow> bytes list \<Rightarrow> bytes list" where
  "note_notification v announced =
     (case Option.bind (jget ''method'' v) as_str of
        Some m \<Rightarrow> if m \<in> set announced then announced else announced @ [m]
      | None \<Rightarrow> announced)"

text \<open>The wait for the answer with one id; \<open>None\<close> while the child has not said enough.\<close>

fun await_answer ::
    "child_env \<Rightarrow> 64 word \<Rightarrow> bytes \<Rightarrow> child_event list \<Rightarrow> talk
     \<Rightarrow> ((down + json) \<times> child_event list \<times> talk) option" where
  "await_answer ch i method [] t = None"
| "await_answer ch i method (Quiet # es) t =
     Some (Inl \<lparr>dn_crashed = False, dn_message = method @ '' timed out after '' @ wait_label (ch_wait_ms ch)\<rparr>, es, t)"
| "await_answer ch i method (Exited e # es) t = Some (Inl \<lparr>dn_crashed = True, dn_message = e\<rparr>, es, t)"
| "await_answer ch i method (Out line # es) t =
     (case classify_line line of
        Line_Request v \<Rightarrow>
          (case write_line ch (rejection v) t of
             (Inl d, t') \<Rightarrow> Some (Inl d, es, t')
           | (Inr _, t') \<Rightarrow> await_answer ch i method es t')
      | Line_Notification v \<Rightarrow>
          await_answer ch i method es (t\<lparr>ta_announced := note_notification v (ta_announced t)\<rparr>)
      | Line_Response v \<Rightarrow>
          if Option.bind (jget ''id'' v) as_word \<noteq> Some i then await_answer ch i method es t
          else (case jget ''error'' v of
            Some error \<Rightarrow>
              Some (Inl \<lparr>dn_crashed = False, dn_message = method @ '' failed: '' @ ch_show ch error\<rparr>, es, t)
          | None \<Rightarrow> Some (Inr v, es, t))
      | Line_Ignore \<Rightarrow> await_answer ch i method es t)"

definition exchange ::
    "child_env \<Rightarrow> 64 word \<Rightarrow> bytes \<Rightarrow> json \<Rightarrow> child_event list \<Rightarrow> talk
     \<Rightarrow> ((down + json) \<times> child_event list \<times> talk) option" where
  "exchange ch i method params es t =
     (case write_line ch (request_line i method params) t of
        (Inl d, t') \<Rightarrow> Some (Inl d, es, t')
      | (Inr _, t') \<Rightarrow> await_answer ch i method es t')"

definition initialized_note :: json where
  "initialized_note = JObj [(''jsonrpc'', JStr ''2.0''), (''method'', JStr ''notifications/initialized'')]"

definition tools_count :: "json \<Rightarrow> nat option" where
  "tools_count v =
     map_option length (Option.bind (Option.bind (jget ''result'' v) (jget ''tools'')) as_array)"

text \<open>The result, the next free id, and what is left of the child's events.\<close>

type_synonym handshake_out = "(down + json \<times> probe_report) \<times> 64 word \<times> child_event list \<times> talk"

definition list_tools_of_child ::
    "child_env \<Rightarrow> bool \<Rightarrow> 64 word \<Rightarrow> json \<Rightarrow> child_event list \<Rightarrow> talk \<Rightarrow> handshake_out option" where
  "list_tools_of_child ch list_tools next result es t =
     (let report = (\<lambda>n skipped. \<lparr>pr_name = str_at ''serverInfo'' ''name'' result,
            pr_version = str_at ''serverInfo'' ''version'' result, pr_tools = n, pr_tools_skipped = skipped\<rparr>)
      in if \<not> list_tools then Some (Inr (result, report 0 True), next, es, t)
         else (case exchange ch next ''tools/list'' (JObj []) es t of
            None \<Rightarrow> None
          | Some (Inl d, es', t') \<Rightarrow> Some (Inl d, next + 1, es', t')
          | Some (Inr listed, es', t') \<Rightarrow>
              (case tools_count listed of
                 None \<Rightarrow> Some (Inl \<lparr>dn_crashed = False, dn_message = ''tools/list did not return a tools array''\<rparr>,
                           next + 1, es', t')
               | Some n \<Rightarrow> Some (Inr (result, report n False), next + 1, es', t'))))"

definition handshake ::
    "child_env \<Rightarrow> bool \<Rightarrow> 64 word \<Rightarrow> child_event list \<Rightarrow> talk \<Rightarrow> handshake_out option" where
  "handshake ch list_tools next es t =
     (case exchange ch next ''initialize'' (initialize_params (ch_version ch)) es t of
        None \<Rightarrow> None
      | Some (Inl d, es', t') \<Rightarrow> Some (Inl d, next + 1, es', t')
      | Some (Inr initialize, es', t') \<Rightarrow>
          (case write_line ch initialized_note t' of
             (Inl d, t'') \<Rightarrow> Some (Inl d, next + 1, es', t'')
           | (Inr _, t'') \<Rightarrow>
               (case jget ''result'' initialize of
                  None \<Rightarrow> Some (Inl \<lparr>dn_crashed = False, dn_message = ''initialize response had no result''\<rparr>,
                            next + 1, es', t'')
                | Some result \<Rightarrow> list_tools_of_child ch list_tools (next + 1) result es' t'')))"

section \<open>The state of the bridge\<close>

text \<open>
  A job of the channel; a pending request with the caller its reply goes to; a caller from its send
  to the response it gives. The map of pending requests is a list with distinct keys.
\<close>

datatype job =
    Job_Line json json "64 word option" "nat option"
  | Job_Cancel "64 word"

record pending =
  pd_original :: json
  pd_reply :: nat

datatype caller =
    Waiting "64 word"
  | Replied json
  | Refused bytes
  | Dropped
  | Responded "response \<times> bytes"

datatype bridge_phase = Spawning | Pumping | Ended | Stopped_With bytes

text \<open>
  \<open>sb_asked\<close> and \<open>sb_issued\<close> record the id and the child id of every request that was numbered, and
  how many numbers were given out; the code keeps neither.
\<close>

record bridge =
  sb_next :: "64 word"
  sb_jobs :: "job list"
  sb_pending :: "(64 word \<times> pending) list"
  sb_inflight :: "64 word"
  sb_cache :: json
  sb_callers :: "nat \<Rightarrow> caller option"
  sb_fresh :: nat
  sb_deaths :: "nat list"
  sb_phase :: bridge_phase
  sb_talk :: talk
  sb_asked :: "nat \<Rightarrow> (json \<times> 64 word) option"
  sb_issued :: nat

definition bridge_new :: bridge where
  "bridge_new =
     \<lparr>sb_next = 1, sb_jobs = [], sb_pending = [], sb_inflight = 0, sb_cache = JNull, sb_callers = Map.empty,
      sb_fresh = 0, sb_deaths = [], sb_phase = Spawning, sb_talk = \<lparr>ta_written = [], ta_announced = []\<rparr>,
      sb_asked = Map.empty, sb_issued = 1\<rparr>"

text \<open>A reply channel takes its value only while the caller still waits.\<close>

definition resolve :: "nat \<Rightarrow> caller \<Rightarrow> bridge \<Rightarrow> bridge" where
  "resolve k out s =
     (case sb_callers s k of
        Some (Waiting c) \<Rightarrow> s\<lparr>sb_callers := (sb_callers s)(k \<mapsto> out)\<rparr>
      | _ \<Rightarrow> s)"

text \<open>Inserting over a present id drops the reply channel that was there.\<close>

definition insert_pending :: "64 word \<Rightarrow> pending \<Rightarrow> bridge \<Rightarrow> bridge" where
  "insert_pending c p s =
     (let s1 = (case map_of (sb_pending s) c of Some old \<Rightarrow> resolve (pd_reply old) Dropped s | None \<Rightarrow> s)
      in s1\<lparr>sb_pending := AList.update c p (sb_pending s), sb_inflight := sb_inflight s + 1\<rparr>)"

definition drop_pending :: "64 word \<Rightarrow> bridge \<Rightarrow> bridge" where
  "drop_pending c s =
     (case map_of (sb_pending s) c of
        None \<Rightarrow> s
      | Some p \<Rightarrow>
          (resolve (pd_reply p) Dropped s)
            \<lparr>sb_pending := AList.delete c (sb_pending s), sb_inflight := sb_inflight s - 1\<rparr>)"

definition deliver :: "json \<Rightarrow> bridge \<Rightarrow> bridge" where
  "deliver v s =
     (case (Option.bind (jget ''id'' v) as_word, as_object v) of
        (Some c, Some m) \<Rightarrow>
          (case map_of (sb_pending s) c of
             None \<Rightarrow> s
           | Some p \<Rightarrow>
               (resolve (pd_reply p) (Replied (JObj (obj_insert ''id'' (pd_original p) m))) s)
                 \<lparr>sb_pending := AList.delete c (sb_pending s), sb_inflight := sb_inflight s - 1\<rparr>)
      | _ \<Rightarrow> s)"

definition fail_pending :: "bridge \<Rightarrow> bridge" where
  "fail_pending s =
     (fold (\<lambda>(c, p). resolve (pd_reply p) (Refused ''upstream unreachable'')) (sb_pending s) s)
       \<lparr>sb_pending := [], sb_inflight := 0\<rparr>"

text \<open>\<open>finish_bridge\<close>, and the return of the supervisor: the channel and the jobs in it are dropped.\<close>

fun drop_job :: "job \<Rightarrow> bridge \<Rightarrow> bridge" where
  "drop_job (Job_Line _ _ _ (Some k)) s = resolve k Dropped s"
| "drop_job _ s = s"

definition finish_bridge :: "bytes \<Rightarrow> bridge \<Rightarrow> bridge" where
  "finish_bridge message s =
     (fold drop_job (sb_jobs s) (fail_pending s))\<lparr>sb_jobs := [], sb_phase := Stopped_With message\<rparr>"

definition open_channel :: "bridge \<Rightarrow> bool" where
  "open_channel s \<longleftrightarrow> (\<forall>m. sb_phase s \<noteq> Stopped_With m)"

definition send_job :: "job \<Rightarrow> bridge \<Rightarrow> bridge" where
  "send_job j s = (case sb_phase s of Stopped_With _ \<Rightarrow> s | _ \<Rightarrow> s\<lparr>sb_jobs := sb_jobs s @ [j]\<rparr>)"

text \<open>A job the pump took, up to the write of its line.\<close>

fun take_job :: "job \<Rightarrow> bridge \<Rightarrow> bridge" where
  "take_job (Job_Cancel c) s = drop_pending c s"
| "take_job (Job_Line line original (Some c) (Some k)) s = insert_pending c \<lparr>pd_original = original, pd_reply = k\<rparr> s"
| "take_job (Job_Line line original _ _) s = s"

fun job_line :: "job \<Rightarrow> json option" where
  "job_line (Job_Cancel c) = None"
| "job_line (Job_Line line _ _ _) = Some line"

definition wrote :: "json \<Rightarrow> bridge \<Rightarrow> bridge" where
  "wrote v s = s\<lparr>sb_talk := (sb_talk s)\<lparr>ta_written := ta_written (sb_talk s) @ [v]\<rparr>\<rparr>"

definition on_child_line :: "json option \<Rightarrow> bridge \<Rightarrow> bridge" where
  "on_child_line line s =
     (case classify_line line of
        Line_Request v \<Rightarrow> wrote (rejection v) s
      | Line_Notification v \<Rightarrow>
          s\<lparr>sb_talk := (sb_talk s)\<lparr>ta_announced := note_notification v (ta_announced (sb_talk s))\<rparr>\<rparr>
      | Line_Response v \<Rightarrow> deliver v s
      | Line_Ignore \<Rightarrow> s)"

text \<open>The supervisor after a child has gone: pending requests fail, and it restarts or gives up.\<close>

definition after_exit :: "nat \<Rightarrow> bytes \<Rightarrow> bridge \<Rightarrow> bridge" where
  "after_exit now message s =
     (let s1 = fail_pending s; (many, deaths) = too_many now (sb_deaths s)
      in if many then finish_bridge message (s1\<lparr>sb_deaths := deaths\<rparr>)
         else s1\<lparr>sb_deaths := deaths, sb_phase := Spawning\<rparr>)"

definition EXITS_MESSAGE :: bytes where
  "EXITS_MESSAGE =
     ''stdio child exited more than '' @ show_nat MAX_EXITS_PER_MINUTE @ '' times in 60 seconds''"

section \<open>Steps\<close>

text \<open>
  What a caller does: a request that is answered at once, a notification, a numbered request, its
  timeout, and its response from what the reply channel gave.
\<close>

definition ask :: "bytes \<Rightarrow> json \<Rightarrow> json \<Rightarrow> (response \<times> bytes) \<Rightarrow> bridge \<Rightarrow> bridge" where
  "ask method params original gone s =
     (let c = sb_next s; k = sb_fresh s;
          s1 = s\<lparr>sb_next := c + 1, sb_issued := sb_issued s + 1, sb_fresh := k + 1,
                 sb_asked := (sb_asked s)(k \<mapsto> (original, c))\<rparr>
      in (case sb_phase s of
            Stopped_With _ \<Rightarrow> s1\<lparr>sb_callers := (sb_callers s)(k \<mapsto> Responded gone)\<rparr>
          | _ \<Rightarrow> (send_job (Job_Line (request_line c method params) original (Some c) (Some k)) s1)
                  \<lparr>sb_callers := (sb_callers s)(k \<mapsto> Waiting c)\<rparr>))"

definition answered :: "response \<times> bytes \<Rightarrow> bridge \<Rightarrow> bridge" where
  "answered r s =
     s\<lparr>sb_callers := (sb_callers s)(sb_fresh s \<mapsto> Responded r), sb_fresh := sb_fresh s + 1\<rparr>"

fun reply_of :: "bridge_lib \<Rightarrow> caller \<Rightarrow> (response \<times> bytes) option" where
  "reply_of lib (Replied v) = Some (json_body (bl_show lib) 200 v)"
| "reply_of lib (Refused m) =
     Some (rpc_response (bl_show lib) (if m = ''upstream timeout'' then 504 else 502) (- 32001) m JNull)"
| "reply_of lib Dropped = Some (rpc_response (bl_show lib) 502 (- 32001) ''upstream unreachable'' JNull)"
| "reply_of lib _ = None"

inductive bridge_step :: "bridge_lib \<Rightarrow> child_env \<Rightarrow> bool \<Rightarrow> bridge \<Rightarrow> bridge \<Rightarrow> bool" for lib ch list_tools where
  call_answer: "verdict_of lib (sb_cache s) http_method chunks = Answer r \<Longrightarrow>
    bridge_step lib ch list_tools s (answered r s)"
| call_notify: "verdict_of lib (sb_cache s) http_method chunks = Notify v \<Longrightarrow>
    bridge_step lib ch list_tools s (send_job (Job_Line v JNull None None) (answered (empty_response 202) s))"
| call_ask: "verdict_of lib (sb_cache s) http_method chunks = Ask method params original \<Longrightarrow>
    bridge_step lib ch list_tools s
      (ask method params original (rpc_response (bl_show lib) 502 (- 32001) ''upstream unreachable'' JNull) s)"
| call_timeout: "sb_callers s k = Some (Waiting c) \<Longrightarrow>
    bridge_step lib ch list_tools s
      (send_job (Job_Cancel c) (s\<lparr>sb_callers := (sb_callers s)(k \<mapsto>
        Responded (rpc_response (bl_show lib) 504 (- 32001) ''upstream timeout'' JNull))\<rparr>))"
| call_resume: "sb_callers s k = Some x \<Longrightarrow> reply_of lib x = Some r \<Longrightarrow>
    bridge_step lib ch list_tools s (s\<lparr>sb_callers := (sb_callers s)(k \<mapsto> Responded r)\<rparr>)"
| spawn_fails: "sb_phase s = Spawning \<Longrightarrow> bridge_step lib ch list_tools s (finish_bridge message s)"
| ready: "sb_phase s = Spawning \<Longrightarrow>
    handshake ch list_tools (sb_next s) es (sb_talk s) = Some (Inr (result, report), next, rest, t) \<Longrightarrow>
    bridge_step lib ch list_tools s
      (s\<lparr>sb_phase := Pumping, sb_cache := result, sb_next := next, sb_talk := t,
         sb_issued := sb_issued s + unat (next - sb_next s)\<rparr>)"
| handshake_crashed: "sb_phase s = Spawning \<Longrightarrow>
    handshake ch list_tools (sb_next s) es (sb_talk s) = Some (Inl d, next, rest, t) \<Longrightarrow> dn_crashed d \<Longrightarrow>
    bridge_step lib ch list_tools s
      (after_exit now (dn_message d) (s\<lparr>sb_next := next, sb_talk := t, sb_issued := sb_issued s + unat (next - sb_next s)\<rparr>))"
| handshake_failed: "sb_phase s = Spawning \<Longrightarrow>
    handshake ch list_tools (sb_next s) es (sb_talk s) = Some (Inl d, next, rest, t) \<Longrightarrow> \<not> dn_crashed d \<Longrightarrow>
    bridge_step lib ch list_tools s
      (finish_bridge (dn_message d) (s\<lparr>sb_next := next, sb_talk := t, sb_issued := sb_issued s + unat (next - sb_next s)\<rparr>))"
| pump_job: "sb_phase s = Pumping \<Longrightarrow> sb_jobs s = j # js \<Longrightarrow>
    bridge_step lib ch list_tools s
      (let s1 = take_job j (s\<lparr>sb_jobs := js\<rparr>)
       in case job_line j of Some line \<Rightarrow> wrote line s1 | None \<Rightarrow> s1)"
| pump_job_fails: "sb_phase s = Pumping \<Longrightarrow> sb_jobs s = j # js \<Longrightarrow> job_line j = Some line \<Longrightarrow>
    bridge_step lib ch list_tools s ((take_job j (s\<lparr>sb_jobs := js\<rparr>))\<lparr>sb_phase := Ended\<rparr>)"
| child_says: "sb_phase s = Pumping \<Longrightarrow> bridge_step lib ch list_tools s (on_child_line line s)"
| child_ends: "sb_phase s = Pumping \<Longrightarrow> bridge_step lib ch list_tools s (s\<lparr>sb_phase := Ended\<rparr>)"
| exited: "sb_phase s = Ended \<Longrightarrow> bridge_step lib ch list_tools s (after_exit now EXITS_MESSAGE s)"

inductive_cases bridge_stepE: "bridge_step lib ch list_tools s s'"

inductive bridge_reach :: "bridge_lib \<Rightarrow> child_env \<Rightarrow> bool \<Rightarrow> bridge \<Rightarrow> bool" for lib ch list_tools where
  reach_new: "bridge_reach lib ch list_tools bridge_new"
| reach_more: "bridge_reach lib ch list_tools s \<Longrightarrow> bridge_step lib ch list_tools s s' \<Longrightarrow>
    bridge_reach lib ch list_tools s'"

section \<open>Who holds a caller's reply channel\<close>

fun job_holder :: "job \<Rightarrow> (nat \<times> json \<times> 64 word) option" where
  "job_holder (Job_Line line original (Some c) (Some k)) = Some (k, original, c)"
| "job_holder _ = None"

definition pending_holder :: "64 word \<times> pending \<Rightarrow> nat \<times> json \<times> 64 word" where
  "pending_holder q = (pd_reply (snd q), pd_original (snd q), fst q)"

definition holders :: "bridge \<Rightarrow> (nat \<times> json \<times> 64 word) list" where
  "holders s = List.map_filter job_holder (sb_jobs s) @ map pending_holder (sb_pending s)"

definition good :: "bridge \<Rightarrow> bool" where
  "good s \<longleftrightarrow>
     distinct (map fst (holders s))
     \<and> (\<forall>h \<in> set (holders s). sb_asked s (fst h) = Some (snd h))
     \<and> (\<forall>k c. sb_callers s k = Some (Waiting c) \<longrightarrow>
          k \<in> fst ` set (holders s) \<and> (\<exists>i. sb_asked s k = Some (i, c)))
     \<and> (\<forall>k \<ge> sb_fresh s. sb_callers s k = None \<and> sb_asked s k = None)
     \<and> (\<forall>k i c. sb_asked s k = Some (i, c) \<longrightarrow> unat c < sb_issued s)
     \<and> (\<forall>k k' i i' c. sb_asked s k = Some (i, c) \<longrightarrow> sb_asked s k' = Some (i', c) \<longrightarrow> k = k')
     \<and> unat (sb_next s) = sb_issued s
     \<and> distinct (map fst (sb_pending s))
     \<and> sb_inflight s = of_nat (length (sb_pending s))
     \<and> (\<forall>k v. sb_callers s k = Some (Replied v) \<longrightarrow>
          (\<exists>i c. sb_asked s k = Some (i, c) \<and> jget ''id'' v = Some i))
     \<and> (\<forall>m. sb_phase s = Stopped_With m \<longrightarrow> sb_jobs s = [] \<and> sb_pending s = [])"

lemma resolve_fields [simp]:
  "sb_next (resolve k out s) = sb_next s" "sb_jobs (resolve k out s) = sb_jobs s"
  "sb_pending (resolve k out s) = sb_pending s" "sb_inflight (resolve k out s) = sb_inflight s"
  "sb_cache (resolve k out s) = sb_cache s" "sb_fresh (resolve k out s) = sb_fresh s"
  "sb_deaths (resolve k out s) = sb_deaths s" "sb_phase (resolve k out s) = sb_phase s"
  "sb_talk (resolve k out s) = sb_talk s" "sb_asked (resolve k out s) = sb_asked s"
  "sb_issued (resolve k out s) = sb_issued s"
  by (auto simp: resolve_def split: option.split caller.split)

lemma resolve_callers:
  "sb_callers (resolve k out s) j =
     (if j = k \<and> (\<exists>c. sb_callers s k = Some (Waiting c)) then Some out else sb_callers s j)"
  by (auto simp: resolve_def split: option.splits caller.splits)

definition waits :: "bridge \<Rightarrow> nat \<Rightarrow> bool" where
  "waits s k \<longleftrightarrow> (\<exists>c. sb_callers s k = Some (Waiting c))"

text \<open>Any number of channels given up: the fields and the callers after a fold.\<close>

lemma fold_resolve_fields:
  assumes "\<And>x s. f x s = s \<or> (\<exists>k. f x s = resolve k out s)"
  shows "sb_next (fold f xs s) = sb_next s" "sb_jobs (fold f xs s) = sb_jobs s"
    "sb_pending (fold f xs s) = sb_pending s" "sb_inflight (fold f xs s) = sb_inflight s"
    "sb_cache (fold f xs s) = sb_cache s" "sb_fresh (fold f xs s) = sb_fresh s"
    "sb_deaths (fold f xs s) = sb_deaths s" "sb_phase (fold f xs s) = sb_phase s"
    "sb_talk (fold f xs s) = sb_talk s" "sb_asked (fold f xs s) = sb_asked s"
    "sb_issued (fold f xs s) = sb_issued s"
proof -
  have "sb_next (f x s) = sb_next s \<and> sb_jobs (f x s) = sb_jobs s \<and> sb_pending (f x s) = sb_pending s
    \<and> sb_inflight (f x s) = sb_inflight s \<and> sb_cache (f x s) = sb_cache s \<and> sb_fresh (f x s) = sb_fresh s
    \<and> sb_deaths (f x s) = sb_deaths s \<and> sb_phase (f x s) = sb_phase s \<and> sb_talk (f x s) = sb_talk s
    \<and> sb_asked (f x s) = sb_asked s \<and> sb_issued (f x s) = sb_issued s" for x s
    using assms [of x s] by auto
  then show "sb_next (fold f xs s) = sb_next s" "sb_jobs (fold f xs s) = sb_jobs s"
    "sb_pending (fold f xs s) = sb_pending s" "sb_inflight (fold f xs s) = sb_inflight s"
    "sb_cache (fold f xs s) = sb_cache s" "sb_fresh (fold f xs s) = sb_fresh s"
    "sb_deaths (fold f xs s) = sb_deaths s" "sb_phase (fold f xs s) = sb_phase s"
    "sb_talk (fold f xs s) = sb_talk s" "sb_asked (fold f xs s) = sb_asked s"
    "sb_issued (fold f xs s) = sb_issued s"
    by (induction xs arbitrary: s) simp_all
qed

lemma fold_resolve_callers:
  assumes "\<And>x s. f x s = (case g x of Some k \<Rightarrow> resolve k out s | None \<Rightarrow> s)" "\<And>c. out \<noteq> Waiting c"
  shows "sb_callers (fold f xs s) j =
    (if j \<in> set (List.map_filter g xs) \<and> waits s j then Some out else sb_callers s j)"
proof (induction xs arbitrary: s)
  case (Cons x xs)
  have w: "waits (resolve k out s) j \<longleftrightarrow> waits s j \<and> j \<noteq> k" for k
    using assms(2) by (auto simp: waits_def resolve_callers)
  show ?case
    by (cases "g x") (auto simp: Cons.IH assms(1) [of x s] List.map_filter_simps w resolve_callers waits_def)
qed (simp add: List.map_filter_simps)

fun job_caller :: "job \<Rightarrow> nat option" where
  "job_caller (Job_Line _ _ _ (Some k)) = Some k"
| "job_caller _ = None"

lemma drop_job_resolve: "drop_job j s = (case job_caller j of Some k \<Rightarrow> resolve k Dropped s | None \<Rightarrow> s)"
  by (cases "(j, s)" rule: drop_job.cases) auto

lemma fail_resolve:
  "(\<lambda>(c, p). resolve (pd_reply p) out) q s = (case Some (pd_reply (snd q)) of Some k \<Rightarrow> resolve k out s | None \<Rightarrow> s)"
  by (cases q) simp

lemma fold_drop_job [simp]:
  "sb_next (fold drop_job js s) = sb_next s" "sb_jobs (fold drop_job js s) = sb_jobs s"
  "sb_pending (fold drop_job js s) = sb_pending s" "sb_inflight (fold drop_job js s) = sb_inflight s"
  "sb_fresh (fold drop_job js s) = sb_fresh s" "sb_phase (fold drop_job js s) = sb_phase s"
  "sb_asked (fold drop_job js s) = sb_asked s" "sb_issued (fold drop_job js s) = sb_issued s"
  "sb_callers (fold drop_job js s) j =
    (if j \<in> set (List.map_filter job_caller js) \<and> waits s j then Some Dropped else sb_callers s j)"
proof -
  have f: "drop_job x s = s \<or> (\<exists>k. drop_job x s = resolve k Dropped s)" for x s
    by (auto simp: drop_job_resolve split: option.split)
  note fields = fold_resolve_fields [where f = drop_job, OF f]
  show "sb_next (fold drop_job js s) = sb_next s" "sb_jobs (fold drop_job js s) = sb_jobs s"
    "sb_pending (fold drop_job js s) = sb_pending s" "sb_inflight (fold drop_job js s) = sb_inflight s"
    "sb_fresh (fold drop_job js s) = sb_fresh s" "sb_phase (fold drop_job js s) = sb_phase s"
    "sb_asked (fold drop_job js s) = sb_asked s" "sb_issued (fold drop_job js s) = sb_issued s"
    by (rule fields)+
  show "sb_callers (fold drop_job js s) j =
    (if j \<in> set (List.map_filter job_caller js) \<and> waits s j then Some Dropped else sb_callers s j)"
    by (rule fold_resolve_callers [where g = job_caller]) (simp_all add: drop_job_resolve)
qed

lemma map_filter_Some: "List.map_filter (\<lambda>x. Some (h x)) xs = map h xs"
  by (induction xs) (simp_all add: List.map_filter_simps)

lemma fail_pending_fields [simp]:
  "sb_next (fail_pending s) = sb_next s" "sb_jobs (fail_pending s) = sb_jobs s"
  "sb_pending (fail_pending s) = []" "sb_inflight (fail_pending s) = 0"
  "sb_fresh (fail_pending s) = sb_fresh s" "sb_phase (fail_pending s) = sb_phase s"
  "sb_asked (fail_pending s) = sb_asked s" "sb_issued (fail_pending s) = sb_issued s"
  "sb_deaths (fail_pending s) = sb_deaths s"
  "sb_callers (fail_pending s) j =
    (if j \<in> (pd_reply \<circ> snd) ` set (sb_pending s) \<and> waits s j then Some (Refused ''upstream unreachable'')
     else sb_callers s j)"
proof -
  let ?f = "\<lambda>(c, p). resolve (pd_reply p) (Refused ''upstream unreachable'') :: bridge \<Rightarrow> bridge"
  have f: "?f x s = s \<or> (\<exists>k. ?f x s = resolve k (Refused ''upstream unreachable'') s)" for x :: "64 word \<times> pending" and s
    by (cases x) auto
  note fields = fold_resolve_fields [where f = ?f, OF f]
  show "sb_next (fail_pending s) = sb_next s" "sb_jobs (fail_pending s) = sb_jobs s"
    "sb_pending (fail_pending s) = []" "sb_inflight (fail_pending s) = 0"
    "sb_fresh (fail_pending s) = sb_fresh s" "sb_phase (fail_pending s) = sb_phase s"
    "sb_asked (fail_pending s) = sb_asked s" "sb_issued (fail_pending s) = sb_issued s"
    "sb_deaths (fail_pending s) = sb_deaths s"
    by (simp_all add: fail_pending_def fields)
  show "sb_callers (fail_pending s) j =
    (if j \<in> (pd_reply \<circ> snd) ` set (sb_pending s) \<and> waits s j then Some (Refused ''upstream unreachable'')
     else sb_callers s j)"
    using fold_resolve_callers [where f = ?f and g = "\<lambda>q. Some (pd_reply (snd q))", OF fail_resolve, of "sb_pending s" s j]
    by (simp add: fail_pending_def map_filter_Some image_comp comp_def)
qed

lemma finish_fields [simp]:
  "sb_next (finish_bridge m s) = sb_next s" "sb_jobs (finish_bridge m s) = []" "sb_pending (finish_bridge m s) = []"
  "sb_inflight (finish_bridge m s) = 0" "sb_fresh (finish_bridge m s) = sb_fresh s" "sb_phase (finish_bridge m s) = Stopped_With m"
  "sb_asked (finish_bridge m s) = sb_asked s" "sb_issued (finish_bridge m s) = sb_issued s"
  by (simp_all add: finish_bridge_def)

section \<open>The steps keep the state good\<close>

lemma good_new: "good bridge_new"
  by (simp add: good_def bridge_new_def holders_def List.map_filter_simps)

lemma map_filter_append: "List.map_filter f (xs @ ys) = List.map_filter f xs @ List.map_filter f ys"
  by (induction xs) (simp_all add: List.map_filter_simps split: option.split)

lemma holders_send:
  "holders (send_job j s) = (if open_channel s
     then List.map_filter job_holder (sb_jobs s) @ (case job_holder j of Some h \<Rightarrow> [h] | None \<Rightarrow> [])
            @ map pending_holder (sb_pending s)
     else holders s)"
  by (auto simp: holders_def send_job_def open_channel_def map_filter_append List.map_filter_simps
      split: bridge_phase.split option.split)

lemma send_job_fields [simp]:
  "sb_next (send_job j s) = sb_next s" "sb_pending (send_job j s) = sb_pending s"
  "sb_inflight (send_job j s) = sb_inflight s" "sb_fresh (send_job j s) = sb_fresh s"
  "sb_phase (send_job j s) = sb_phase s" "sb_asked (send_job j s) = sb_asked s"
  "sb_issued (send_job j s) = sb_issued s" "sb_callers (send_job j s) = sb_callers s"
  "sb_jobs (send_job j s) = (if open_channel s then sb_jobs s @ [j] else sb_jobs s)"
  by (auto simp: send_job_def open_channel_def split: bridge_phase.split)

lemma good_send_silent: "good s \<Longrightarrow> job_holder j = None \<Longrightarrow> good (send_job j s)"
  unfolding good_def holders_send by (auto simp: holders_def open_channel_def)

lemma good_answered: "good s \<Longrightarrow> good (answered r s)"
  unfolding good_def answered_def holders_def by (auto simp: Suc_le_eq)

lemma good_responded: "good s \<Longrightarrow> sb_callers s k = Some x \<Longrightarrow> good (s\<lparr>sb_callers := (sb_callers s)(k \<mapsto> Responded r)\<rparr>)"
  unfolding good_def holders_def by auto

lemma good_wrote [simp]: "good (wrote v s) = good s"
  by (simp add: good_def wrote_def holders_def)

lemma good_phase: "good s \<Longrightarrow> (\<And>m. ph \<noteq> Stopped_With m) \<Longrightarrow> good (s\<lparr>sb_phase := ph\<rparr>)"
  by (simp add: good_def holders_def)

lemma good_fields [simp]:
  "good (s\<lparr>sb_talk := t\<rparr>) = good s" "good (s\<lparr>sb_cache := v\<rparr>) = good s" "good (s\<lparr>sb_deaths := ds\<rparr>) = good s"
  by (simp_all add: good_def holders_def)

lemma good_issue:
  "good s \<Longrightarrow> unat next = sb_issued s + n \<Longrightarrow> good (s\<lparr>sb_next := next, sb_issued := sb_issued s + n\<rparr>)"
  unfolding good_def holders_def by (auto intro: trans_less_add1)

lemma goodD:
  assumes "good s"
  shows "distinct (map fst (holders s))" "\<And>h. h \<in> set (holders s) \<Longrightarrow> sb_asked s (fst h) = Some (snd h)"
    "\<And>k c. sb_callers s k = Some (Waiting c) \<Longrightarrow> k \<in> fst ` set (holders s) \<and> (\<exists>i. sb_asked s k = Some (i, c))"
    "\<And>k. sb_fresh s \<le> k \<Longrightarrow> sb_callers s k = None" "\<And>k. sb_fresh s \<le> k \<Longrightarrow> sb_asked s k = None"
    "\<And>k i c. sb_asked s k = Some (i, c) \<Longrightarrow> unat c < sb_issued s"
    "\<And>k k' i i' c. sb_asked s k = Some (i, c) \<Longrightarrow> sb_asked s k' = Some (i', c) \<Longrightarrow> k = k'"
    "unat (sb_next s) = sb_issued s" "distinct (map fst (sb_pending s))"
    "sb_inflight s = of_nat (length (sb_pending s))"
    "\<And>k v. sb_callers s k = Some (Replied v) \<Longrightarrow> \<exists>i c. sb_asked s k = Some (i, c) \<and> jget ''id'' v = Some i"
    "\<And>m. sb_phase s = Stopped_With m \<Longrightarrow> sb_jobs s = [] \<and> sb_pending s = []"
  using assms unfolding good_def by blast+

lemma good_ask:
  assumes g: "good s" and room: "unat (sb_next s + 1) = sb_issued s + 1"
  shows "good (ask method params i gone s)"
proof -
  let ?c = "sb_next s" and ?k = "sb_fresh s"
  have new: "?k \<notin> fst ` set (holders s)"
  proof
    assume "?k \<in> fst ` set (holders s)"
    then obtain h where "h \<in> set (holders s)" "fst h = ?k" by auto
    with goodD(2) [OF g, of h] goodD(5) [OF g, of ?k] show False by simp
  qed
  then have new_h: "(?k, x) \<notin> set (holders s)" for x by force
  have fresh_id: "sb_asked s k \<noteq> Some (j, ?c)" for k j using goodD(6) [OF g, of k j ?c] goodD(8) [OF g] by auto
  show ?thesis
  proof (cases "open_channel s")
    case True
    then have a: "ask method params i gone s =
      s\<lparr>sb_next := ?c + 1, sb_issued := sb_issued s + 1, sb_fresh := ?k + 1,
        sb_asked := (sb_asked s)(?k \<mapsto> (i, ?c)), sb_callers := (sb_callers s)(?k \<mapsto> Waiting ?c),
        sb_jobs := sb_jobs s @ [Job_Line (request_line ?c method params) i (Some ?c) (Some ?k)]\<rparr>"
      by (auto simp: ask_def send_job_def open_channel_def Let_def split: bridge_phase.split)
    have h: "set (holders (ask method params i gone s)) = insert (?k, i, ?c) (set (holders s))"
      "map fst (holders (ask method params i gone s)) =
        map fst (List.map_filter job_holder (sb_jobs s)) @ [?k] @ map fst (map pending_holder (sb_pending s))"
      by (auto simp: a holders_def map_filter_append List.map_filter_simps)
    have d: "distinct (map fst (holders (ask method params i gone s)))"
      unfolding h(2) using goodD(1) [OF g] new by (auto simp: holders_def)
    show ?thesis
      unfolding good_def h(1)
      using d goodD [OF g] new_h fresh_id room True
      by (auto simp: a less_Suc_eq open_channel_def)
  next
    case False
    then have a: "ask method params i gone s =
      s\<lparr>sb_next := ?c + 1, sb_issued := sb_issued s + 1, sb_fresh := ?k + 1,
        sb_asked := (sb_asked s)(?k \<mapsto> (i, ?c)), sb_callers := (sb_callers s)(?k \<mapsto> Responded gone)\<rparr>"
      by (auto simp: ask_def open_channel_def Let_def split: bridge_phase.split)
    have h: "holders (ask method params i gone s) = holders s" by (simp add: a holders_def)
    show ?thesis
      unfolding good_def h
      using goodD [OF g] new_h fresh_id room by (auto simp: a less_Suc_eq)
  qed
qed

lemma delete_one:
  assumes "map_of al c = Some p" "distinct (map fst al)"
  shows "set (AList.delete c al) = set al - {(c, p)}" "Suc (length (AList.delete c al)) = length al"
proof -
  have e: "AList.delete c al = filter (\<lambda>q. c \<noteq> fst q) al" by (simp add: AList.delete_eq case_prod_unfold)
  show "set (AList.delete c al) = set al - {(c, p)}"
    unfolding e using assms by (auto dest: eq_key_imp_eq_value [OF assms(2)])
  have m: "(c, p) \<in> set al" using assms(1) by (rule map_of_SomeD)
  from split_list [OF m] obtain xs ys where al: "al = xs @ (c, p) # ys" by blast
  with assms(2) have "c \<notin> fst ` set xs" "c \<notin> fst ` set ys" by auto
  then have "filter (\<lambda>q. c \<noteq> fst q) xs = xs" "filter (\<lambda>q. c \<noteq> fst q) ys = ys"
    by (auto simp: filter_id_conv)
  then show "Suc (length (AList.delete c al)) = length al" by (simp add: al e [unfolded al])
qed

lemma good_remove:
  assumes g: "good s" and p: "map_of (sb_pending s) c = Some p" and out: "\<And>c. out \<noteq> Waiting c"
    and rep: "\<And>v. out = Replied v \<Longrightarrow> jget ''id'' v = Some (pd_original p)"
  shows "good ((resolve (pd_reply p) out s)
    \<lparr>sb_pending := AList.delete c (sb_pending s), sb_inflight := sb_inflight s - 1\<rparr>)" (is "good ?t")
proof -
  note d = delete_one [OF p goodD(9) [OF g]]
  have del: "AList.delete c (sb_pending s) = filter (\<lambda>q. c \<noteq> fst q) (sb_pending s)"
    by (simp add: AList.delete_eq case_prod_unfold)
  let ?h = "pending_holder (c, p)"
  have mem: "?h \<in> set (holders s)" using map_of_SomeD [OF p] by (auto simp: holders_def)
  have asked: "sb_asked s (pd_reply p) = Some (pd_original p, c)"
    using goodD(2) [OF g mem] by (simp add: pending_holder_def)
  have sub: "set (holders s) - {?h} \<subseteq> set (holders ?t)" "set (holders ?t) \<subseteq> set (holders s)"
    by (auto simp: holders_def d(1))
  have "distinct (map fst (holders ?t))"
    using goodD(1) [OF g] by (auto simp: holders_def del distinct_map_filter intro: inj_on_subset)
  moreover have "\<forall>h \<in> set (holders ?t). sb_asked ?t (fst h) = Some (snd h)"
    using sub(2) goodD(2) [OF g] by auto
  moreover have "k \<in> fst ` set (holders ?t) \<and> (\<exists>i. sb_asked ?t k = Some (i, c'))"
    if "sb_callers ?t k = Some (Waiting c')" for k c'
  proof -
    from that out have w: "sb_callers s k = Some (Waiting c')" and ne: "k \<noteq> pd_reply p"
      by (auto simp: resolve_callers split: if_splits)
    from goodD(3) [OF g w] obtain h where h: "h \<in> set (holders s)" "fst h = k" by auto
    with ne have "h \<noteq> ?h" by (auto simp: pending_holder_def)
    with h sub(1) have "k \<in> fst ` set (holders ?t)" by blast
    with goodD(3) [OF g w] show ?thesis by simp
  qed
  moreover have "\<exists>i c. sb_asked ?t k = Some (i, c) \<and> jget ''id'' v = Some i"
    if "sb_callers ?t k = Some (Replied v)" for k v
    using that goodD(11) [OF g, of k v] rep [of v] asked by (auto simp: resolve_callers split: if_splits)
  moreover have "sb_inflight s - 1 = of_nat (length (AList.delete c (sb_pending s)))"
    using goodD(10) [OF g] d(2) by (metis add_diff_cancel_right' of_nat_Suc add.commute)
  moreover have "\<forall>k \<ge> sb_fresh ?t. sb_callers ?t k = None \<and> sb_asked ?t k = None"
    using goodD(4,5) [OF g] by (auto simp: resolve_callers)
  moreover have "distinct (map fst (sb_pending ?t))"
    using goodD(9) [OF g] by (simp add: distinct_delete)
  moreover have "sb_phase s = Stopped_With m \<Longrightarrow> False" for m
    using goodD(12) [OF g, of m] p by auto
  ultimately show ?thesis
    unfolding good_def using goodD(6,7,8) [OF g] by auto
qed

lemma good_drop_pending: "good s \<Longrightarrow> good (drop_pending c s)"
  by (auto simp: drop_pending_def intro: good_remove split: option.split)

lemma good_deliver: "good s \<Longrightarrow> good (deliver v s)"
  by (auto simp: deliver_def intro!: good_remove split: option.split)

lemma update_fresh: "c \<notin> fst ` set al \<Longrightarrow> AList.update c v al = al @ [(c, v)]"
  by (induction al) auto

lemma good_pop_silent: "good s \<Longrightarrow> sb_jobs s = j # js \<Longrightarrow> job_holder j = None \<Longrightarrow> good (s\<lparr>sb_jobs := js\<rparr>)"
  unfolding good_def by (auto simp: holders_def List.map_filter_simps)

lemma popped_id_is_fresh:
  assumes g: "good s" and j: "sb_jobs s = j # js" "job_holder j = Some (k, i, c)"
  shows "c \<notin> fst ` set (sb_pending s)"
proof
  assume "c \<in> fst ` set (sb_pending s)"
  then obtain p where p: "(c, p) \<in> set (sb_pending s)" by auto
  have holds: "holders s = (k, i, c) # List.map_filter job_holder js @ map pending_holder (sb_pending s)"
    by (simp add: holders_def j List.map_filter_simps)
  have "pending_holder (c, p) \<in> set (holders s)" using p by (simp add: holds)
  from goodD(2) [OF g this] have "sb_asked s (pd_reply p) = Some (pd_original p, c)"
    by (simp add: pending_holder_def)
  moreover have "sb_asked s k = Some (i, c)" using goodD(2) [OF g, of "(k, i, c)"] by (simp add: holds)
  ultimately have "pd_reply p = k" by (rule goodD(7) [OF g])
  with p have "k \<in> fst ` set (map pending_holder (sb_pending s))" by (force simp: pending_holder_def)
  moreover have "k \<notin> fst ` set (map pending_holder (sb_pending s))"
    using goodD(1) [OF g] unfolding holds by auto
  ultimately show False by contradiction
qed

lemma good_take_line:
  assumes g: "good s" and j: "sb_jobs s = Job_Line line i (Some c) (Some k) # js"
  shows "good (take_job (Job_Line line i (Some c) (Some k)) (s\<lparr>sb_jobs := js\<rparr>))" (is "good ?t")
proof -
  note fresh = popped_id_is_fresh [OF g j, of k i c, simplified]
  then have no: "map_of (sb_pending s) c = None" by (simp add: map_of_eq_None_iff)
  let ?u = "s\<lparr>sb_jobs := js, sb_pending := sb_pending s @ [(c, \<lparr>pd_original = i, pd_reply = k\<rparr>)],
      sb_inflight := sb_inflight s + 1\<rparr>"
  have t: "?t = ?u" by (simp add: insert_pending_def no update_fresh [OF fresh])
  have h: "holders s = (k, i, c) # List.map_filter job_holder js @ map pending_holder (sb_pending s)"
    by (simp add: holders_def j List.map_filter_simps)
  have h': "holders ?u = List.map_filter job_holder js @ map pending_holder (sb_pending s) @ [(k, i, c)]"
    by (simp add: holders_def pending_holder_def)
  have set: "set (holders ?u) = set (holders s)" unfolding h h' by auto
  have dist: "distinct (map fst (holders ?u))" using goodD(1) [OF g] unfolding h h' by auto
  have "sb_phase s = Stopped_With m \<Longrightarrow> False" for m using goodD(12) [OF g, of m] j by simp
  then have "good ?u"
    unfolding good_def set using dist goodD [OF g] fresh by auto
  then show ?thesis by (simp only: t)
qed

lemma good_take_job:
  assumes "good s" "sb_jobs s = j # js"
  shows "good (take_job j (s\<lparr>sb_jobs := js\<rparr>))"
proof (cases "job_holder j")
  case None
  with assms have "good (s\<lparr>sb_jobs := js\<rparr>)" by (rule good_pop_silent)
  with None show ?thesis by (cases j rule: job_holder.cases) (auto intro: good_drop_pending)
next
  case (Some h)
  with assms show ?thesis by (cases j rule: job_holder.cases) (auto simp del: take_job.simps intro: good_take_line)
qed

lemma good_fail_pending:
  assumes g: "good s"
  shows "good (fail_pending s)"
proof -
  have h: "holders (fail_pending s) = List.map_filter job_holder (sb_jobs s)" by (simp add: holders_def)
  have sub: "set (holders (fail_pending s)) \<subseteq> set (holders s)" unfolding h by (auto simp: holders_def)
  have "distinct (map fst (holders (fail_pending s)))" using goodD(1) [OF g] unfolding h by (simp add: holders_def)
  moreover have "\<forall>h \<in> set (holders (fail_pending s)). sb_asked (fail_pending s) (fst h) = Some (snd h)"
    using sub goodD(2) [OF g] by auto
  moreover have "k \<in> fst ` set (holders (fail_pending s)) \<and> (\<exists>i. sb_asked (fail_pending s) k = Some (i, c))"
    if "sb_callers (fail_pending s) k = Some (Waiting c)" for k c
  proof -
    from that have w: "sb_callers s k = Some (Waiting c)" and ne: "k \<notin> (pd_reply \<circ> snd) ` set (sb_pending s)"
      by (auto simp: waits_def split: if_splits)
    from ne have "k \<notin> fst ` set (map pending_holder (sb_pending s))"
      by (auto simp: pending_holder_def image_image)
    with goodD(3) [OF g w] show ?thesis unfolding h by (auto simp: holders_def)
  qed
  moreover have "\<exists>i c. sb_asked s k = Some (i, c) \<and> jget ''id'' v = Some i"
    if "sb_callers (fail_pending s) k = Some (Replied v)" for k v
    using that goodD(11) [OF g, of k v] by (auto split: if_splits)
  moreover have "\<forall>k \<ge> sb_fresh s. sb_callers (fail_pending s) k = None \<and> sb_asked (fail_pending s) k = None"
    using goodD(4,5) [OF g] by (auto simp: waits_def)
  ultimately show ?thesis
    unfolding good_def using goodD(6,7,8,12) [OF g] by auto
qed

lemma job_holder_caller: "fst ` set (List.map_filter job_holder js) \<subseteq> set (List.map_filter job_caller js)"
proof (induction js)
  case (Cons j js)
  then show ?case by (cases j rule: job_holder.cases) (auto simp: List.map_filter_simps split: option.split)
qed (simp add: List.map_filter_simps)

lemma finish_callers:
  assumes g: "good s"
  shows "sb_callers (finish_bridge m s) k \<noteq> Some (Waiting c)"
proof
  assume w: "sb_callers (finish_bridge m s) k = Some (Waiting c)"
  then have "sb_callers (fail_pending s) k = Some (Waiting c)"
    and ne: "k \<notin> set (List.map_filter job_caller (sb_jobs s))"
    by (auto simp: finish_bridge_def waits_def simp del: fail_pending_fields(10) split: if_splits)
  then have "k \<in> fst ` set (holders (fail_pending s))"
    using goodD(3) [OF good_fail_pending [OF g]] by blast
  then have "k \<in> fst ` set (List.map_filter job_holder (sb_jobs s))" by (simp add: holders_def)
  with ne job_holder_caller show False by blast
qed

lemma good_finish:
  assumes g: "good s"
  shows "good (finish_bridge m s)"
proof -
  have g': "good (fail_pending s)" by (rule good_fail_pending [OF g])
  have h: "holders (finish_bridge m s) = []" by (simp add: holders_def List.map_filter_simps)
  have rep: "\<exists>i c. sb_asked s k = Some (i, c) \<and> jget ''id'' v = Some i"
    if "sb_callers (finish_bridge m s) k = Some (Replied v)" for k v
    using that goodD(11) [OF g, of k v] by (auto simp: finish_bridge_def split: if_splits)
  have fr: "\<forall>k \<ge> sb_fresh s. sb_callers (finish_bridge m s) k = None \<and> sb_asked s k = None"
    using goodD(4,5) [OF g] by (auto simp: finish_bridge_def waits_def)
  show ?thesis
    unfolding good_def h using finish_callers [OF g] rep fr goodD(6,7,8) [OF g] by auto
qed

lemma good_after_exit: "good s \<Longrightarrow> good (after_exit now message s)"
  by (auto simp: after_exit_def Let_def case_prod_unfold intro!: good_finish good_phase good_fail_pending)

lemma good_on_child_line: "good s \<Longrightarrow> good (on_child_line line s)"
  by (auto simp: on_child_line_def intro: good_deliver split: child_line.split)

lemma handshake_next:
  assumes "handshake ch list_tools next es t = Some (r, next', rest, t')"
  shows "next' = next + 1 \<or> next' = next + 2"
  using assms
  by (auto simp: handshake_def list_tools_of_child_def Let_def
      split: option.splits sum.splits if_splits prod.splits)

text \<open>The numbers given out only grow.\<close>

lemma fold_resolve_issued: "sb_issued (after_exit now m s) = sb_issued s" "sb_next (after_exit now m s) = sb_next s"
  by (simp_all add: after_exit_def Let_def case_prod_unfold)

lemma take_job_issued [simp]: "sb_issued (take_job j s) = sb_issued s"
  by (cases j rule: job_holder.cases)
    (auto simp: insert_pending_def drop_pending_def Let_def split: option.split)

lemma on_child_line_issued [simp]: "sb_issued (on_child_line line s) = sb_issued s"
  by (auto simp: on_child_line_def deliver_def wrote_def split: child_line.split option.split)

lemma ask_issued [simp]: "sb_issued (ask m p i g s) = sb_issued s + 1"
  by (auto simp: ask_def Let_def split: bridge_phase.split)

lemma answered_issued [simp]: "sb_issued (answered r s) = sb_issued s"
  by (simp add: answered_def)

lemma wrote_issued [simp]: "sb_issued (wrote v s) = sb_issued s"
  by (simp add: wrote_def)

lemma step_issued: "bridge_step lib ch list_tools s s' \<Longrightarrow> sb_issued s \<le> sb_issued s'"
  by (induction rule: bridge_step.induct) (auto simp: fold_resolve_issued Let_def split: option.split)

section \<open>Invariants of the running bridge\<close>

lemma good_handshake:
  assumes g: "good s" and h: "handshake ch list_tools (sb_next s) es t = Some (r, next, rest, t')"
    and room: "sb_issued s + unat (next - sb_next s) < 2 ^ 64"
  shows "good (s\<lparr>sb_next := next, sb_issued := sb_issued s + unat (next - sb_next s)\<rparr>)"
proof (rule good_issue [OF g])
  have "unat (sb_next s + (next - sb_next s)) = unat (sb_next s) + unat (next - sb_next s)"
    using room goodD(8) [OF g] by (subst unat_add_lem [THEN iffD1]) auto
  then show "unat next = sb_issued s + unat (next - sb_next s)" using goodD(8) [OF g] by simp
qed

lemma good_step:
  assumes step: "bridge_step lib ch list_tools s s'" and g: "good s" and room: "sb_issued s' < 2 ^ 64"
  shows "good s'"
  using step room
proof (cases rule: bridge_step.cases)
  case (call_notify hm chunks v)
  then show ?thesis by (auto intro!: good_send_silent good_answered g)
next
  case (call_ask hm chunks meth args original)
  have "unat (sb_next s + 1) = sb_issued s + 1"
    using room call_ask goodD(8) [OF g] by (subst unat_add_lem [THEN iffD1]) auto
  with call_ask show ?thesis by (auto intro: good_ask g)
next
  case (call_timeout k c)
  then show ?thesis by (auto intro!: good_send_silent good_responded g)
next
  case (call_resume k x r)
  then show ?thesis by (auto intro: good_responded g)
next
  case (ready es result report "next" rest t)
  have n: "good (s\<lparr>sb_next := next, sb_issued := sb_issued s + unat (next - sb_next s)\<rparr>)"
    using room ready by (intro good_handshake [OF g ready(3)]) simp
  have e: "s' = (s\<lparr>sb_next := next, sb_issued := sb_issued s + unat (next - sb_next s)\<rparr>)
      \<lparr>sb_phase := Pumping, sb_cache := result, sb_talk := t\<rparr>"
    unfolding ready(1) by simp
  show ?thesis unfolding e using good_phase [OF n, of Pumping] by simp
next
  case (handshake_crashed es d "next" rest t now)
  have n: "good (s\<lparr>sb_next := next, sb_issued := sb_issued s + unat (next - sb_next s)\<rparr>)"
    using room handshake_crashed by (intro good_handshake [OF g handshake_crashed(3)]) (simp add: fold_resolve_issued)
  have e: "s\<lparr>sb_next := next, sb_talk := t, sb_issued := sb_issued s + unat (next - sb_next s)\<rparr> =
      (s\<lparr>sb_next := next, sb_issued := sb_issued s + unat (next - sb_next s)\<rparr>)\<lparr>sb_talk := t\<rparr>"
    by simp
  show ?thesis unfolding handshake_crashed(1) e by (rule good_after_exit) (simp add: n)
next
  case (handshake_failed es d "next" rest t)
  have n: "good (s\<lparr>sb_next := next, sb_issued := sb_issued s + unat (next - sb_next s)\<rparr>)"
    using room handshake_failed by (intro good_handshake [OF g handshake_failed(3)]) simp
  have e: "s\<lparr>sb_next := next, sb_talk := t, sb_issued := sb_issued s + unat (next - sb_next s)\<rparr> =
      (s\<lparr>sb_next := next, sb_issued := sb_issued s + unat (next - sb_next s)\<rparr>)\<lparr>sb_talk := t\<rparr>"
    by simp
  show ?thesis unfolding handshake_failed(1) e by (rule good_finish) (simp add: n)
next
  case (pump_job j js)
  then show ?thesis by (auto simp: Let_def split: option.split intro: good_take_job g)
next
  case (pump_job_fails j js line)
  then show ?thesis by (auto intro: good_phase good_take_job g)
qed (auto intro: good_answered good_finish good_phase good_on_child_line good_after_exit g)

lemma good_reach: "bridge_reach lib ch list_tools s \<Longrightarrow> sb_issued s < 2 ^ 64 \<Longrightarrow> good s"
proof (induction rule: bridge_reach.induct)
  case reach_new
  show ?case by (rule good_new)
next
  case (reach_more s s')
  moreover from reach_more have "sb_issued s < 2 ^ 64" using step_issued by fastforce
  ultimately show ?case by (blast intro: good_step)
qed

lemma holder_cases:
  assumes "k \<in> fst ` set (holders s)"
  shows "(\<exists>line i c. Job_Line line i (Some c) (Some k) \<in> set (sb_jobs s))
    \<or> (\<exists>c p. (c, p) \<in> set (sb_pending s) \<and> pd_reply p = k)"
proof -
  from assms obtain h where h: "h \<in> set (holders s)" "fst h = k" by auto
  then consider (job) "h \<in> set (List.map_filter job_holder (sb_jobs s))"
    | (pend) "h \<in> pending_holder ` set (sb_pending s)"
    by (auto simp: holders_def)
  then show ?thesis
  proof cases
    case job
    then obtain j where "j \<in> set (sb_jobs s)" "job_holder j = Some h" by (auto simp: List.map_filter_def)
    with h(2) show ?thesis by (cases j rule: job_holder.cases) auto
  next
    case pend
    then obtain d p where "(d, p) \<in> set (sb_pending s)" "h = pending_holder (d, p)" by auto
    with h(2) show ?thesis by (fastforce simp: pending_holder_def)
  qed
qed

text \<open>C22: In every reachable state of the bridge (while fewer than 2^64 numbers were given out), the
  in-flight counter is the number of pending requests, a caller that waits has its request in the
  queue or among the pending ones, and a stopped bridge leaves no caller waiting.\<close>

theorem no_caller_is_forgotten:
  assumes "bridge_reach lib ch list_tools s" "sb_issued s < 2 ^ 64"
  shows "sb_inflight s = of_nat (length (sb_pending s))
    \<and> (\<forall>k c. sb_callers s k = Some (Waiting c) \<longrightarrow>
         (\<exists>line i c. Job_Line line i (Some c) (Some k) \<in> set (sb_jobs s))
         \<or> (\<exists>c p. (c, p) \<in> set (sb_pending s) \<and> pd_reply p = k))
    \<and> (\<forall>m. sb_phase s = Stopped_With m \<longrightarrow> (\<forall>k c. sb_callers s k \<noteq> Some (Waiting c)))"
proof -
  note g = good_reach [OF assms]
  have held: "k \<in> fst ` set (holders s)" if "sb_callers s k = Some (Waiting c)" for k c
    using goodD(3) [OF g that] by blast
  have "sb_callers s k \<noteq> Some (Waiting c)" if "sb_phase s = Stopped_With m" for m k c
    using goodD(12) [OF g that] held [of k c] by (auto simp: holders_def List.map_filter_simps)
  with held holder_cases [of _ s] goodD(10) [OF g] show ?thesis by blast
qed

section \<open>A reply answers its own request\<close>

definition reply_to :: "json \<Rightarrow> json \<Rightarrow> json option" where
  "reply_to v i = map_option (\<lambda>m. JObj (obj_insert ''id'' i m)) (as_object v)"

lemma deliver_replied:
  assumes "sb_callers (deliver w s) k = Some (Replied v)" "sb_callers s k = Some (Waiting c)" "good s"
  shows "\<exists>i. sb_asked s k = Some (i, c) \<and> Option.bind (jget ''id'' w) as_word = Some c \<and> reply_to w i = Some v"
proof -
  from assms(1,2) obtain d m p where d: "Option.bind (jget ''id'' w) as_word = Some d" "as_object w = Some m"
    "map_of (sb_pending s) d = Some p" "pd_reply p = k" "v = JObj (obj_insert ''id'' (pd_original p) m)"
    by (auto simp: deliver_def resolve_callers split: option.splits if_splits)
  have "pending_holder (d, p) \<in> set (holders s)" using map_of_SomeD [OF d(3)] by (auto simp: holders_def)
  from goodD(2) [OF assms(3) this] d(4) have "sb_asked s k = Some (pd_original p, d)" by (simp add: pending_holder_def)
  moreover from goodD(3) [OF assms(3,2)] obtain i where "sb_asked s k = Some (i, c)" by blast
  ultimately show ?thesis using d by (auto simp: reply_to_def)
qed

lemma fail_pending_replied: "sb_callers (fail_pending s) k = Some (Replied v) \<Longrightarrow> sb_callers s k = Some (Replied v)"
  by (auto split: if_splits)

lemma finish_replied: "sb_callers (finish_bridge m s) k = Some (Replied v) \<Longrightarrow> sb_callers s k = Some (Replied v)"
  by (auto simp: finish_bridge_def split: if_splits)

lemma after_exit_replied: "sb_callers (after_exit now m s) k = Some (Replied v) \<Longrightarrow> sb_callers s k = Some (Replied v)"
  by (auto simp: after_exit_def Let_def case_prod_unfold dest!: finish_replied split: if_splits)

lemma take_job_replied: "sb_callers (take_job j s) k = Some (Replied v) \<Longrightarrow> sb_callers s k = Some (Replied v)"
  by (cases j rule: job_holder.cases)
    (auto simp: insert_pending_def drop_pending_def resolve_callers Let_def split: option.splits if_splits)

lemma ask_replied: "sb_callers (ask m p i r s) k = Some (Replied v) \<Longrightarrow> sb_callers s k = Some (Replied v)"
  by (auto simp: ask_def Let_def split: bridge_phase.splits if_splits)

lemma step_replied:
  assumes step: "bridge_step lib ch list_tools s s'"
    and now: "sb_callers s' k = Some (Replied v)" and before: "sb_callers s k = Some (Waiting c)"
  obtains line w where "classify_line line = Line_Response w" "s' = deliver w s"
  using step
proof (cases rule: bridge_step.cases)
  case (child_says line)
  with now before that show ?thesis
    by (auto simp: on_child_line_def wrote_def split: child_line.splits)
qed (use now before in \<open>auto simp: answered_def wrote_def Let_def split: option.splits if_splits
  dest!: finish_replied after_exit_replied take_job_replied ask_replied\<close>)

text \<open>C23: The JSON a waiting caller is answered with is a line the child wrote in answer to the number
  this caller's request was given, with the caller's own id put back; nobody else's answer reaches it.\<close>

theorem a_reply_answers_its_own_request:
  assumes "bridge_reach lib ch list_tools s" "sb_issued s < 2 ^ 64" "bridge_step lib ch list_tools s s'"
    and "sb_callers s k = Some (Waiting c)" "sb_callers s' k = Some (Replied v)"
  shows "\<exists>i line w. sb_asked s k = Some (i, c) \<and> classify_line line = Line_Response w
    \<and> Option.bind (jget ''id'' w) as_word = Some c \<and> reply_to w i = Some v"
proof -
  note g = good_reach [OF assms(1,2)]
  from step_replied [OF assms(3,5,4)] obtain line w
    where w: "classify_line line = Line_Response w" "s' = deliver w s" by blast
  from deliver_replied [OF _ assms(4) g] assms(5) w(2) obtain i where "sb_asked s k = Some (i, c)"
    "Option.bind (jget ''id'' w) as_word = Some c" "reply_to w i = Some v" by blast
  with w(1) show ?thesis by blast
qed

section \<open>Restarts are bounded\<close>

lemma expired_prefix:
  "sorted deaths \<Longrightarrow> \<forall>at \<in> set deaths. at \<le> (now::nat) \<Longrightarrow>
     dropWhile (\<lambda>at. 60000 \<le> now - at) deaths = filter (\<lambda>at. now < at + 60000) deaths"
proof (induction deaths)
  case (Cons x xs)
  show ?case
  proof (cases "60000 \<le> now - x")
    case True
    then have "\<not> now < x + 60000" by linarith
    with True Cons show ?thesis by simp
  next
    case False
    then have x: "now < x + 60000" by linarith
    moreover have "\<forall>y \<in> set xs. now < y + 60000" using Cons.prems(1) x by fastforce
    ultimately show ?thesis using False by (simp add: filter_id_conv)
  qed
qed simp

text \<open>With the deaths in the order of the clock, the supervisor gives up exactly when five earlier
  exits fall in the 60 seconds before this one (the sixth exit of a minute is fatal), and it keeps
  exactly the exits of that minute, in order.\<close>

theorem the_sixth_exit_of_a_minute_is_fatal:
  assumes "sorted deaths" "\<forall>at \<in> set deaths. at \<le> now"
  shows "(fst (too_many now deaths) \<longleftrightarrow> 5 \<le> length (filter (\<lambda>at. now < at + 60000) deaths))
    \<and> snd (too_many now deaths) = filter (\<lambda>at. now < at + 60000) deaths @ [now]
    \<and> sorted (snd (too_many now deaths))"
proof -
  have k: "snd (too_many now deaths) = filter (\<lambda>at. now < at + 60000) deaths @ [now]"
    using assms by (simp add: too_many_def Let_def expired_prefix)
  have "fst (too_many now deaths) \<longleftrightarrow> 5 < length (snd (too_many now deaths))"
    by (simp add: too_many_def Let_def MAX_EXITS_PER_MINUTE_def)
  then have "fst (too_many now deaths) \<longleftrightarrow> 5 \<le> length (filter (\<lambda>at. now < at + 60000) deaths)"
    by (simp only: k) auto
  moreover have "sorted (filter (\<lambda>at. now < at + 60000) deaths @ [now])"
    using assms by (simp add: sorted_append sorted_wrt_filter)
  ultimately show ?thesis by (simp add: k)
qed

theorem the_sixth_exit_of_a_minute_is_fatal_witness:
  "fst (too_many 50000 [0, 1, 2, 3, 4]) \<and> \<not> fst (too_many 60001 [0, 1, 2, 3, 4])"
  using the_sixth_exit_of_a_minute_is_fatal [of "[0, 1, 2, 3, 4]" 50000]
    the_sixth_exit_of_a_minute_is_fatal [of "[0, 1, 2, 3, 4]" 60001] by simp

lemma resolve_deaths_fold: "sb_deaths (fold drop_job js s) = sb_deaths s"
  by (induction js arbitrary: s) (auto simp: drop_job_resolve split: option.split)

lemma finish_deaths [simp]: "sb_deaths (finish_bridge m s) = sb_deaths s"
  by (simp add: finish_bridge_def resolve_deaths_fold)

lemma after_exit_deaths:
  "(\<forall>m. sb_phase (after_exit now msg s) \<noteq> Stopped_With m) \<Longrightarrow> length (sb_deaths (after_exit now msg s)) \<le> 5"
  by (auto simp: after_exit_def Let_def too_many_def MAX_EXITS_PER_MINUTE_def)

lemma take_job_rest: "sb_deaths (take_job j s) = sb_deaths s" "sb_phase (take_job j s) = sb_phase s"
  by (cases j rule: job_holder.cases,
      auto simp: insert_pending_def drop_pending_def Let_def split: option.split)+

lemma on_child_line_rest: "sb_deaths (on_child_line line s) = sb_deaths s" "sb_phase (on_child_line line s) = sb_phase s"
  by (auto simp: on_child_line_def deliver_def wrote_def split: child_line.split option.split)

lemma ask_rest: "sb_deaths (ask m p i g s) = sb_deaths s" "sb_phase (ask m p i g s) = sb_phase s"
  by (auto simp: ask_def send_job_def Let_def split: bridge_phase.split)

lemma send_job_deaths: "sb_deaths (send_job j s) = sb_deaths s"
  by (auto simp: send_job_def split: bridge_phase.split)

text \<open>A bridge that has not stopped remembers at most five exits, so the pause before a restart is
  always between 200 and 3200 milliseconds.\<close>

theorem restarts_are_bounded:
  assumes "bridge_reach lib ch list_tools s" "\<forall>m. sb_phase s \<noteq> Stopped_With m"
  shows "length (sb_deaths s) \<le> 5 \<and> 200 \<le> restart_backoff (length (sb_deaths s))
    \<and> restart_backoff (length (sb_deaths s)) \<le> 3200"
proof -
  have "length (sb_deaths s) \<le> 5"
    using assms
  proof (induction rule: bridge_reach.induct)
    case (reach_more s s')
    from reach_more(2,3,1,4) show ?case
      by (induction rule: bridge_step.induct)
        (auto simp: after_exit_deaths take_job_rest on_child_line_rest ask_rest send_job_deaths answered_def wrote_def Let_def
          split: option.split)
  qed (simp add: bridge_new_def)
  moreover have "(2::nat) ^ min (length (sb_deaths s) - 1) 4 \<le> 16"
    using power_increasing [of "min (length (sb_deaths s) - 1) 4" 4 "2::nat"] by simp
  moreover have "(1::nat) \<le> 2 ^ min (length (sb_deaths s) - 1) 4" by simp
  ultimately show ?thesis unfolding restart_backoff_def by (intro conjI) linarith+
qed

section \<open>Cancellations\<close>

text \<open>
  A notification goes to the child as it came, while requests are renumbered: the id a cancellation
  names is the caller's, and the child reads it as one of the numbers the bridge gave out.
\<close>

definition cancelled :: "json \<Rightarrow> json" where
  "cancelled i = JObj [(''jsonrpc'', JStr ''2.0''), (''method'', JStr ''notifications/cancelled''),
     (''params'', JObj [(''requestId'', i)])]"

lemma steps_trans: "bridge_step lib ch lt s s1 \<Longrightarrow> bridge_step lib ch lt s1 s2 \<Longrightarrow>
    bridge_step lib ch lt s2 s3 \<Longrightarrow> bridge_step lib ch lt s3 s4 \<Longrightarrow> (bridge_step lib ch lt)\<^sup>*\<^sup>* s s4"
  by (meson rtranclp.rtrancl_into_rtrancl rtranclp.rtrancl_refl)

text \<open>A client whose own request id happens to be the number the bridge gave to another client's
  request cancels that other request: the child reads a cancellation of the number the other
  caller is still waiting for.\<close>

theorem a_cancellation_hits_another_client:
  assumes "sb_phase s = Pumping" "sb_jobs s = []" "sb_pending s = []"
    and "verdict_of lib (sb_cache s) ''POST'' victim = Ask method params i"
    and "verdict_of lib (sb_cache s) ''POST'' other = Notify (cancelled (jword (sb_next s)))"
  shows "\<exists>s'. (bridge_step lib ch list_tools)\<^sup>*\<^sup>* s s'
    \<and> sb_callers s' (sb_fresh s) = Some (Waiting (sb_next s))
    \<and> ta_written (sb_talk s') = ta_written (sb_talk s)
        @ [request_line (sb_next s) method params, cancelled (jword (sb_next s))]"
proof -
  let ?r = "rpc_response (bl_show lib) 502 (- 32001) ''upstream unreachable'' JNull"
  let ?j = "Job_Line (request_line (sb_next s) method params) i (Some (sb_next s)) (Some (sb_fresh s))"
  let ?n = "Job_Line (cancelled (jword (sb_next s))) JNull None None"
  let ?s1 = "ask method params i ?r s"
  let ?s2 = "wrote (request_line (sb_next s) method params) (take_job ?j (?s1\<lparr>sb_jobs := []\<rparr>))"
  let ?s3 = "send_job ?n (answered (empty_response 202) ?s2)"
  let ?s4 = "wrote (cancelled (jword (sb_next s))) (take_job ?n (?s3\<lparr>sb_jobs := []\<rparr>))"
  have s1: "?s1 = s\<lparr>sb_next := sb_next s + 1, sb_issued := sb_issued s + 1, sb_fresh := sb_fresh s + 1,
      sb_asked := (sb_asked s)(sb_fresh s \<mapsto> (i, sb_next s)), sb_jobs := [?j],
      sb_callers := (sb_callers s)(sb_fresh s \<mapsto> Waiting (sb_next s))\<rparr>"
    using assms(1,2) by (simp add: ask_def send_job_def Let_def)
  have s2: "sb_phase ?s2 = Pumping" "sb_jobs ?s2 = []" "sb_cache ?s2 = sb_cache s" "sb_fresh ?s2 = sb_fresh s + 1"
    "sb_callers ?s2 = (sb_callers s)(sb_fresh s \<mapsto> Waiting (sb_next s))"
    "ta_written (sb_talk ?s2) = ta_written (sb_talk s) @ [request_line (sb_next s) method params]"
    using assms(1,3) by (simp_all add: s1 wrote_def insert_pending_def)
  have s3: "sb_phase ?s3 = Pumping" "sb_jobs ?s3 = [?n]" "sb_callers ?s3 (sb_fresh s) = Some (Waiting (sb_next s))"
    "sb_talk ?s3 = sb_talk ?s2"
    unfolding send_job_def answered_def using s2 by simp_all
  have st1: "bridge_step lib ch list_tools s ?s1" using assms(4) by (rule call_ask)
  have st2: "bridge_step lib ch list_tools ?s1 ?s2"
    using pump_job [of ?s1 ?j "[]" lib ch list_tools] assms(1) by (simp add: s1)
  have st3: "bridge_step lib ch list_tools ?s2 ?s3" using assms(5) s2(3) by (intro call_notify) simp
  have st4: "bridge_step lib ch list_tools ?s3 ?s4" using pump_job [OF s3(1,2)] by (simp add: Let_def)
  have "sb_callers ?s4 (sb_fresh s) = Some (Waiting (sb_next s))" using s3(3) by (simp add: wrote_def)
  moreover have "ta_written (sb_talk ?s4) = ta_written (sb_talk s)
      @ [request_line (sb_next s) method params, cancelled (jword (sb_next s))]"
    using s3(4) s2(6) by (simp add: wrote_def)
  ultimately show ?thesis using steps_trans [OF st1 st2 st3 st4] by blast
qed

section \<open>A run on concrete values\<close>

definition demo_call :: json where
  "demo_call = JObj [(''jsonrpc'', JStr ''2.0''), (''id'', JNum (PosInt 7)), (''method'', JStr ''tools/list'')]"

definition demo_lib :: bridge_lib where
  "demo_lib = \<lparr>bl_parse = \<lambda>b. Some (if b = ''c'' then cancelled (jword (2 :: 64 word)) else demo_call),
     bl_show = \<lambda>_. ''j''\<rparr>"

definition demo_child :: child_env where
  "demo_child = \<lparr>ch_show = \<lambda>_. ''j'', ch_write = \<lambda>_. None, ch_wait_ms = 60000, ch_version = ''0''\<rparr>"

definition demo_hello :: json where
  "demo_hello = JObj [(''id'', JNum (PosInt 1)), (''result'', JObj [])]"

definition demo_ready :: bridge where
  "demo_ready = bridge_new\<lparr>sb_phase := Pumping, sb_cache := JObj [], sb_next := 2, sb_issued := 2,
     sb_talk := \<lparr>ta_written = [request_line 1 ''initialize'' (initialize_params ''0''), initialized_note],
       ta_announced = []\<rparr>\<rparr>"

lemma demo_handshake:
  "handshake demo_child False 1 [Out (Some demo_hello)] \<lparr>ta_written = [], ta_announced = []\<rparr> =
     Some (Inr (JObj [], \<lparr>pr_name = str_at ''serverInfo'' ''name'' (JObj []),
       pr_version = str_at ''serverInfo'' ''version'' (JObj []), pr_tools = 0, pr_tools_skipped = True\<rparr>), 2, [],
       \<lparr>ta_written = [request_line 1 ''initialize'' (initialize_params ''0''), initialized_note], ta_announced = []\<rparr>)"
  by (simp add: handshake_def exchange_def list_tools_of_child_def Let_def write_line_def classify_line_def
      demo_child_def demo_hello_def)

lemma demo_ready_reach: "bridge_reach demo_lib demo_child False demo_ready"
proof -
  have "bridge_step demo_lib demo_child False bridge_new demo_ready"
    using ready [of bridge_new demo_child False "[Out (Some demo_hello)]" "JObj []"] demo_handshake
    by (auto simp: bridge_new_def demo_ready_def numeral_2_eq_2)
  then show ?thesis by (blast intro: reach_new reach_more)
qed

lemma demo_asks: "verdict_of demo_lib cached ''POST'' [Some ''a''] = Ask ''tools/list'' (JObj []) (JNum (PosInt 7))"
  by (simp add: verdict_of_def Let_def demo_lib_def demo_call_def DEFAULT_MAX_BODY_BYTES_def)

lemma demo_cancels: "verdict_of demo_lib cached ''POST'' [Some ''c''] = Notify (cancelled (jword (2 :: 64 word)))"
  by (simp add: verdict_of_def Let_def demo_lib_def cancelled_def DEFAULT_MAX_BODY_BYTES_def)

definition demo_asked :: bridge where
  "demo_asked = ask ''tools/list'' (JObj []) (JNum (PosInt 7))
     (rpc_response (bl_show demo_lib) 502 (- 32001) ''upstream unreachable'' JNull) demo_ready"

definition demo_pending :: bridge where
  "demo_pending = (let j = Job_Line (request_line 2 ''tools/list'' (JObj [])) (JNum (PosInt 7)) (Some 2) (Some 0)
     in wrote (request_line 2 ''tools/list'' (JObj [])) (take_job j (demo_asked\<lparr>sb_jobs := []\<rparr>)))"

lemmas demo_defs = demo_pending_def demo_asked_def demo_ready_def bridge_new_def ask_def send_job_def Let_def
  wrote_def insert_pending_def

lemma demo_asked_reach: "bridge_reach demo_lib demo_child False demo_asked"
  unfolding demo_asked_def using demo_ready_reach demo_asks by (blast intro: reach_more call_ask)

lemma demo_pending_reach: "bridge_reach demo_lib demo_child False demo_pending"
proof -
  have "bridge_step demo_lib demo_child False demo_asked demo_pending"
    using pump_job [of demo_asked "Job_Line (request_line 2 ''tools/list'' (JObj [])) (JNum (PosInt 7)) (Some 2) (Some 0)"
        "[]" demo_lib demo_child False]
    by (simp add: demo_defs)
  with demo_asked_reach show ?thesis by (rule reach_more)
qed

definition demo_reply :: json where
  "demo_reply = JObj [(''id'', JNum (PosInt 2)), (''result'', JNull)]"

lemma demo_reply_step: "bridge_step demo_lib demo_child False demo_pending (on_child_line (Some demo_reply) demo_pending)"
  by (rule child_says) (simp add: demo_defs)

lemma demo_callers:
  "sb_callers demo_pending 0 = Some (Waiting 2)" "sb_issued demo_pending = 3" "sb_inflight demo_pending = 1"
  "sb_callers (on_child_line (Some demo_reply) demo_pending) 0 =
     Some (Replied (JObj [(''id'', JNum (PosInt 7)), (''result'', JNull)]))"
  by (simp_all add: demo_defs on_child_line_def classify_line_def demo_reply_def deliver_def resolve_def obj_insert_def)

theorem no_caller_is_forgotten_witness:
  "sb_callers demo_pending 0 = Some (Waiting 2) \<and> sb_inflight demo_pending = of_nat (length (sb_pending demo_pending))"
  using no_caller_is_forgotten [OF demo_pending_reach] demo_callers(1,2) by simp

theorem a_reply_answers_its_own_request_witness:
  "\<exists>i line w. sb_asked demo_pending 0 = Some (i, 2) \<and> classify_line line = Line_Response w
     \<and> Option.bind (jget ''id'' w) as_word = Some (2 :: 64 word)
     \<and> reply_to w i = Some (JObj [(''id'', JNum (PosInt 7)), (''result'', JNull)])"
  using a_reply_answers_its_own_request [OF demo_pending_reach _ demo_reply_step demo_callers(1,4)] demo_callers(2)
  by simp

theorem restarts_are_bounded_witness: "sb_phase demo_ready = Pumping \<and> length (sb_deaths demo_ready) \<le> 5"
  using restarts_are_bounded [OF demo_ready_reach] by (simp add: demo_ready_def)

theorem a_cancellation_hits_another_client_witness:
  "\<exists>s'. (bridge_step demo_lib demo_child False)\<^sup>*\<^sup>* demo_ready s' \<and> sb_callers s' 0 = Some (Waiting 2)"
  using a_cancellation_hits_another_client [of demo_ready demo_lib "[Some ''a'']" "''tools/list''" "JObj []"
      "JNum (PosInt 7)" "[Some ''c'']" demo_child False]
    demo_asks demo_cancels
  by (auto simp: demo_ready_def bridge_new_def)

end
