(* ===== verification/Tunnel_Steps.thy ===== *)
theory Tunnel_Steps
  imports Tunnel_Session
begin

text \<open>
  The interleavings of a session: the socket loop of \<open>session::run\<close> (\<open>select!\<close> is \<open>biased\<close>, so a
  message is read only when nothing waits to be written) and the spawned request tasks, one step
  at a time, with the invariants of the reachable states.
\<close>

definition CLOSE_NORMAL :: nat where [enum_defs]: "CLOSE_NORMAL = 1000"

inductive sess_step :: "env \<Rightarrow> session \<Rightarrow> session \<Rightarrow> bool" for e where
  top_stop: "ss_phase s = LoopTop \<Longrightarrow> drained s = Some stop \<Longrightarrow>
    sess_step e s (s\<lparr>ss_phase := Stopped stop\<rparr>)"
| top_select: "ss_phase s = LoopTop \<Longrightarrow> drained s = None \<Longrightarrow>
    sess_step e s (s\<lparr>ss_phase := Selecting\<rparr>)"
| shutdown: "ss_phase s = Selecting \<Longrightarrow>
    sess_step e s (s\<lparr>ss_wire := ss_wire s @ [OClose CLOSE_NORMAL],
                    ss_phase := Stopped (stop_shutdown (ss_reclaim s))\<rparr>)"
| flush: "ss_phase s = Selecting \<Longrightarrow> ss_outq s = m # ms \<Longrightarrow>
    sess_step e s (s\<lparr>ss_outq := ms, ss_wire := ss_wire s @ [m], ss_phase := LoopTop\<rparr>)"
| flush_fails: "ss_phase s = Selecting \<Longrightarrow> ss_outq s = m # ms \<Longrightarrow>
    sess_step e s (s\<lparr>ss_outq := ms, ss_phase := Stopped (stop_reconnect (ss_reclaim s) None)\<rparr>)"
| receive: "ss_phase s = Selecting \<Longrightarrow> ss_outq s = [] \<Longrightarrow>
    sess_step e s ((on_frame e f s)\<lparr>ss_phase := LoopTop\<rparr>)"
| receive_other: "ss_phase s = Selecting \<Longrightarrow> ss_outq s = [] \<Longrightarrow>
    sess_step e s (s\<lparr>ss_phase := LoopTop\<rparr>)"
| receive_ping: "ss_phase s = Selecting \<Longrightarrow> ss_outq s = [] \<Longrightarrow>
    sess_step e s ((try_send (OPong p) s)\<lparr>ss_phase := LoopTop\<rparr>)"
| receive_close: "ss_phase s = Selecting \<Longrightarrow> ss_outq s = [] \<Longrightarrow>
    sess_step e s (s\<lparr>ss_phase := Stopped (on_close s)\<rparr>)"
| task_done: "ss_phase s = Selecting \<Longrightarrow> ss_outq s = [] \<Longrightarrow> ss_doneq s = i # is \<Longrightarrow>
    sess_step e s (s\<lparr>ss_cancels := (ss_cancels s)(i := None), ss_bodies := (ss_bodies s)(i := None),
                    ss_doneq := is, ss_phase := LoopTop\<rparr>)"
| task_cancelled: "ss_tasks s t = Some k \<Longrightarrow> tk_state k = Calling \<Longrightarrow> t \<in> ss_cancelled s \<Longrightarrow>
    sess_step e s (finish_task e t k 0 s)"
| task_respond: "ss_tasks s t = Some k \<Longrightarrow> tk_state k = Calling \<Longrightarrow>
    fs = (if t \<in> ss_cancelled s then []
          else fst (write_response (e_encode e) (q_id (tk_parts k)) r b)) \<Longrightarrow>
    sess_step e s (s\<lparr>ss_tasks := (ss_tasks s)(t \<mapsto> k\<lparr>tk_state := Writing fs (rp_status r)\<rparr>)\<rparr>)"
| task_push: "ss_tasks s t = Some k \<Longrightarrow> tk_state k = Writing (f # fs) st \<Longrightarrow>
    length (ss_outq s) < OUT_CAP \<Longrightarrow> (\<nexists>stop. ss_phase s = Stopped stop) \<Longrightarrow>
    sess_step e s (s\<lparr>ss_outq := ss_outq s @ [OText f],
                    ss_tasks := (ss_tasks s)(t \<mapsto> k\<lparr>tk_state := Writing fs st\<rparr>)\<rparr>)"
| task_push_fails: "ss_tasks s t = Some k \<Longrightarrow> tk_state k = Writing (f # fs) st \<Longrightarrow>
    ss_phase s = Stopped stop \<Longrightarrow>
    sess_step e s (s\<lparr>ss_tasks := (ss_tasks s)(t \<mapsto> k\<lparr>tk_state := Writing [] st\<rparr>)\<rparr>)"
| task_finish: "ss_tasks s t = Some k \<Longrightarrow> tk_state k = Writing [] st \<Longrightarrow>
    sess_step e s (finish_task e t k st s)"

inductive_cases sess_stepE: "sess_step e s s'"

inductive reach :: "env \<Rightarrow> session \<Rightarrow> session \<Rightarrow> bool" for e s where
  reach_refl: "reach e s s"
| reach_step: "reach e s s' \<Longrightarrow> sess_step e s' s'' \<Longrightarrow> reach e s s''"

text \<open>An invariant every step keeps holds in every reachable state.\<close>

lemma reach_invariant:
  assumes "reach e s s'" "P s" "\<And>s s'. P s \<Longrightarrow> sess_step e s s' \<Longrightarrow> P s'"
  shows "P s'"
  using assms by (induction rule: reach.induct) blast+

section \<open>Frame facts\<close>

lemma try_send_fields [simp]:
  "ss_stats (try_send m s) = ss_stats s" "ss_tasks (try_send m s) = ss_tasks s"
  "ss_next (try_send m s) = ss_next s" "ss_go_away (try_send m s) = ss_go_away s"
  "ss_log (try_send m s) = ss_log s" "ss_terminal (try_send m s) = ss_terminal s"
  "ss_reclaim (try_send m s) = ss_reclaim s" "ss_cancels (try_send m s) = ss_cancels s"
  "ss_bodies (try_send m s) = ss_bodies s" "ss_phase (try_send m s) = ss_phase s"
  "ss_wire (try_send m s) = ss_wire s"
  by (simp_all add: try_send_def)

lemma log_finished_fields [simp]:
  "ss_stats (log_finished f s) = ss_stats s" "ss_tasks (log_finished f s) = ss_tasks s"
  "ss_next (log_finished f s) = ss_next s" "ss_go_away (log_finished f s) = ss_go_away s"
  "ss_log (log_finished f s) = ss_log s @ [f]" "ss_terminal (log_finished f s) = ss_terminal s"
  "ss_reclaim (log_finished f s) = ss_reclaim s" "ss_cancels (log_finished f s) = ss_cancels s"
  "ss_bodies (log_finished f s) = ss_bodies s" "ss_phase (log_finished f s) = ss_phase s"
  "ss_outq (log_finished f s) = ss_outq s"
  by (simp_all add: log_finished_def)

lemma request_body_fields [simp]:
  "ss_stats (request_body_frame e i c l s) = ss_stats s"
  "ss_tasks (request_body_frame e i c l s) = ss_tasks s"
  "ss_next (request_body_frame e i c l s) = ss_next s"
  "ss_go_away (request_body_frame e i c l s) = ss_go_away s"
  "ss_terminal (request_body_frame e i c l s) = ss_terminal s"
  "ss_reclaim (request_body_frame e i c l s) = ss_reclaim s"
  by (simp_all add: request_body_frame_def Let_def split: option.split)

lemma cancel_fields [simp]:
  "ss_stats (cancel_frame i s) = ss_stats s" "ss_tasks (cancel_frame i s) = ss_tasks s"
  "ss_next (cancel_frame i s) = ss_next s" "ss_go_away (cancel_frame i s) = ss_go_away s"
  "ss_terminal (cancel_frame i s) = ss_terminal s" "ss_reclaim (cancel_frame i s) = ss_reclaim s"
  by (simp_all add: cancel_frame_def Let_def split: option.split)

lemma finish_task_fields [simp]:
  "ss_tasks (finish_task e t k st s) = (ss_tasks s)(t := None)"
  "ss_stats (finish_task e t k st s) = end_request (ss_stats s)"
  "ss_next (finish_task e t k st s) = ss_next s"
  "ss_go_away (finish_task e t k st s) = ss_go_away s"
  "ss_terminal (finish_task e t k st s) = ss_terminal s"
  "ss_reclaim (finish_task e t k st s) = ss_reclaim s"
  "ss_phase (finish_task e t k st s) = ss_phase s"
  "ss_outq (finish_task e t k st s) = ss_outq s"
  by (simp_all add: finish_task_def)

section \<open>Counting\<close>

text \<open>
  The in-flight counter is the number of running tasks and never passes the limit; the total is
  the number of admitted requests that are over.
\<close>

definition counts :: "32 word \<Rightarrow> (nat \<rightharpoonup> task) \<Rightarrow> stats \<Rightarrow> nat \<Rightarrow> bool" where
  "counts limit T st n \<longleftrightarrow>
     finite (dom T) \<and> (\<forall>t\<in>dom T. t < n)
     \<and> unat (st_inflight st) = card (dom T) \<and> st_inflight st \<le> limit
     \<and> st_total st + of_nat (card (dom T)) = of_nat n"

definition counted :: "env \<Rightarrow> session \<Rightarrow> bool" where
  "counted e s \<longleftrightarrow> counts (e_max_inflight e) (ss_tasks s) (ss_stats s) (ss_next s)"

lemma total_simps [simp]:
  "st_total (end_request st) = st_total st + 1"
  "st_total (snd (begin_request l st)) = st_total st"
  by (simp_all add: end_request_def begin_request_def Let_def)

lemma counts_end:
  assumes "counts l T st n" "T t = Some k"
  shows "counts l (T(t := None)) (end_request st) n"
proof -
  from assms have T: "t \<in> dom T" "finite (dom T)" "unat (st_inflight st) = card (dom T)"
    "st_inflight st \<le> l" "st_total st + of_nat (card (dom T)) = of_nat n" "\<forall>t\<in>dom T. t < n"
    by (auto simp: counts_def)
  then have pos: "0 < unat (st_inflight st)" by (auto simp: card_gt_0_iff)
  have c: "card (dom T) = Suc (card (dom T - {t}))" using T(1,2) by (metis card.remove)
  with T(3) gate.leave_count [OF pos]
  have "unat (st_inflight (end_request st)) = card (dom T - {t})" by simp
  moreover have "st_total st + 1 + of_nat (card (dom T - {t})) = (of_nat n :: 64 word)"
    using T(5) c by (simp add: algebra_simps)
  ultimately show ?thesis
    using T gate.leave_bound [OF pos T(4)] by (simp add: counts_def)
qed

lemma counts_replace: "counts l T st n \<Longrightarrow> T t = Some k \<Longrightarrow> counts l (T(t \<mapsto> k')) st n"
  by (simp add: counts_def insert_absorb domI)

text \<open>Admission: a refusal changes nothing; an admitted request becomes the task \<open>n\<close>, or ends at once.\<close>

lemma counts_refused:
  "counts l T st n \<Longrightarrow> \<not> fst (begin_request l st) \<Longrightarrow> counts l T (snd (begin_request l st)) n"
  using gate.enter_iff [of l st] gate.enter_full [of l st] by simp

lemma counts_admitted:
  assumes "counts l T st n" "fst (begin_request l st)"
  shows "counts l (T(n \<mapsto> k)) (snd (begin_request l st)) (Suc n)"
    "counts l T (end_request (snd (begin_request l st))) (Suc n)"
proof -
  let ?st = "snd (begin_request l st)"
  have lt: "st_inflight st < l" using assms(2) gate.enter_iff by simp
  have c: "unat (st_inflight ?st) = Suc (unat (st_inflight st))" by (rule gate.enter_count [OF lt])
  have b: "st_inflight ?st \<le> l" using gate.enter_bound [of st l] lt by simp
  have fresh: "n \<notin> dom T" using assms(1) by (auto simp: counts_def)
  then show admitted: "counts l (T(n \<mapsto> k)) ?st (Suc n)"
    using assms(1) c b by (auto simp: counts_def algebra_simps less_Suc_eq)
  from fresh have "(T(n \<mapsto> k))(n := None) = T" by auto
  with counts_end [OF admitted, of n] show "counts l T (end_request ?st) (Suc n)" by simp
qed

lemma counted_accept:
  assumes "counted e s" shows "counted e (accept_request e q s)"
proof (cases "begin_request (e_max_inflight e) (ss_stats s)")
  case (Pair ok st)
  note ad = counts_admitted [of "e_max_inflight e" "ss_tasks s" "ss_stats s" "ss_next s"]
  show ?thesis
  proof (cases ok)
    case False
    with Pair counts_refused [of "e_max_inflight e" "ss_tasks s" "ss_stats s" "ss_next s"] assms
    show ?thesis by (simp add: accept_request_def counted_def)
  next
    case True
    with Pair ad assms show ?thesis
      by (cases "build_request e q") (simp_all add: accept_request_def counted_def Let_def)
  qed
qed

lemma counted_on_frame: "counted e s \<Longrightarrow> counted e (on_frame e f s)"
proof (cases f)
  case (RequestStart i m p q hs bc b ip rid)
  then show "counted e s \<Longrightarrow> ?thesis" by (auto intro: counted_accept)
qed (simp_all add: counted_def)

lemma counted_phase [simp]: "counted e (s\<lparr>ss_phase := p\<rparr>) = counted e s"
  by (simp add: counted_def)

lemma counted_step:
  assumes "counted e s" "sess_step e s s'" shows "counted e s'"
  using assms(2,1)
proof cases
  case (task_respond t k fs r b)
  then show ?thesis using assms(1) counts_replace by (simp add: counted_def)
next
  case (task_push t k f fs st)
  then show ?thesis using assms(1) counts_replace by (simp add: counted_def)
next
  case (task_push_fails t k f fs st stop)
  then show ?thesis using assms(1) counts_replace by (simp add: counted_def)
next
  case (task_cancelled t k)
  then show ?thesis using assms(1) counts_end by (simp add: counted_def)
next
  case (task_finish t k st)
  then show ?thesis using assms(1) counts_end by (simp add: counted_def)
next
  case (receive f)
  then show ?thesis using assms(1) counted_on_frame by simp
qed (use assms(1) in \<open>simp_all add: counted_def\<close>)

lemma counted_start: "st_inflight st = 0 \<Longrightarrow> st_total st = 0 \<Longrightarrow> counted e (session_start r st)"
  by (simp add: counted_def counts_def session_start_def)

lemma reach_counted:
  "reach e (session_start r st) s \<Longrightarrow> st_inflight st = 0 \<Longrightarrow> st_total st = 0 \<Longrightarrow> counted e s"
  using reach_invariant [of e "session_start r st" s "counted e"] counted_start counted_step by blast

section \<open>Draining\<close>

lemma draining_step:
  assumes "ss_go_away s \<noteq> None" "sess_step e s s'"
  shows "ss_go_away s' \<noteq> None \<and> ss_next s' = ss_next s \<and> dom (ss_tasks s') \<subseteq> dom (ss_tasks s)"
  using assms(2)
proof cases
  case (receive f)
  then show ?thesis using assms(1) by (cases f) simp_all
qed (use assms(1) in auto)

lemma reach_draining:
  "reach e s s' \<Longrightarrow> ss_go_away s \<noteq> None \<Longrightarrow>
     ss_go_away s' \<noteq> None \<and> ss_next s' = ss_next s \<and> dom (ss_tasks s') \<subseteq> dom (ss_tasks s)"
proof (induction rule: reach.induct)
  case (reach_step s' s'')
  then show ?case using draining_step [of s' e s''] subset_trans by simp blast
qed simp

lemma counted_drained:
  "counted e s \<Longrightarrow> drained s = Some stop \<Longrightarrow> ss_tasks s = Map.empty"
  by (auto simp: counted_def counts_def drained_def split: option.splits if_splits)

text \<open>What a stop tells the supervisor.\<close>

lemma drained_stop:
  "drained s = Some stop \<Longrightarrow>
     \<not> so_shutdown stop \<and> (so_terminal stop \<noteq> None \<longrightarrow> so_reclaim stop = None)
     \<and> (so_terminal stop = None \<longrightarrow> so_after stop = ss_go_away s \<and> so_reclaim stop = ss_reclaim s)"
  by (auto simp: drained_def stop_terminal_def stop_reconnect_def split: option.splits if_splits)

section \<open>A run of the drain\<close>

definition sse_response :: response where
  "sse_response = \<lparr>rp_status = 200, rp_headers = [(''content-type'', Some ''text/event-stream'')]\<rparr>"

definition call_frame :: frame where
  "call_frame = RequestStart 1 ''POST'' ''/mcp'' None [] True None ''203.0.113.4'' ''r''"

lemma sse_frames:
  "fst (write_response (e_encode plain_env) (q_id call_parts) sse_response [])
     = [response_start 1 sse_response False None, ResponseBody 1 [] True]"
  by (simp add: write_response_def is_sse_def header_get_def sse_response_def plain_env_def
      call_parts_def eq_ci_def CONTENT_TYPE_EVENT_STREAM_def)

lemma accept_call:
  "accept_request plain_env call_parts (session_start r \<lparr>st_inflight = 0, st_total = 0\<rparr>)
     = (session_start r \<lparr>st_inflight = 1, st_total = 0\<rparr>)
         \<lparr>ss_next := 1, ss_cancels := [1 \<mapsto> 0], ss_fed := (\<lambda>_. [])(0 := [[]]),
          ss_tasks := [0 \<mapsto> \<lparr>tk_parts = call_parts, tk_state = Calling\<rparr>]\<rparr>"
  by (simp add: accept_request_def begin_request_def plain_env_def call_parts_def session_start_def
      build_request_def initial_body_def Let_def)

text \<open>The states of the run: the call is read, the drain starts, the response is queued, the task ends.\<close>

definition run_base :: "reclaim option \<Rightarrow> session" where
  "run_base r = session_start r \<lparr>st_inflight = 0, st_total = 0\<rparr>"

definition run_called :: "reclaim option \<Rightarrow> session" where
  "run_called r = (on_frame plain_env call_frame (run_base r))\<lparr>ss_phase := LoopTop\<rparr>"

definition run_drain :: "reclaim option \<Rightarrow> session" where
  "run_drain r = (run_called r)\<lparr>ss_go_away := Some 0, ss_phase := Selecting\<rparr>"

definition run_queued :: "reclaim option \<Rightarrow> session" where
  "run_queued r = (run_drain r)\<lparr>
     ss_outq := [OText (response_start 1 sse_response False None), OText (ResponseBody 1 [] True)],
     ss_tasks := [0 \<mapsto> \<lparr>tk_parts = call_parts, tk_state = Writing [] 200\<rparr>]\<rparr>"

lemma call_as_parts: "on_frame plain_env call_frame s = (if ss_go_away s \<noteq> None then s else accept_request plain_env call_parts s)"
  by (simp add: call_frame_def call_parts_def)

lemma run_called_eq:
  "run_called r = (session_start r \<lparr>st_inflight = 1, st_total = 0\<rparr>)
     \<lparr>ss_next := 1, ss_cancels := [1 \<mapsto> 0], ss_fed := (\<lambda>_. [])(0 := [[]]),
      ss_tasks := [0 \<mapsto> \<lparr>tk_parts = call_parts, tk_state = Calling\<rparr>], ss_phase := LoopTop\<rparr>"
  by (simp add: run_called_def call_as_parts accept_call run_base_def) (simp add: session_start_def)

lemma reach_called: "reach plain_env (run_base r) (run_called r)"
proof -
  let ?s1 = "(run_base r)\<lparr>ss_phase := Selecting\<rparr>"
  have r1: "reach plain_env (run_base r) ?s1"
    by (rule reach_step [OF reach_refl], rule top_select)
      (simp_all add: run_base_def session_start_def drained_def)
  have st1: "sess_step plain_env ?s1 ((on_frame plain_env call_frame ?s1)\<lparr>ss_phase := LoopTop\<rparr>)"
    by (rule receive) (simp_all add: run_base_def session_start_def)
  have eq: "(on_frame plain_env call_frame ?s1)\<lparr>ss_phase := LoopTop\<rparr> = run_called r"
    unfolding run_called_eq call_as_parts
    by (simp add: run_base_def accept_request_def begin_request_def plain_env_def call_parts_def
        session_start_def build_request_def initial_body_def Let_def)
  show ?thesis using reach_step [OF r1 st1] unfolding eq .
qed

lemma reach_drain: "reach plain_env (run_base r) (run_drain r)"
proof -
  let ?s1 = "(run_called r)\<lparr>ss_phase := Selecting\<rparr>"
  let ?s2 = "(on_frame plain_env (GoAway ''deploy'' 0) ?s1)\<lparr>ss_phase := LoopTop\<rparr>"
  have r1: "reach plain_env (run_base r) ?s1"
    by (rule reach_step [OF reach_called], rule top_select)
      (simp_all add: run_called_eq session_start_def drained_def)
  have st1: "sess_step plain_env ?s1 ?s2"
    by (rule receive) (simp_all add: run_called_eq session_start_def)
  have st2: "sess_step plain_env ?s2 (?s2\<lparr>ss_phase := Selecting\<rparr>)"
    by (rule top_select) (simp_all add: run_called_eq session_start_def drained_def terminal_go_away_def)
  have eq: "?s2\<lparr>ss_phase := Selecting\<rparr> = run_drain r"
    by (simp add: run_drain_def terminal_go_away_def)
  show ?thesis using reach_step [OF reach_step [OF r1 st1] st2] unfolding eq .
qed

lemma reach_queued: "reach plain_env (run_base r) (run_queued r)"
proof -
  let ?k = "\<lambda>fs. \<lparr>tk_parts = call_parts, tk_state = Writing fs 200\<rparr>"
  let ?a = "response_start 1 sse_response False None" and ?b = "ResponseBody 1 [] True"
  let ?s1 = "(run_drain r)\<lparr>ss_tasks := [0 \<mapsto> ?k [?a, ?b]]\<rparr>"
  let ?s2 = "(run_drain r)\<lparr>ss_outq := [OText ?a], ss_tasks := [0 \<mapsto> ?k [?b]]\<rparr>"
  have fields: "ss_tasks (run_drain r) = [0 \<mapsto> \<lparr>tk_parts = call_parts, tk_state = Calling\<rparr>]"
    "ss_outq (run_drain r) = []" "ss_phase (run_drain r) = Selecting" "ss_cancelled (run_drain r) = {}"
    by (simp_all add: run_drain_def run_called_eq session_start_def)
  have "sess_step plain_env (run_drain r) ?s1"
    using task_respond [of "run_drain r" 0 _ "[?a, ?b]" plain_env sse_response "[]"] sse_frames
    by (simp add: fields sse_response_def)
  moreover have "sess_step plain_env ?s1 ?s2"
    using task_push [of ?s1 0 "?k [?a, ?b]" ?a "[?b]" 200 plain_env] by (simp add: fields OUT_CAP_def)
  moreover have "sess_step plain_env ?s2 (run_queued r)"
    using task_push [of ?s2 0 "?k [?b]" ?b "[]" 200 plain_env]
    by (simp add: fields OUT_CAP_def run_queued_def)
  ultimately show ?thesis by (rule reach_step [OF reach_step [OF reach_step [OF reach_drain]]])
qed

text \<open>A drained session can lose the end of a response. The loop leaves as soon as the in-flight
  count is zero, and a task gives its slot back once its last frame is in the outgoing channel, not
  once that frame is written: after a \<open>GoAway\<close> there is a run in which the one admitted call has
  finished, the session stops to reconnect, and the frame that ends the response is still queued
  and never reached the socket.\<close>

theorem drain_loses_queued_frames:
  "\<exists>s stop. reach plain_env (session_start r \<lparr>st_inflight = 0, st_total = 0\<rparr>) s
     \<and> ss_phase s = Stopped stop \<and> so_after stop = Some 0 \<and> ss_tasks s = Map.empty
     \<and> ss_outq s = [OText (ResponseBody 1 [] True)]
     \<and> OText (ResponseBody 1 [] True) \<notin> set (ss_wire s)"
proof -
  let ?k = "\<lparr>tk_parts = call_parts, tk_state = Writing [] 200\<rparr>"
  let ?s1 = "finish_task plain_env 0 ?k 200 (run_queued r)"
  let ?s2 = "?s1\<lparr>ss_outq := [OText (ResponseBody 1 [] True)],
     ss_wire := ss_wire ?s1 @ [OText (response_start 1 sse_response False None)], ss_phase := LoopTop\<rparr>"
  let ?stop = "stop_reconnect r (Some 0)"
  have st: "ss_stats (run_queued r) = \<lparr>st_inflight = 1, st_total = 0\<rparr>" "ss_wire (run_queued r) = []"
    "ss_go_away (run_queued r) = Some 0" "ss_terminal (run_queued r) = None" "ss_reclaim (run_queued r) = r"
    by (simp_all add: run_queued_def run_drain_def run_called_eq session_start_def)
  have "sess_step plain_env (run_queued r) ?s1"
    by (rule task_finish) (simp_all add: run_queued_def)
  moreover have "sess_step plain_env ?s1 ?s2"
    by (rule flush) (simp_all add: run_queued_def run_drain_def)
  moreover have "sess_step plain_env ?s2 (?s2\<lparr>ss_phase := Stopped ?stop\<rparr>)"
    by (rule top_stop) (simp_all add: drained_def st end_request_def)
  ultimately have "reach plain_env (run_base r) (?s2\<lparr>ss_phase := Stopped ?stop\<rparr>)"
    by (rule reach_step [OF reach_step [OF reach_step [OF reach_queued]]])
  moreover have "ss_wire ?s1 = []" by (simp add: finish_task_def log_finished_def st)
  moreover have "ss_tasks ?s1 = Map.empty" by (auto simp: run_queued_def)
  ultimately show ?thesis
    unfolding run_base_def
    by (intro exI [of _ "?s2\<lparr>ss_phase := Stopped ?stop\<rparr>"] exI [of _ ?stop])
      (simp add: stop_reconnect_def response_start_def)
qed

section \<open>Properties of every run\<close>

text \<open>The outgoing channel is bounded.\<close>

lemma outq_on_frame: "length (ss_outq s) \<le> OUT_CAP \<Longrightarrow> length (ss_outq (on_frame e f s)) \<le> OUT_CAP"
  by (cases f)
    (auto simp: accept_request_def try_send_def log_finished_def request_body_frame_def
      cancel_frame_def Let_def split: prod.split option.split)

lemma outq_step:
  assumes "length (ss_outq s) \<le> OUT_CAP" "sess_step e s s'"
  shows "length (ss_outq s') \<le> OUT_CAP"
  using assms(2)
proof cases
  case (receive f)
  then show ?thesis using outq_on_frame [OF assms(1)] by simp
qed (use assms(1) in \<open>simp_all add: try_send_def\<close>)





end
