(* ===== verification/Spec2Isabelle.thy ===== *)
theory Spec2Isabelle
  imports Main Cli_Config Compile Credentials Dial Gateway Http_Headers Ip_Addr Ip_Text Ir_Types Json Local_Upstream Lower_Parts Operation_Class Prelude Proto Ref_Store Render Schema_Refs Schema_Shape Serve Server_Handler Server_Http Spec_Load Spec_Safety Ssrf Stdio_Bridge Tool_Names Tool_Result Tunnel_Client Tunnel_Session Tunnel_Steps Tunnel_Stream Utf8 Wire
begin

text \<open>
  \<^bold>\<open>The OpenAPI-to-MCP gateway.\<close> The program under \<open>src/crates\<close> turns an OpenAPI document into a set of
  MCP tools and serves them. Its parts work in this order.

  \<^item> The compiler (\<open>mcp-gateway-compile\<close>) loads a document, resolves its references, lowers every
    operation to a tool with an execution plan and gives the tools distinct names; the result is a
    value of the intermediate representation (\<open>mcp-gateway-ir\<close>).
  \<^item> The server (\<open>mcp-gateway-server\<close>) lists the tools and answers calls by name, behind an HTTP
    front that checks a bearer token and the request's host and origin.
  \<^item> The proxy (\<open>mcp-gateway-proxy\<close>) executes a call: it renders the plan and the arguments to an
    HTTP request, checks and pins the address it is sent to on every redirect, injects the
    credential, decodes the response under a cap and maps it to a tool result.
  \<^item> The tunnel (\<open>mcp-gateway-tunnel\<close>, wire types in \<open>mcp-gateway-tunnel-proto\<close>) makes a server of
    this machine reachable through a relay: one socket, many requests in flight, and in front of
    it either the server above or another MCP server, over HTTP or as a child process.
  \<^item> The command line (\<open>mcp-gateway-cli\<close>) reads flags, variables and a configuration file and
    decides which of these run and with which policy.

  \<^bold>\<open>Conventions.\<close> A Rust string is the list of its bytes, a \<open>Result\<close> is a sum with the error on the
  left, a machine integer is a word of its width and every wrap, saturation and cap is written
  out; a panic is the value \<open>None\<close>. Header maps, JSON objects and other maps that keep an order are
  association lists. Code outside the repository (the \<open>url\<close>, \<open>hyper\<close>, \<open>axum\<close>, \<open>rmcp\<close>, \<open>serde\<close> and
  \<open>jsonschema\<close> crates, decompressors, the cipher, digests, clocks, sockets, the resolver) is a field
  of an environment record that the definitions take as an argument. What is relied on of such
  code is a named hypothesis, and each property with a hypothesis is followed by an instance of it
  on a concrete environment. Concurrency is a step relation over explicit states, whose steps are
  the branches of the source's \<open>select!\<close> loops and the points at which its tasks yield.

  \<^bold>\<open>Theories and the code they model.\<close>

  \<^item> \<open>Prelude\<close>, \<open>Json\<close>, \<open>Utf8\<close>, \<open>Ip_Addr\<close>, \<open>Ip_Text\<close>: the parts of the standard library and of
    \<open>serde_json\<close> that the source uses. \<open>Json\<close> has the codec locales \<open>wire\<close> and \<open>field_wire\<close>;
    \<open>Ip_Text\<close> the locale \<open>answer_gate\<close>, the contract of a check of a DNS answer.
  \<^item> \<open>Ssrf\<close> (\<open>proxy/src/ssrf/\<close>): deny tables, policy, classification of addresses and names, pinning
    of a URL. Blocking is the same for an address and for the IPv4 address embedded in it, metadata
    addresses stay blocked, and a pinned URL has passed every check. \<open>Spec_Safety\<close>
    (\<open>compile/src/safety.rs\<close> and the flags of the spec commands) is the loader's own policy; the two
    are compared, and both interpret \<open>answer_gate\<close>.
  \<^item> \<open>Ir_Types\<close> (\<open>ir/src/\<close>): the records of a compiled API, the codes of a report, and how a list
    argument is written by style.
  \<^item> The compiler: \<open>Spec_Load\<close> (\<open>loader.rs\<close>, \<open>parse.rs\<close>, \<open>server_url.rs\<close>), \<open>Ref_Store\<close> (\<open>http.rs\<close>
    and the retriever of \<open>refs.rs\<close>: caps and budgets of downloads, reference chains), \<open>Schema_Refs\<close>
    (the bundling part of \<open>refs.rs\<close>: needed definitions, cycles, dangling references), \<open>Schema_Shape\<close>
    (\<open>normalize.rs\<close>, \<open>lower/schema.rs\<close>), \<open>Tool_Names\<close> (\<open>names.rs\<close>), \<open>Operation_Class\<close>
    (\<open>destructive.rs\<close>, \<open>category.rs\<close>, \<open>style.rs\<close>, \<open>lower/media.rs\<close>), \<open>Lower_Parts\<close> (security,
    servers, parameters, body and responses under \<open>lower/\<close>) and \<open>Compile\<close> (\<open>lower/collect.rs\<close>,
    \<open>lower/mod.rs\<close>, \<open>compile.rs\<close>). The compiler returns, with distinct names, accounts for every
    operation it found, plans no argument that the input schema lacks, and enables no destructive or
    deprecated tool by default. \<open>Tool_Names\<close> states the contract of naming as the locale \<open>naming\<close>.
  \<^item> The proxy: \<open>Http_Headers\<close> (\<open>headers.rs\<close>, \<open>error.rs\<close>), \<open>Credentials\<close> (\<open>credentials.rs\<close>),
    \<open>Render\<close> (\<open>render.rs\<close>: arguments stay inside their path segment, no reserved header is set),
    \<open>Dial\<close> (\<open>dial.rs\<close>: every exchange of a redirect chain goes to a checked address), \<open>Tool_Result\<close>
    (\<open>map.rs\<close>: mapping and redaction).
  \<^item> The server: \<open>Server_Handler\<close> (\<open>handler.rs\<close>; the locale \<open>upstream_executor\<close> is what it relies on
    in the proxy, interpreted on the renderer, dialler and mapper above), \<open>Server_Http\<close> (\<open>bind.rs\<close>,
    \<open>http.rs\<close>).
  \<^item> \<open>Gateway\<close> composes the compiler, the handler and the renderer: which of the compiled tools can be
    listed and called, and what becomes of bodies and headers between lowering and rendering.
  \<^item> The tunnel: \<open>Proto\<close> and \<open>Wire\<close> (\<open>tunnel-proto/src/lib.rs\<close>: slugs, header classes, frames and
    their JSON forms; locale \<open>header_class\<close>), \<open>Tunnel_Session\<close> (\<open>session.rs\<close>, \<open>stats.rs\<close>: the
    handlers; locale \<open>slot_gate\<close> for the in-flight limit), \<open>Tunnel_Stream\<close> (the frames of one
    response), \<open>Tunnel_Steps\<close> (all interleavings of the socket loop and the request tasks),
    \<open>Tunnel_Client\<close> (\<open>client.rs\<close>, \<open>reconnect.rs\<close>, \<open>lib.rs\<close>), \<open>Local_Upstream\<close> (\<open>upstream/policy.rs\<close>,
    \<open>auth.rs\<close>, \<open>http.rs\<close>, \<open>mod.rs\<close>), \<open>Stdio_Bridge\<close> (\<open>upstream/stdio.rs\<close>, as a step relation with
    the invariant \<open>good\<close>: each waiting caller is held in exactly one place).
  \<^item> The command line: \<open>Cli_Config\<close> (\<open>config.rs\<close>, \<open>secrets.rs\<close>, \<open>ir_cache.rs\<close>, \<open>runtime.rs\<close>,
    \<open>exit.rs\<close>, \<open>main.rs\<close>: what a run resolves to and the policy its calls obey), \<open>Serve\<close>
    (\<open>commands/serve.rs\<close>, \<open>commands/tunnel.rs\<close>: bind address, tokens, the two routers, exit codes).

  \<^bold>\<open>Bounds and fuel.\<close> Recursion is structural or has a proved measure wherever possible.

  \<^item> \<open>Dial\<close>: a redirect chain runs with \<open>hop_fuel\<close>, the policy's limit plus two. For limits below 255
    it returns, with at most one exchange more than the limit; at 255 the hop counter of eight bits
    can wrap. A response is decoded under \<open>DECOMPRESS_CAP\<close>.
  \<^item> \<open>Ref_Store\<close>: a chain of references ends after \<open>REF_CHAIN_DEPTH\<close> (32) links, the code's constant,
    which is also its measure. \<open>Schema_Refs\<close>: the search for cycles has one unit of fuel more than
    the graph has nodes, and \<open>cycle_check\<close> shows that it always answers; collecting definitions ends
    since every round finds a new one among finitely many names.
  \<^item> \<open>Tool_Names\<close>: \<open>probe\<close> is a partial function, as the loop need not end; it returns for fewer than
    \<open>2 ^ 30\<close> operations. \<open>Lower_Parts\<close>: \<open>free_name\<close> tries one more name than there are properties.
  \<^item> \<open>Server_Handler\<close>: \<open>all_pages\<close> follows cursors for one page more than the list fills.
  \<^item> \<open>Stdio_Bridge\<close>: the invariant speaks of runs that have issued fewer than \<open>2 ^ 64\<close> request numbers;
    the wrap of the counter is modelled.

  \<^bold>\<open>What modelling showed.\<close> Behaviour that departs from the code's intention or from \<open>src/docs\<close> is
  proved of the model beside the properties: form bodies are sent empty and tools with reserved
  header parameters refuse every call (\<open>Gateway\<close>), and, among the lemmas, \<open>Render.adjacent_dots_pass\<close>,
  \<open>Http_Headers.connection_value_ignored\<close>, \<open>Tool_Names.reserved_prefix_reappears\<close>,
  \<open>Schema_Refs.escaped_definition_reported_dangling\<close>, \<open>Tunnel_Steps.drain_loses_queued_frames\<close>,
  \<open>Stdio_Bridge.a_cancellation_hits_another_client\<close>, \<open>Server_Handler.tools_off_by_default_are_served\<close>,
  \<open>Server_Http.health_path_panics\<close> and \<open>Cli_Config.another_specs_bundle_is_found\<close>.

  \<^bold>\<open>What is not modelled.\<close> The other commands of the command line (input, output and process
  control), the Fetch Hive account client (HTTP and the keyring), the fixed texts of
  \<open>mcp-gateway-upsell\<close>, the one call that serves standard input, crate roots, test code. Within the
  modelled parts: reading a missing spec interactively and account names in \<open>serve.rs\<close>, writing the
  configuration and the cache, the texts of TOML and the derived JSON forms of the intermediate
  representation, overrides that exist in debug builds only, process creation, sockets, signals,
  TLS, the jitter of a delay and the durations in a request log. The handshake with a child process
  is one step of the bridge.
\<close>

end
